(* ===== verification/Prelude.thy ===== *)
theory Prelude
  imports Main "HOL-Library.Word" "HOL-Library.List_Lexorder" "HOL-Library.Char_ord"
    "HOL-Library.Product_Lexorder"
begin

text \<open>
  What every component of the development shares: the error values of the Go code, the result
  of a fallible operation, transactions on the database, time as integers, the few operations of
  SQL the statements of the code are made of, and JSON documents as PostgreSQL stores them.
\<close>

named_theorems res_simps "rewriting of fallible results"
named_theorems sql_simps "rewriting of SQL statements on tables"

subsection \<open>Errors and results\<close>

text \<open>
  One constructor for each sentinel error of the code (\<^verbatim>\<open>var ErrX = errors.New(...)\<close>),
  one for \<^verbatim>\<open>sql.ErrNoRows\<close>, one for a statement refused by a constraint of the schema, one for a
  cancelled or expired context, and one for the errors made on the spot with their text.
\<close>

datatype err =
    ErrNoJob | ErrLeaseLost | ErrSuppressed | ErrExpired | ErrStaleResolution
  | ErrActive | ErrStale | ErrBlocked
  | ErrInvalidSubmission | ErrIdempotencyConflict | ErrSubmissionBusy | ErrSenderDenied | ErrInvalidMessage
  | ErrSubmissionBudget | ErrSubmissionBatchTooLarge | ErrStreamDenied | ErrStreamBudget | ErrSubmissionDisabled
  | ErrExpiredSubmission | ErrInvalidExpiry | ErrInvalidSchedule | ErrScheduleCapacity
  | ErrControlNotFound | ErrNotCancellable | ErrTooLarge | ErrNonCanonical
  | ErrCredentials | ErrBusy
  | ErrNoRows | ErrConstraint | ErrContext | ErrNoProgress
  | ErrNew string

type_synonym 'a res = "err + 'a"

definition bind_res :: "'e + 'a \<Rightarrow> ('a \<Rightarrow> 'e + 'b) \<Rightarrow> 'e + 'b" where
  "bind_res m f = (case m of Inl e \<Rightarrow> Inl e | Inr x \<Rightarrow> f x)"

definition guard_res :: "bool \<Rightarrow> 'e \<Rightarrow> 'e + unit" where
  "guard_res b e = (if b then Inr () else Inl e)"

fun fold_res :: "('a \<Rightarrow> 's \<Rightarrow> 'e + 's) \<Rightarrow> 'a list \<Rightarrow> 's \<Rightarrow> 'e + 's" where
  "fold_res f [] s = Inr s"
| "fold_res f (x # xs) s = bind_res (f x s) (fold_res f xs)"

lemma bind_res_simps [simp, res_simps]:
  "bind_res (Inl e) f = Inl e"
  "bind_res (Inr x) f = f x"
  by (simp_all add: bind_res_def)

lemma bind_res_Inr_iff [res_simps]: "bind_res m f = Inr y \<longleftrightarrow> (\<exists>x. m = Inr x \<and> f x = Inr y)"
  by (cases m) simp_all

lemma bind_res_Inl_iff: "bind_res m f = Inl e \<longleftrightarrow> m = Inl e \<or> (\<exists>x. m = Inr x \<and> f x = Inl e)"
  by (cases m) simp_all

lemma bind_res_InrE [elim?]:
  assumes "bind_res m f = Inr y"
  obtains x where "m = Inr x" and "f x = Inr y"
  using assms by (auto simp: bind_res_Inr_iff)

lemma guard_res_Inr_iff [simp, res_simps]: "guard_res b e = Inr u \<longleftrightarrow> b"
  by (simp add: guard_res_def)

lemma guard_res_Inl_iff [simp, res_simps]: "guard_res b e = Inl e' \<longleftrightarrow> \<not> b \<and> e' = e"
  by (auto simp: guard_res_def)

lemma guard_res_simps [simp, res_simps]:
  "guard_res True e = Inr ()" "guard_res False e = Inl e"
  by (simp_all add: guard_res_def)

text \<open>
  What a fallible step may end in: it stops with a value that has \<open>Q\<close> or goes on with one that has \<open>R\<close>.
  With a precondition in front this is a Hoare triple; \<open>res_ok_bind\<close> is the rule for sequences.
\<close>

definition res_ok :: "('t \<Rightarrow> bool) \<Rightarrow> ('e \<Rightarrow> bool) \<Rightarrow> 'e + 't \<Rightarrow> bool" where
  "res_ok R Q m = (case m of Inl e \<Rightarrow> Q e | Inr t \<Rightarrow> R t)"

lemma res_ok_simps [simp]: "res_ok R Q (Inl e) = Q e" "res_ok R Q (Inr t) = R t"
  by (simp_all add: res_ok_def)

lemma res_ok_bind:
  assumes "res_ok R Q m" and "\<And>t. R t \<Longrightarrow> res_ok S Q (f t)"
  shows "res_ok S Q (bind_res m f)"
  using assms by (cases m) simp_all

lemma res_ok_conseq:
  assumes "res_ok R Q m" and "\<And>t. R t \<Longrightarrow> R' t" and "\<And>e. Q e \<Longrightarrow> Q' e"
  shows "res_ok R' Q' m"
  using assms by (cases m) simp_all

text \<open>What every step of a fallible loop keeps, the loop keeps.\<close>

lemma fold_res_invariant:
  assumes "fold_res f xs s = Inr t" and "P s"
    and "\<And>x s t. x \<in> set xs \<Longrightarrow> P s \<Longrightarrow> f x s = Inr t \<Longrightarrow> P t"
  shows "P t"
  using assms
proof (induction xs arbitrary: s)
  case Nil
  then show ?case by simp
next
  case (Cons x xs)
  from Cons.prems(1) obtain s' where s': "f x s = Inr s'" and rest: "fold_res f xs s' = Inr t"
    by (auto simp: bind_res_Inr_iff)
  have "P s'" using Cons.prems(2,3) s' by (meson list.set_intros(1))
  with rest Cons.IH Cons.prems(3) show ?case by (meson list.set_intros(2))
qed

lemma fold_res_append:
  "fold_res f (xs @ ys) s = bind_res (fold_res f xs s) (fold_res f ys)"
proof (induction xs arbitrary: s)
  case Nil
  show ?case by simp
next
  case (Cons x xs)
  then show ?case by (cases "f x s") simp_all
qed

subsection \<open>Transactions\<close>

text \<open>
  A transaction body maps a state to an error or a value and the next state. Running it commits the
  new state on success and rolls back on every error, as the deferred Rollback of the code does.
\<close>

type_synonym ('s, 'a) body = "'s \<Rightarrow> err + 'a \<times> 's"

definition run_tx :: "('s, 'a) body \<Rightarrow> 's \<Rightarrow> err + 'a" where
  "run_tx b s = (case b s of Inl e \<Rightarrow> Inl e | Inr (x, _) \<Rightarrow> Inr x)"

definition commit_tx :: "('s, 'a) body \<Rightarrow> 's \<Rightarrow> 's" where
  "commit_tx b s = (case b s of Inl _ \<Rightarrow> s | Inr (_, s') \<Rightarrow> s')"

lemma commit_tx_Inl [simp]: "b s = Inl e \<Longrightarrow> commit_tx b s = s"
  by (simp add: commit_tx_def)

lemma commit_tx_Inr [simp]: "b s = Inr (x, s') \<Longrightarrow> commit_tx b s = s'"
  by (simp add: commit_tx_def)

lemma commit_tx_invariant:
  assumes "P s" and "\<And>x s'. b s = Inr (x, s') \<Longrightarrow> P s'"
  shows "P (commit_tx b s)"
proof (cases "b s")
  case (Inl e)
  with assms(1) show ?thesis by simp
next
  case (Inr r)
  with assms(2) show ?thesis by (cases r) simp
qed

subsection \<open>Time\<close>

text \<open>
  An instant is the number of nanoseconds since the zero value of Go's time.Time (the first of
  January of year 1, UTC), so the method IsZero is equality with 0. Durations are nanoseconds.
\<close>

type_synonym time = int
type_synonym duration = int

abbreviation (input) IsZero :: "time \<Rightarrow> bool" where
  "IsZero t \<equiv> t = 0"

definition Millisecond :: duration where "Millisecond = 1000000"
definition Second :: duration where "Second = 1000000000"
definition Minute :: duration where "Minute = 60 * Second"
definition Hour :: duration where "Hour = 60 * Minute"

lemmas duration_defs = Millisecond_def Second_def Minute_def Hour_def

subsection \<open>SQL on tables\<close>

text \<open>
  A table is the list of its rows. A comparison with NULL is not true, so the two comparisons of a
  nullable column below are false on \<^const>\<open>None\<close>.
\<close>

definition null_le :: "'a::linorder option \<Rightarrow> 'a \<Rightarrow> bool" where
  "null_le x y = (case x of None \<Rightarrow> False | Some v \<Rightarrow> v \<le> y)"

definition null_gt :: "'a::linorder option \<Rightarrow> 'a \<Rightarrow> bool" where
  "null_gt x y = (case x of None \<Rightarrow> False | Some v \<Rightarrow> v > y)"

definition coalesce :: "'a option \<Rightarrow> 'a \<Rightarrow> 'a" where
  "coalesce x y = (case x of None \<Rightarrow> y | Some v \<Rightarrow> v)"

definition update_where :: "('r \<Rightarrow> bool) \<Rightarrow> ('r \<Rightarrow> 'r) \<Rightarrow> 'r list \<Rightarrow> 'r list" where
  "update_where p f rows = map (\<lambda>r. if p r then f r else r) rows"

definition count_where :: "('r \<Rightarrow> bool) \<Rightarrow> 'r list \<Rightarrow> int" where
  "count_where p rows = int (length (filter p rows))"

definition sum_where :: "('r \<Rightarrow> bool) \<Rightarrow> ('r \<Rightarrow> int) \<Rightarrow> 'r list \<Rightarrow> int" where
  "sum_where p f rows = sum_list (map f (filter p rows))"

definition min_of :: "('r \<Rightarrow> 'a::linorder option) \<Rightarrow> 'r list \<Rightarrow> 'a option" where
  "min_of f rows = fold (\<lambda>r m. case f r of None \<Rightarrow> m
                                | Some v \<Rightarrow> Some (case m of None \<Rightarrow> v | Some w \<Rightarrow> min v w)) rows None"

definition query_row :: "('r \<Rightarrow> bool) \<Rightarrow> 'r list \<Rightarrow> err + 'r" where
  "query_row p rows = (case find p rows of None \<Rightarrow> Inl ErrNoRows | Some r \<Rightarrow> Inr r)"

definition order_limit :: "('r \<Rightarrow> 'k::linorder) \<Rightarrow> nat \<Rightarrow> ('r \<Rightarrow> bool) \<Rightarrow> 'r list \<Rightarrow> 'r list" where
  "order_limit key n p rows = take n (sort_key key (filter p rows))"

lemma null_le_simps [simp, sql_simps]: "null_le None y = False" "null_le (Some v) y = (v \<le> y)"
  by (simp_all add: null_le_def)

lemma null_gt_simps [simp, sql_simps]: "null_gt None y = False" "null_gt (Some v) y = (v > y)"
  by (simp_all add: null_gt_def)

lemma coalesce_simps [simp, sql_simps]: "coalesce None y = y" "coalesce (Some v) y = v"
  by (simp_all add: coalesce_def)

lemma update_where_Nil [simp]: "update_where p f [] = []"
  by (simp add: update_where_def)

lemma update_where_Cons [simp]:
  "update_where p f (r # rs) = (if p r then f r else r) # update_where p f rs"
  by (simp add: update_where_def)

lemma length_update_where [simp]: "length (update_where p f rows) = length rows"
  by (simp add: update_where_def)

lemma set_update_where: "set (update_where p f rows) = (\<lambda>r. if p r then f r else r) ` set rows"
  by (simp add: update_where_def)

lemma update_where_memE [elim]:
  assumes "r \<in> set (update_where p f rows)"
  obtains r0 where "r0 \<in> set rows" and "r = (if p r0 then f r0 else r0)"
  using assms by (auto simp: set_update_where)

lemma update_where_memI: "r \<in> set rows \<Longrightarrow> (if p r then f r else r) \<in> set (update_where p f rows)"
  by (auto simp: set_update_where)

lemma map_update_where:
  assumes "\<And>r. r \<in> set rows \<Longrightarrow> p r \<Longrightarrow> g (f r) = g r"
  shows "map g (update_where p f rows) = map g rows"
  using assms by (induction rows) (auto simp: update_where_def)

lemma update_where_cong_id: "(\<And>r. r \<in> set rows \<Longrightarrow> \<not> p r) \<Longrightarrow> update_where p f rows = rows"
  by (induction rows) auto

lemma count_where_nonneg [simp]: "0 \<le> count_where p rows"
  by (simp add: count_where_def)

lemma count_where_Nil [simp]: "count_where p [] = 0"
  by (simp add: count_where_def)

lemma count_where_Cons [simp]: "count_where p (r # rows) = (if p r then 1 else 0) + count_where p rows"
  by (simp add: count_where_def)

lemma count_where_append [simp]: "count_where p (xs @ ys) = count_where p xs + count_where p ys"
  by (simp add: count_where_def)

lemma count_where_0_iff: "count_where p rows = 0 \<longleftrightarrow> (\<forall>r \<in> set rows. \<not> p r)"
  by (auto simp: count_where_def filter_empty_conv)

lemma count_where_pos_iff: "0 < count_where p rows \<longleftrightarrow> (\<exists>r \<in> set rows. p r)"
  using count_where_0_iff [of p rows] count_where_nonneg [of p rows] by (auto simp: order_less_le)

lemma count_where_all_iff: "count_where p rows = int (length rows) \<longleftrightarrow> (\<forall>r \<in> set rows. p r)"
proof (induction rows)
  case Nil
  show ?case by simp
next
  case (Cons r rows)
  have "count_where p rows \<le> int (length rows)" by (simp add: count_where_def)
  with Cons show ?case by auto
qed

lemma count_where_mono:
  assumes "\<And>r. r \<in> set rows \<Longrightarrow> p r \<Longrightarrow> q r"
  shows "count_where p rows \<le> count_where q rows"
  using assms by (induction rows) (auto simp: add_increasing)

lemma sum_where_Nil [simp]: "sum_where p f [] = 0"
  by (simp add: sum_where_def)

lemma sum_where_Cons [simp]: "sum_where p f (r # rows) = (if p r then f r else 0) + sum_where p f rows"
  by (simp add: sum_where_def)

lemma sum_where_append [simp]: "sum_where p f (xs @ ys) = sum_where p f xs + sum_where p f ys"
  by (simp add: sum_where_def)

lemma sum_where_nonneg: "(\<And>r. r \<in> set rows \<Longrightarrow> 0 \<le> f r) \<Longrightarrow> 0 \<le> sum_where p f rows"
  by (induction rows) (auto simp: add_nonneg_nonneg)

lemma sum_where_mono:
  assumes "\<And>r. r \<in> set rows \<Longrightarrow> 0 \<le> f r" and "\<And>r. r \<in> set rows \<Longrightarrow> p r \<Longrightarrow> q r"
  shows "sum_where p f rows \<le> sum_where q f rows"
  using assms by (induction rows) (auto simp: add_mono add_increasing)

lemma query_row_Inr: "query_row p rows = Inr r \<Longrightarrow> r \<in> set rows \<and> p r"
  by (auto simp: query_row_def find_Some_iff split: option.splits)

lemma query_row_Inl: "query_row p rows = Inl e \<longleftrightarrow> e = ErrNoRows \<and> (\<forall>r \<in> set rows. \<not> p r)"
  by (auto simp: query_row_def find_None_iff find_Some_iff split: option.splits)

lemma query_row_ex: "r \<in> set rows \<Longrightarrow> p r \<Longrightarrow> \<exists>r'. query_row p rows = Inr r'"
  by (auto simp: query_row_def find_None_iff split: option.splits)

lemma order_limit_mem: "r \<in> set (order_limit key n p rows) \<Longrightarrow> r \<in> set rows \<and> p r"
  by (auto simp: order_limit_def dest!: in_set_takeD)

lemma order_limit_length: "length (order_limit key n p rows) \<le> n"
  by (simp add: order_limit_def)

lemma order_limit_empty_iff: "order_limit key (Suc n) p rows = [] \<longleftrightarrow> (\<forall>r \<in> set rows. \<not> p r)"
proof -
  have "order_limit key (Suc n) p rows = [] \<longleftrightarrow> sort_key key (filter p rows) = []"
    by (simp add: order_limit_def)
  also have "\<dots> \<longleftrightarrow> filter p rows = []" by (metis length_0_conv length_sort)
  finally show ?thesis by (simp add: filter_empty_conv)
qed

text \<open>The first row of an ordered query is a least one among those that match.\<close>

lemma order_limit_least:
  assumes "order_limit key n p rows = r # rs" and "r' \<in> set rows" and "p r'"
  shows "key r \<le> key r'"
proof -
  have sorted: "sorted (map key (sort_key key (filter p rows)))" by simp
  from assms(1) have n: "0 < n" by (cases n) (auto simp: order_limit_def)
  with assms(1) obtain ys where ys: "sort_key key (filter p rows) = r # ys"
    by (cases "sort_key key (filter p rows)"; cases n) (auto simp: order_limit_def)
  have "r' \<in> set (r # ys)" using assms(2,3) ys 
    by (metis (mono_tags, lifting) filter_set mem_Collect_eq set_filter set_sort)
  with sorted ys show ?thesis by auto
qed

subsection \<open>JSON documents\<close>

datatype json = JNull | JBool bool | JInt int | JStr string | JArr "json list" | JObj "(string \<times> json) list"

definition json_get :: "json \<Rightarrow> string \<Rightarrow> json option" where
  "json_get j k = (case j of JObj fs \<Rightarrow> map_of fs k | _ \<Rightarrow> None)"

text \<open>
  The operator \<^verbatim>\<open>doc ->> 'key'\<close> reads a field as text. The statements of the code only compare such
  a text with the text of a string, a boolean or a small version number.
\<close>

definition json_is_text :: "json \<Rightarrow> string \<Rightarrow> string \<Rightarrow> bool" where
  "json_is_text j k t = (json_get j k = Some (JStr t))"

definition json_is_bool :: "json \<Rightarrow> string \<Rightarrow> bool \<Rightarrow> bool" where
  "json_is_bool j k b = (json_get j k = Some (JBool b))"

definition json_is_int :: "json \<Rightarrow> string \<Rightarrow> int \<Rightarrow> bool" where
  "json_is_int j k n = (json_get j k = Some (JInt n))"

text \<open>The operator \<^verbatim>\<open>||\<close> of two objects: the fields of the right one win.\<close>

definition json_concat :: "json \<Rightarrow> (string \<times> json) list \<Rightarrow> json" where
  "json_concat j gs =
     (case j of JObj fs \<Rightarrow> JObj (gs @ filter (\<lambda>(k, _). k \<notin> fst ` set gs) fs) | _ \<Rightarrow> JObj gs)"

lemma json_get_JObj [simp]: "json_get (JObj fs) k = map_of fs k"
  by (simp add: json_get_def)

lemma json_get_concat:
  "json_get (json_concat (JObj fs) gs) k = (case map_of gs k of None \<Rightarrow> map_of fs k | Some v \<Rightarrow> Some v)"
proof -
  have "map_of (filter (\<lambda>(k, _). k \<notin> fst ` set gs) fs) k = (if k \<in> fst ` set gs then None else map_of fs k)"
  proof (induction fs)
    case Nil
    show ?case by simp
  next
    case (Cons x fs)
    then show ?case
      by (cases "fst x \<in> fst ` set gs"; cases "fst x = k") (simp_all add: split_beta)
  qed
  moreover have "map_of gs k = None \<longleftrightarrow> k \<notin> fst ` set gs" by (simp add: map_of_eq_None_iff)
  ultimately show ?thesis
    by (auto simp: json_concat_def map_add_def split: option.splits)
qed

end
