(* ===== verification/Go_Strings.thy ===== *)
theory Go_Strings
  imports Prelude "HOL-Library.Sublist"
begin

text \<open>
  The operations of Go's packages strings, bytes, unicode/utf8 and encoding/base64 the modelled code
  uses. A Go string is a sequence of bytes and so is a HOL \<^typ>\<open>string\<close>. White space, case
  conversion and case folding follow Unicode where the code compares the result with ASCII text.
\<close>

subsection \<open>Bytes\<close>

definition byte :: "char \<Rightarrow> nat" where
  "byte c = of_char c"

definition chr :: "nat \<Rightarrow> char" where
  "chr n = char_of n"

definition CR :: char where "CR = CHR 0x0D"
definition LF :: char where "LF = CHR 0x0A"
definition NUL :: char where "NUL = CHR 0x00"

definition CRLF :: string where "CRLF = [CR, LF]"

lemmas byte_eval = byte_def chr_def char_of_def bit_iff_odd

lemma byte_less [simp]: "byte c < 256"
  by (simp add: byte_def)

lemma CR_neq_LF [simp]: "CR \<noteq> LF" "LF \<noteq> CR"
  by (simp_all add: CR_def LF_def)

lemma dot_neq [simp]: "CHR ''.'' \<noteq> LF" "LF \<noteq> CHR ''.''" "CHR ''.'' \<noteq> CR" "CR \<noteq> CHR ''.''"
  by (simp_all add: CR_def LF_def)

subsection \<open>Searching and splitting\<close>

definition contains_any :: "string \<Rightarrow> char set \<Rightarrow> bool" where
  "contains_any s cs = (\<exists>c \<in> set s. c \<in> cs)"

text \<open>strings.Split(s, sep) with a separator of one byte: always at least one part.\<close>

fun split_on :: "char \<Rightarrow> string \<Rightarrow> string list" where
  "split_on c [] = [[]]"
| "split_on c (x # xs) =
     (if x = c then [] # split_on c xs
      else case split_on c xs of [] \<Rightarrow> [[x]] | p # ps \<Rightarrow> (x # p) # ps)"

text \<open>strings.Cut(s, sep) with a separator of one byte.\<close>

fun cut_on :: "char \<Rightarrow> string \<Rightarrow> string \<times> string \<times> bool" where
  "cut_on c [] = ([], [], False)"
| "cut_on c (x # xs) =
     (if x = c then ([], xs, True)
      else let (a, b, ok) = cut_on c xs in (x # a, b, ok))"

text \<open>strings.LastIndexByte(s, c); absent is \<^const>\<open>None\<close> where the code has -1.\<close>

fun last_index :: "char \<Rightarrow> string \<Rightarrow> nat option" where
  "last_index c [] = None"
| "last_index c (x # xs) =
     (case last_index c xs of Some i \<Rightarrow> Some (Suc i) | None \<Rightarrow> if x = c then Some 0 else None)"

text \<open>strings.ReplaceAll(s, old, new) for a non-empty old text: occurrences from the left, not overlapping.\<close>

function replace_all :: "string \<Rightarrow> string \<Rightarrow> string \<Rightarrow> string" where
  "replace_all s old new =
     (if s = [] \<or> old = [] then s
      else if prefix old s then new @ replace_all (drop (length old) s) old new
      else hd s # replace_all (tl s) old new)"
  by pat_completeness auto
termination
  by (relation "measure (\<lambda>(s, old, new). length s)") auto

declare replace_all.simps [simp del]

definition starts_with :: "string \<Rightarrow> string \<Rightarrow> bool" where
  "starts_with s p = prefix p s"

definition trim_suffix :: "string \<Rightarrow> string \<Rightarrow> string" where
  "trim_suffix s p = (if suffix p s then take (length s - length p) s else s)"

lemma split_on_nonempty [simp]: "split_on c s \<noteq> []"
  by (induction s) (auto split: list.splits)

lemma last_index_Some: "last_index c s = Some i \<Longrightarrow> i < length s \<and> s ! i = c \<and> c \<notin> set (drop (Suc i) s)"
proof (induction s arbitrary: i)
  case Nil
  then show ?case by simp
next
  case (Cons x xs)
  have none: "last_index c xs = None \<longleftrightarrow> c \<notin> set xs"
    by (induction xs) (auto split: option.splits)
  show ?case
  proof (cases "last_index c xs")
    case None
    with Cons.prems none show ?thesis by (auto split: if_splits)
  next
    case (Some j)
    with Cons show ?thesis by auto
  qed
qed

lemma last_index_None_iff: "last_index c s = None \<longleftrightarrow> c \<notin> set s"
  by (induction s) (auto split: option.splits)

subsection \<open>UTF-8\<close>

text \<open>
  The number of bytes of the first code point of a string, \<^const>\<open>None\<close> where no valid encoding starts
  (utf8.DecodeRune with RuneError of width 1): no overlong forms, no surrogates, nothing above U+10FFFF.
\<close>

definition cont :: "nat \<Rightarrow> bool" where
  "cont b = (0x80 \<le> b \<and> b \<le> 0xBF)"

fun rune_len :: "string \<Rightarrow> nat option" where
  "rune_len [] = None"
| "rune_len (c0 # cs) = (let b0 = byte c0; b = (\<lambda>i. if i < length cs then byte (cs ! i) else 0) in
     if b0 < 0x80 then Some 1
     else if 0xC2 \<le> b0 \<and> b0 \<le> 0xDF then (if cont (b 0) then Some 2 else None)
     else if 0xE0 \<le> b0 \<and> b0 \<le> 0xEF then
       (if (if b0 = 0xE0 then 0xA0 \<le> b 0 \<and> b 0 \<le> 0xBF
            else if b0 = 0xED then 0x80 \<le> b 0 \<and> b 0 \<le> 0x9F else cont (b 0)) \<and> cont (b 1)
        then Some 3 else None)
     else if 0xF0 \<le> b0 \<and> b0 \<le> 0xF4 then
       (if (if b0 = 0xF0 then 0x90 \<le> b 0 \<and> b 0 \<le> 0xBF
            else if b0 = 0xF4 then 0x80 \<le> b 0 \<and> b 0 \<le> 0x8F else cont (b 0)) \<and> cont (b 1) \<and> cont (b 2)
        then Some 4 else None)
     else None)"

lemma rune_len_pos: "rune_len s = Some n \<Longrightarrow> 0 < n"
  by (cases s) (auto simp: Let_def split: if_splits)

function valid_utf8 :: "string \<Rightarrow> bool" where
  "valid_utf8 s = (if s = [] then True
     else case rune_len s of None \<Rightarrow> False | Some n \<Rightarrow> valid_utf8 (drop n s))"
  by pat_completeness auto
termination
  by (relation "measure length") (auto dest: rune_len_pos)

declare valid_utf8.simps [simp del]

text \<open>
  strings.ToValidUTF8(s, repl): every maximal run of bytes outside a valid encoding becomes one \<open>repl\<close>.
  The flag says that the byte before belongs to such a run.
\<close>

function to_valid_utf8 :: "bool \<Rightarrow> string \<Rightarrow> string \<Rightarrow> string" where
  "to_valid_utf8 inrun repl s = (if s = [] then []
     else case rune_len s of
       None \<Rightarrow> (if inrun then [] else repl) @ to_valid_utf8 True repl (tl s)
     | Some n \<Rightarrow> take n s @ to_valid_utf8 False repl (drop n s))"
  by pat_completeness auto
termination
  by (relation "measure (\<lambda>(r, p, s). length s)") (auto dest: rune_len_pos)

declare to_valid_utf8.simps [simp del]

definition replacement_char :: string where
  "replacement_char = [CHR 0xEF, CHR 0xBF, CHR 0xBD]"

subsection \<open>White space\<close>

text \<open>The encodings of the code points with Unicode's White_Space property (unicode.IsSpace).\<close>

definition space_encodings :: "string list" where
  "space_encodings =
     [[CHR 0x09], [CHR 0x0A], [CHR 0x0B], [CHR 0x0C], [CHR 0x0D], [CHR 0x20]]
     @ [[CHR 0xC2, CHR 0x85], [CHR 0xC2, CHR 0xA0], [CHR 0xE1, CHR 0x9A, CHR 0x80]]
     @ map (\<lambda>c. [CHR 0xE2, CHR 0x80, c])
         [CHR 0x80, CHR 0x81, CHR 0x82, CHR 0x83, CHR 0x84, CHR 0x85, CHR 0x86, CHR 0x87, CHR 0x88, CHR 0x89, CHR 0x8A,
          CHR 0xA8, CHR 0xA9, CHR 0xAF]
     @ [[CHR 0xE2, CHR 0x81, CHR 0x9F], [CHR 0xE3, CHR 0x80, CHR 0x80]]"

definition space_at :: "string \<Rightarrow> string option" where
  "space_at s = find (\<lambda>e. prefix e s) space_encodings"

definition space_before_end :: "string \<Rightarrow> string option" where
  "space_before_end s = find (\<lambda>e. suffix e s) space_encodings"

lemma space_encodings_nonempty: "e \<in> set space_encodings \<Longrightarrow> e \<noteq> []"
  by (auto simp: space_encodings_def)

lemma space_at_Some: "space_at s = Some e \<Longrightarrow> e \<noteq> [] \<and> prefix e s"
  using space_encodings_nonempty by (auto simp: space_at_def find_Some_iff)

lemma space_before_end_Some: "space_before_end s = Some e \<Longrightarrow> e \<noteq> [] \<and> suffix e s"
  using space_encodings_nonempty by (auto simp: space_before_end_def find_Some_iff)

function trim_left :: "string \<Rightarrow> string" where
  "trim_left s = (case space_at s of None \<Rightarrow> s | Some e \<Rightarrow> trim_left (drop (length e) s))"
  by pat_completeness auto
termination
proof (relation "measure length")
  fix s e assume "space_at s = Some e"
  then have "e \<noteq> []" and "prefix e s" by (auto dest: space_at_Some)
  then show "(drop (length e) s, s) \<in> measure length"
    by (cases s) auto
qed auto

function trim_right :: "string \<Rightarrow> string" where
  "trim_right s = (case space_before_end s of None \<Rightarrow> s
     | Some e \<Rightarrow> trim_right (take (length s - length e) s))"
  by pat_completeness auto
termination
proof (relation "measure length")
  fix s e assume "space_before_end s = Some e"
  then have "e \<noteq> []" and "suffix e s" by (auto dest: space_before_end_Some)
  then show "(take (length s - length e) s, s) \<in> measure length"
    by (cases s) (auto dest: suffix_length_le)
qed auto

declare trim_left.simps [simp del] trim_right.simps [simp del]

definition trim_space :: "string \<Rightarrow> string" where
  "trim_space s = trim_right (trim_left s)"

lemma space_encodings_bytes:
  "e \<in> set space_encodings \<Longrightarrow> \<not> (32 < byte (hd e) \<and> byte (hd e) < 127) \<and> \<not> (32 < byte (last e) \<and> byte (last e) < 127)"
  by (auto simp: space_encodings_def byte_def)

text \<open>A text that starts and ends with printable ASCII characters is trimmed already.\<close>

lemma trim_space_printable:
  assumes "s \<noteq> []" and "32 < byte (hd s)" "byte (hd s) < 127" and "32 < byte (last s)" "byte (last s) < 127"
  shows "trim_space s = s"
proof -
  have "space_at s = None"
  proof (rule ccontr)
    assume "space_at s \<noteq> None"
    then obtain e where "e \<in> set space_encodings" "prefix e s" by (auto simp: space_at_def find_Some_iff in_set_conv_nth)
    then show False using space_encodings_bytes [of e] space_encodings_nonempty [of e] assms by (auto simp: prefix_def)
  qed
  moreover have "space_before_end s = None"
  proof (rule ccontr)
    assume "space_before_end s \<noteq> None"
    then obtain e where "e \<in> set space_encodings" "suffix e s" by (auto simp: space_before_end_def find_Some_iff in_set_conv_nth)
    then show False using space_encodings_bytes [of e] space_encodings_nonempty [of e] assms by (auto simp: suffix_def)
  qed
  ultimately show ?thesis by (simp add: trim_space_def trim_left.simps [of s] trim_right.simps [of s])
qed

text \<open>strings.Fields: the maximal parts without white space.\<close>

function fields_from :: "string \<Rightarrow> string \<Rightarrow> string list" where
  "fields_from acc s =
     (if s = [] then (if acc = [] then [] else [acc])
      else case space_at s of
        Some e \<Rightarrow> (if acc = [] then [] else [acc]) @ fields_from [] (drop (length e) s)
      | None \<Rightarrow> fields_from (acc @ [hd s]) (tl s))"
  by pat_completeness auto
termination
proof (relation "measure (\<lambda>(acc, s). length s)")
  fix acc :: string and s e assume "s \<noteq> []" and "space_at s = Some e"
  then show "(([], drop (length e) s), acc, s) \<in> measure (\<lambda>(acc, s). length s)"
    by (cases s) (auto dest: space_at_Some)
qed auto

declare fields_from.simps [simp del]

definition Fields :: "string \<Rightarrow> string list" where
  "Fields s = fields_from [] s"

subsection \<open>Case\<close>

definition lower_char :: "char \<Rightarrow> char" where
  "lower_char c = (if 65 \<le> byte c \<and> byte c \<le> 90 then chr (byte c + 32) else c)"

definition upper_char :: "char \<Rightarrow> char" where
  "upper_char c = (if 97 \<le> byte c \<and> byte c \<le> 122 then chr (byte c - 32) else c)"

definition to_lower :: "string \<Rightarrow> string" where
  "to_lower s = map lower_char s"

text \<open>
  strings.ToUpper compared with an ASCII word: besides the ASCII letters, the dotless i (U+0131)
  and the long s (U+017F) have an ASCII upper case.
\<close>

definition to_upper :: "string \<Rightarrow> string" where
  "to_upper s = map upper_char
     (replace_all (replace_all s [CHR 0xC4, CHR 0xB1] ''i'') [CHR 0xC5, CHR 0xBF] ''s'')"

text \<open>
  strings.EqualFold with an ASCII word: the long s folds with s and the Kelvin sign (U+212A) with k.
\<close>

definition fold_key :: "string \<Rightarrow> string" where
  "fold_key s = to_lower
     (replace_all (replace_all s [CHR 0xC5, CHR 0xBF] ''s'') [CHR 0xE2, CHR 0x84, CHR 0xAA] ''k'')"

definition equal_fold :: "string \<Rightarrow> string \<Rightarrow> bool" where
  "equal_fold s t = (fold_key s = fold_key t)"

lemma lower_char_idem [simp]: "lower_char (lower_char c) = lower_char c"
proof -
  have "byte (chr (byte c + 32)) = byte c + 32" if "byte c \<le> 90"
    using that by (simp add: byte_def chr_def)
  then show ?thesis by (auto simp: lower_char_def)
qed

lemma to_lower_idem [simp]: "to_lower (to_lower s) = to_lower s"
  by (simp add: to_lower_def)

lemma to_lower_append: "to_lower (s @ t) = to_lower s @ to_lower t"
  by (simp add: to_lower_def)

subsection \<open>Base64 and numbers\<close>

definition b64_digit :: "nat \<Rightarrow> char" where
  "b64_digit n = ''ABCDEFGHIJKLMNOPQRSTUVWXYZabcdefghijklmnopqrstuvwxyz0123456789+/'' ! (n mod 64)"

text \<open>base64.StdEncoding.EncodeToString.\<close>

fun b64_encode :: "string \<Rightarrow> string" where
  "b64_encode [] = []"
| "b64_encode [a] = (let n = byte a * 65536 in
     [b64_digit (n div 262144), b64_digit (n div 4096), CHR ''='', CHR ''=''])"
| "b64_encode [a, b] = (let n = byte a * 65536 + byte b * 256 in
     [b64_digit (n div 262144), b64_digit (n div 4096), b64_digit (n div 64), CHR ''=''])"
| "b64_encode (a # b # c # cs) = (let n = byte a * 65536 + byte b * 256 + byte c in
     [b64_digit (n div 262144), b64_digit (n div 4096), b64_digit (n div 64), b64_digit n] @ b64_encode cs)"

definition is_digit :: "char \<Rightarrow> bool" where
  "is_digit c = (48 \<le> byte c \<and> byte c \<le> 57)"

definition digits_value :: "string \<Rightarrow> int" where
  "digits_value s = fold (\<lambda>c n. 10 * n + int (byte c - 48)) s 0"

definition int64_range :: "int \<Rightarrow> bool" where
  "int64_range n = (- (2 ^ 63) \<le> n \<and> n < 2 ^ 63)"

text \<open>strconv.ParseInt(s, 10, 64): an optional sign, at least one digit, in range.\<close>

definition parse_int :: "string \<Rightarrow> int option" where
  "parse_int s =
     (let neg = (s \<noteq> [] \<and> hd s = CHR ''-''); signed = (s \<noteq> [] \<and> (hd s = CHR ''-'' \<or> hd s = CHR ''+''));
          ds = (if signed then tl s else s); v = (if neg then - digits_value ds else digits_value ds)
      in if ds \<noteq> [] \<and> list_all is_digit ds \<and> int64_range v then Some v else None)"

function show_nat :: "nat \<Rightarrow> string" where
  "show_nat n = (if n < 10 then [chr (48 + n)] else show_nat (n div 10) @ [chr (48 + n mod 10)])"
  by pat_completeness auto
termination
  by (relation "measure id") auto

declare show_nat.simps [simp del]

text \<open>strconv.FormatInt(n, 10).\<close>

definition show_int :: "int \<Rightarrow> string" where
  "show_int n = (if n < 0 then CHR ''-'' # show_nat (nat (- n)) else show_nat (nat n))"

lemma byte_digit: "n < 10 \<Longrightarrow> byte (chr (48 + n)) = 48 + n"
  by (simp add: byte_def chr_def)

lemma is_digit_chr: "n < 10 \<Longrightarrow> is_digit (chr (48 + n))"
  by (simp add: is_digit_def byte_digit)

lemma show_nat_digits: "list_all is_digit (show_nat n)"
proof (induction n rule: show_nat.induct)
  case (1 n)
  then show ?case
    by (subst show_nat.simps) (simp add: is_digit_chr)
qed

lemma show_nat_nonempty [simp]: "show_nat n \<noteq> []"
  by (subst show_nat.simps) simp

lemma digits_value_snoc: "digits_value (s @ [c]) = 10 * digits_value s + int (byte c - 48)"
  by (simp add: digits_value_def)

lemma digits_value_show_nat: "digits_value (show_nat n) = int n"
proof (induction n rule: show_nat.induct)
  case (1 n)
  show ?case
  proof (cases "n < 10")
    case True
    then show ?thesis by (subst show_nat.simps) (simp add: digits_value_def byte_digit)
  next
    case False
    with 1 have "digits_value (show_nat (n div 10)) = int (n div 10)" by simp
    moreover have "10 * int (n div 10) + int (n mod 10) = int n" by presburger
    ultimately show ?thesis
      using False by (subst show_nat.simps) (simp add: digits_value_snoc byte_digit)
  qed
qed

lemma hd_show_nat: "is_digit (hd (show_nat n))"
  using show_nat_digits [of n] by (cases "show_nat n") auto

lemma digit_not_sign: "is_digit c \<Longrightarrow> c \<noteq> CHR ''-'' \<and> c \<noteq> CHR ''+''"
  by (auto simp: is_digit_def byte_def)

text \<open>Printing an integer of 64 bits and parsing it again gives it back.\<close>

lemma parse_int_show_int:
  assumes "int64_range n"
  shows "parse_int (show_int n) = Some n"
proof (cases "n < 0")
  case True
  then show ?thesis
    using assms by (simp add: parse_int_def show_int_def show_nat_digits digits_value_show_nat Let_def)
next
  case False
  then have "hd (show_nat (nat n)) \<noteq> CHR ''-''" "hd (show_nat (nat n)) \<noteq> CHR ''+''"
    using digit_not_sign [OF hd_show_nat] by blast+
  with False assms show ?thesis
    by (simp add: parse_int_def show_int_def show_nat_digits digits_value_show_nat Let_def)
qed

end
