(* ===== verification/Smtp_Stream.thy ===== *)
theory Smtp_Stream
  imports Go_Strings
begin

text \<open>
  The payload side of the SMTP client (internal/smtpclient/stream.go): the check that a stored message is made of
  CRLF lines and the transfer of its bytes inside DATA with dot stuffing. Both loops read the payload in
  pieces; the model takes the sequence of reads as the source delivers it.
\<close>

subsection \<open>Reads\<close>

text \<open>
  One turn of a reading loop: the error ctx.Err() gives before the read, the bytes r.Read returned,
  and the error it returned with them. A reader may return bytes together with io.EOF. A sequence of turns that
  ends before io.EOF or an error stands for a source that is not read any further.
\<close>

datatype read_end = More | Eof | ReadErr err

record read =
  rd_ctx :: "err option"
  rd_bytes :: string
  rd_end :: read_end

text \<open>The three flags of the loop of ValidateCanonical: previousCR, lastLF, any.\<close>

record canon =
  previousCR :: bool
  lastLF :: bool
  any :: bool

fun canon_bytes :: "string \<Rightarrow> canon \<Rightarrow> err + canon" where
  "canon_bytes [] c = Inr c"
| "canon_bytes (b # bs) c =
     (if (previousCR c \<and> b \<noteq> LF) \<or> (b = LF \<and> \<not> previousCR c) then Inl ErrNonCanonical
      else canon_bytes bs \<lparr>previousCR = (b = CR), lastLF = (b = LF), any = True\<rparr>)"

fun canon_loop :: "read list \<Rightarrow> canon \<Rightarrow> err + unit" where
  "canon_loop [] c = Inl ErrNoProgress"
| "canon_loop (r # rs) c =
     (case rd_ctx r of Some e \<Rightarrow> Inl e | None \<Rightarrow>
      bind_res (canon_bytes (rd_bytes r) c) (\<lambda>c.
        case rd_end r of
          Eof \<Rightarrow> if \<not> any c \<or> \<not> lastLF c then Inl ErrNonCanonical else Inr ()
        | ReadErr e \<Rightarrow> Inl e
        | More \<Rightarrow> if rd_bytes r = [] then Inl ErrNoProgress else canon_loop rs c))"

definition ValidateCanonical :: "read list \<Rightarrow> err + unit" where
  "ValidateCanonical rs = canon_loop rs \<lparr>previousCR = False, lastLF = False, any = False\<rparr>"

text \<open>
  streamDATA: the bytes of one read with a dot doubled at every line start. The pieces buf[start:i] and the
  extra dot are written in order to one buffered writer, so the written bytes are what is recorded here.
\<close>

fun stuff_bytes :: "string \<Rightarrow> bool \<Rightarrow> string \<times> bool" where
  "stuff_bytes [] lineStart = ([], lineStart)"
| "stuff_bytes (b # bs) lineStart =
     (let (out, ls) = stuff_bytes bs (b = LF) in ((if lineStart \<and> b = CHR ''.'' then [b, b] else [b]) @ out, ls))"

text \<open>
  The state of the transfer is what reached the wire and the count of payload bytes. The function \<open>werr\<close> gives the
  error of the writer, if any, in the turn it meets (w.Write, w.WriteByte, and the flush at the end), with
  the number of bytes of that turn that were sent before it.
\<close>

record transfer =
  tr_wire :: string
  tr_total :: int
  tr_err :: "err option"

fun stream_loop :: "(nat \<Rightarrow> (nat \<times> err) option) \<Rightarrow> nat \<Rightarrow> read list \<Rightarrow> bool \<Rightarrow> transfer \<Rightarrow> transfer" where
  "stream_loop werr n [] ls t = t\<lparr>tr_err := Some ErrNoProgress\<rparr>"
| "stream_loop werr n (r # rs) ls t =
     (case rd_ctx r of Some e \<Rightarrow> t\<lparr>tr_err := Some e\<rparr> | None \<Rightarrow>
      let (out, ls) = stuff_bytes (rd_bytes r) ls in
      case werr n of Some (k, e) \<Rightarrow> t\<lparr>tr_wire := tr_wire t @ take k out, tr_err := Some e\<rparr> | None \<Rightarrow>
      let t = t\<lparr>tr_wire := tr_wire t @ out, tr_total := tr_total t + int (length (rd_bytes r))\<rparr> in
      case rd_end r of
        Eof \<Rightarrow> (case werr (Suc n) of Some (k, e) \<Rightarrow> t\<lparr>tr_wire := tr_wire t @ take k (''.'' @ CRLF), tr_err := Some e\<rparr>
               | None \<Rightarrow> t\<lparr>tr_wire := tr_wire t @ ''.'' @ CRLF\<rparr>)
      | ReadErr e \<Rightarrow> t\<lparr>tr_err := Some e\<rparr>
      | More \<Rightarrow> if rd_bytes r = [] then t\<lparr>tr_err := Some ErrNoProgress\<rparr> else stream_loop werr (Suc n) rs ls t)"

definition streamDATA :: "(nat \<Rightarrow> (nat \<times> err) option) \<Rightarrow> read list \<Rightarrow> transfer" where
  "streamDATA werr rs = stream_loop werr 0 rs True \<lparr>tr_wire = [], tr_total = 0, tr_err = None\<rparr>"

subsection \<open>Specification\<close>

text \<open>The text is a sequence of lines, each ended by CRLF, without any other CR or LF.\<close>

fun crlf_lines :: "string \<Rightarrow> bool" where
  "crlf_lines [] = True"
| "crlf_lines [b] = False"
| "crlf_lines (a # b # bs) =
     (if a = CR then b = LF \<and> crlf_lines bs else a \<noteq> LF \<and> crlf_lines (b # bs))"

definition canonical :: "string \<Rightarrow> bool" where
  "canonical s \<longleftrightarrow> s \<noteq> [] \<and> crlf_lines s"

text \<open>
  What an SMTP server does with the bytes after 354 (RFC 5321, section 4.5.2): it takes lines up to CRLF,
  removes one leading dot, and stops at the line that is a single dot. The result is the message and the bytes that
  follow, which the server reads as further commands.
\<close>

fun take_line :: "string \<Rightarrow> (string \<times> string) option" where
  "take_line (a # b # s) =
     (if a = CR \<and> b = LF then Some ([a, b], s)
      else map_option (\<lambda>(l, r). (a # l, r)) (take_line (b # s)))"
| "take_line _ = None"

lemma take_line_length: "take_line s = Some (l, r) \<Longrightarrow> length r < length s"
  by (induction s arbitrary: l r rule: take_line.induct) (auto split: if_splits)

function data_decode :: "string \<Rightarrow> (string \<times> string) option" where
  "data_decode s =
     (case take_line s of
        None \<Rightarrow> None
      | Some (l, r) \<Rightarrow>
          if l = ''.'' @ CRLF then Some ([], r)
          else map_option (\<lambda>(m, rest). ((if l \<noteq> [] \<and> hd l = CHR ''.'' then tl l else l) @ m, rest)) (data_decode r))"
  by pat_completeness auto
termination
  by (relation "measure length") (auto dest: take_line_length)

declare data_decode.simps [simp del]

text \<open>A payload read without a fault: every turn but the last gives some bytes, the last one ends the file.\<close>

fun clean_reads :: "read list \<Rightarrow> bool" where
  "clean_reads [] = False"
| "clean_reads [r] = (rd_ctx r = None \<and> rd_end r = Eof)"
| "clean_reads (r # rs) = (rd_ctx r = None \<and> rd_end r = More \<and> rd_bytes r \<noteq> [] \<and> clean_reads rs)"

definition payload_of :: "read list \<Rightarrow> string" where
  "payload_of rs = concat (map rd_bytes rs)"

subsection \<open>The checks do not depend on the pieces\<close>

lemma canon_bytes_append: "canon_bytes (s @ t) c = bind_res (canon_bytes s c) (canon_bytes t)"
  by (induction s arbitrary: c) simp_all

lemma canon_loop_clean:
  "clean_reads rs \<Longrightarrow> canon_loop rs c =
     bind_res (canon_bytes (payload_of rs) c) (\<lambda>c. if \<not> any c \<or> \<not> lastLF c then Inl ErrNonCanonical else Inr ())"
proof (induction rs arbitrary: c rule: clean_reads.induct)
  case (3 r r' rs)
  then show ?case
    by (cases "canon_bytes (rd_bytes r) c") (simp_all add: payload_of_def canon_bytes_append)
qed (simp_all add: payload_of_def)

lemma canon_bytes_crlf:
  "(\<exists>c'. canon_bytes s \<lparr>previousCR = False, lastLF = l, any = a\<rparr> = Inr c' \<and> any c' \<and> lastLF c')
     \<longleftrightarrow> crlf_lines s \<and> (s \<noteq> [] \<or> l \<and> a)"
proof (induction s arbitrary: l a rule: crlf_lines.induct)
  case (3 x y s)
  then show ?case by auto
qed auto

lemma canon_bytes_error: "canon_bytes s c = Inl e \<Longrightarrow> e = ErrNonCanonical"
  by (induction s arbitrary: c) (auto split: if_splits)

lemma canon_bytes_result:
  "bind_res (canon_bytes s \<lparr>previousCR = False, lastLF = False, any = False\<rparr>)
     (\<lambda>c. if \<not> any c \<or> \<not> lastLF c then Inl ErrNonCanonical else Inr ())
   = (if canonical s then Inr () else Inl ErrNonCanonical)"
  using canon_bytes_crlf [of s False False] canon_bytes_error [of s]
  by (cases "canon_bytes s \<lparr>previousCR = False, lastLF = False, any = False\<rparr>") (auto simp: canonical_def)

subsection \<open>Dot stuffing\<close>

definition stuffed :: "string \<Rightarrow> string" where
  "stuffed s = fst (stuff_bytes s True)"

lemma stuff_bytes_append:
  "stuff_bytes (s @ t) ls = (fst (stuff_bytes s ls) @ fst (stuff_bytes t (snd (stuff_bytes s ls))),
     snd (stuff_bytes t (snd (stuff_bytes s ls))))"
  by (induction s arbitrary: ls) (simp_all add: split_beta)

lemma stream_loop_clean:
  "clean_reads rs \<Longrightarrow> stream_loop (\<lambda>_. None) n rs ls t =
     t\<lparr>tr_wire := tr_wire t @ fst (stuff_bytes (payload_of rs) ls) @ ''.'' @ CRLF,
       tr_total := tr_total t + int (length (payload_of rs))\<rparr>"
proof (induction rs arbitrary: n ls t rule: clean_reads.induct)
  case (3 r r' rs)
  then show ?case
    by (simp add: payload_of_def split_beta stuff_bytes_append)
qed (simp_all add: payload_of_def split_beta)

text \<open>A line of the payload, stuffed, is read back by the server as that line.\<close>

fun line_body :: "string \<Rightarrow> bool" where
  "line_body s = (CR \<notin> set s \<and> LF \<notin> set s)"

lemma take_line_body: "line_body s \<Longrightarrow> take_line (s @ CRLF @ t) = Some (s @ CRLF, t)"
proof (induction s)
  case (Cons a s)
  then have "take_line (s @ CRLF @ t) = Some (s @ CRLF, t)" and "a \<noteq> CR" by auto
  then show ?case
    by (cases "s @ CRLF @ t") (auto simp: CRLF_def)
qed (simp add: CRLF_def)

lemma stuff_bytes_body: "LF \<notin> set s \<Longrightarrow> stuff_bytes s False = (s, False)"
  if "True" for s using that
  by (induction s) (auto simp: split_beta)

lemma stuff_bytes_line:
  assumes "line_body s"
  shows "stuff_bytes (s @ CRLF) True
    = ((if s \<noteq> [] \<and> hd s = CHR ''.'' then CHR ''.'' # s else s) @ CRLF, True)"
proof (cases s)
  case Nil
  then show ?thesis by (simp add: CRLF_def)
next
  case (Cons b bs)
  with assms have "LF \<notin> set bs" and "b \<noteq> LF" by auto
  then show ?thesis
    using Cons stuff_bytes_body [of bs]
    by (auto simp: stuff_bytes_append CRLF_def)
qed

lemma crlf_lines_split:
  "crlf_lines s \<Longrightarrow> s \<noteq> [] \<Longrightarrow> \<exists>l t. s = l @ CRLF @ t \<and> line_body l \<and> crlf_lines t"
proof (induction s rule: crlf_lines.induct)
  case (3 a b bs)
  show ?case
  proof (cases "a = CR")
    case True
    with 3 show ?thesis by (intro exI [of _ "[]"] exI [of _ bs]) (auto simp: CRLF_def)
  next
    case False
    with 3 obtain l t where "b # bs = l @ CRLF @ t" and "line_body l" and "crlf_lines t" by auto
    moreover from False "3.prems" have "line_body (a # l)" if "line_body l" for l using that by auto
    ultimately have "a # b # bs = (a # l) @ CRLF @ t \<and> line_body (a # l) \<and> crlf_lines t" by simp
    then show ?thesis by blast
  qed
qed auto

lemma data_decode_end: "data_decode (''.'' @ CRLF @ t) = Some ([], t)"
  using take_line_body [of "''.''" t]
  by (subst data_decode.simps) (simp add: CR_def LF_def CRLF_def)

lemma data_decode_line:
  assumes "line_body s"
  shows "data_decode (fst (stuff_bytes (s @ CRLF) True) @ t)
    = map_option (\<lambda>(m, rest). ((s @ CRLF) @ m, rest)) (data_decode t)"
proof -
  define s' where "s' = (if s \<noteq> [] \<and> hd s = CHR ''.'' then CHR ''.'' # s else s)"
  have "take_line (s' @ CRLF @ t) = Some (s' @ CRLF, t)"
    using assms by (intro take_line_body) (auto simp: s'_def)
  moreover have "s' @ CRLF \<noteq> ''.'' @ CRLF" by (auto simp: s'_def)
  ultimately have "data_decode (s' @ CRLF @ t) = map_option (\<lambda>(m, rest).
      ((if hd (s' @ CRLF) = CHR ''.'' then tl (s' @ CRLF) else s' @ CRLF) @ m, rest)) (data_decode t)"
    by (subst data_decode.simps) (simp add: CRLF_def)
  moreover have "(if hd (s' @ CRLF) = CHR ''.'' then tl (s' @ CRLF) else s' @ CRLF) = s @ CRLF"
    by (cases s) (auto simp: s'_def CRLF_def)
  ultimately show ?thesis
    using stuff_bytes_line [OF assms] by (simp add: s'_def)
qed

lemma data_decode_stuffed: "crlf_lines s \<Longrightarrow> data_decode (stuffed s @ ''.'' @ CRLF @ t) = Some (s, t)"
proof (induction "length s" arbitrary: s rule: less_induct)
  case less
  show ?case
  proof (cases "s = []")
    case True
    then show ?thesis using data_decode_end by (simp add: stuffed_def)
  next
    case False
    then obtain l u where s: "s = (l @ CRLF) @ u" and l: "line_body l" and u: "crlf_lines u"
      using crlf_lines_split [OF less.prems] by auto
    then have IH: "data_decode (stuffed u @ ''.'' @ CRLF @ t) = Some (u, t)"
      by (intro less.hyps) (auto simp: CRLF_def)
    have "stuffed s = fst (stuff_bytes (l @ CRLF) True) @ stuffed u"
      using stuff_bytes_line [OF l] unfolding s stuffed_def by (subst stuff_bytes_append) simp
    with data_decode_line [OF l] IH s show ?thesis by simp
  qed
qed

lemma streamDATA_clean:
  "clean_reads rs \<Longrightarrow> streamDATA (\<lambda>_. None) rs
     = \<lparr>tr_wire = stuffed (payload_of rs) @ ''.'' @ CRLF, tr_total = int (length (payload_of rs)), tr_err = None\<rparr>"
  by (simp add: streamDATA_def stream_loop_clean stuffed_def)

text \<open>A transfer without an error has read a fault-free payload to its end and met no error of the writer.\<close>

lemma stream_loop_ok:
  "tr_err (stream_loop werr n rs ls t) = None \<Longrightarrow> tr_err t = None \<Longrightarrow>
     \<exists>k. clean_reads (take k rs) \<and> stream_loop werr n rs ls t = stream_loop (\<lambda>_. None) n (take k rs) ls t"
proof (induction rs arbitrary: n ls t)
  case (Cons r rs)
  obtain out ls' where st: "stuff_bytes (rd_bytes r) ls = (out, ls')" by fastforce
  define t' where "t' = t\<lparr>tr_wire := tr_wire t @ out, tr_total := tr_total t + int (length (rd_bytes r))\<rparr>"
  from Cons.prems st have c: "rd_ctx r = None" and w: "werr n = None" by (auto split: option.splits)
  show ?case
  proof (cases "rd_end r")
    case More
    with Cons.prems st c w have ne: "rd_bytes r \<noteq> []" by (auto split: if_splits)
    with More Cons.prems st c w have "tr_err (stream_loop werr (Suc n) rs ls' t') = None" by (simp add: t'_def)
    then obtain k where k: "clean_reads (take k rs)"
      "stream_loop werr (Suc n) rs ls' t' = stream_loop (\<lambda>_. None) (Suc n) (take k rs) ls' t'"
      using Cons.IH [of "Suc n" ls' t'] Cons.prems(2) by (auto simp: t'_def)
    then have "clean_reads (r # take k rs)" using More ne c by (cases "take k rs") auto
    with k More ne st c w show ?thesis by (intro exI [of _ "Suc k"]) (simp add: t'_def)
  next
    case Eof
    with Cons.prems st c w have "werr (Suc n) = None" by (auto simp: Let_def split: option.splits)
    with Eof st c w show ?thesis by (intro exI [of _ 1]) simp
  next
    case (ReadErr e)
    with Cons.prems st c w show ?thesis by (simp add: Let_def)
  qed
qed simp

subsection \<open>Properties\<close>

text \<open>
  C5: Whatever the pieces in which the payload is read, ValidateCanonical accepts a payload read without a fault exactly when it
  is not empty and is a sequence of lines ended by CRLF with no other CR or LF; it refuses every other one with
  ErrNonCanonical.
\<close>

theorem validate_canonical_decides:
  assumes "clean_reads rs"
  shows "ValidateCanonical rs = (if canonical (payload_of rs) then Inr () else Inl ErrNonCanonical)"
  using assms canon_bytes_result by (simp add: ValidateCanonical_def canon_loop_clean)

theorem validate_canonical_decides_witness:
  "ValidateCanonical [\<lparr>rd_ctx = None, rd_bytes = ''A: b'' @ [CR], rd_end = More\<rparr>,
     \<lparr>rd_ctx = None, rd_bytes = LF # CRLF, rd_end = Eof\<rparr>] = Inr ()"
  using validate_canonical_decides [of "[\<lparr>rd_ctx = None, rd_bytes = ''A: b'' @ [CR], rd_end = More\<rparr>,
     \<lparr>rd_ctx = None, rd_bytes = LF # CRLF, rd_end = Eof\<rparr>]"]
  by (simp add: payload_of_def canonical_def CRLF_def CR_def LF_def)

text \<open>
  C6: The payload is transparent and cannot smuggle commands. When streamDATA reports no error, the payload was read to its end, and
  if that payload passes ValidateCanonical, then a server that reads the transmitted bytes by the rules of RFC 5321
  recovers exactly the payload, and what follows the transmission is exactly what follows it on the connection,
  however the payload was cut into reads. The reported count is the payload's length.
\<close>

theorem stream_data_transparent:
  assumes "tr_err (streamDATA werr rs) = None"
  shows "\<exists>k. clean_reads (take k rs)
    \<and> tr_total (streamDATA werr rs) = int (length (payload_of (take k rs)))
    \<and> (ValidateCanonical (take k rs) = Inr () \<longrightarrow>
         data_decode (tr_wire (streamDATA werr rs) @ rest) = Some (payload_of (take k rs), rest))"
proof -
  obtain k where k: "clean_reads (take k rs)" "streamDATA werr rs = streamDATA (\<lambda>_. None) (take k rs)"
    using stream_loop_ok [OF assms [unfolded streamDATA_def]] by (auto simp: streamDATA_def)
  note v = canon_loop_clean [OF k(1), of "\<lparr>previousCR = False, lastLF = False, any = False\<rparr>"]
  have "crlf_lines (payload_of (take k rs))" if "ValidateCanonical (take k rs) = Inr ()"
    using that canon_bytes_result [of "payload_of (take k rs)"] v
    by (simp add: ValidateCanonical_def canonical_def split: if_splits)
  with k show ?thesis by (intro exI [of _ k]) (simp add: streamDATA_clean data_decode_stuffed [simplified])
qed

theorem stream_data_transparent_witness:
  "data_decode (tr_wire (streamDATA (\<lambda>_. None)
      [\<lparr>rd_ctx = None, rd_bytes = ''.'' @ CRLF @ ''.'', rd_end = More\<rparr>, \<lparr>rd_ctx = None, rd_bytes = CRLF, rd_end = Eof\<rparr>])
      @ ''QUIT'') = Some (''.'' @ CRLF @ ''.'' @ CRLF, ''QUIT'')"
proof -
  let ?rs = "[\<lparr>rd_ctx = None, rd_bytes = ''.'' @ CRLF @ ''.'', rd_end = More\<rparr>, \<lparr>rd_ctx = None, rd_bytes = CRLF, rd_end = Eof\<rparr>]"
  have "tr_err (streamDATA (\<lambda>_. None) ?rs) = None" by (simp add: streamDATA_clean)
  from stream_data_transparent [OF this, of "''QUIT''"] obtain k where k: "clean_reads (take k ?rs)"
    "ValidateCanonical (take k ?rs) = Inr () \<longrightarrow>
       data_decode (tr_wire (streamDATA (\<lambda>_. None) ?rs) @ ''QUIT'') = Some (payload_of (take k ?rs), ''QUIT'')"
    by blast
  have "take k ?rs = ?rs"
    using k(1) by (cases k; cases "k - 1") auto
  with k(2) show ?thesis
    by (simp add: payload_of_def ValidateCanonical_def CRLF_def CR_def LF_def)
qed

end
