(* ===== verification/Sha256.thy ===== *)
theory Sha256
  imports "HOL-Library.Word" Main
begin

text \<open>
  The part of Go's standard library package crypto/sha256 the gateway uses: the SHA-256 function
  of FIPS 180-4 on byte strings, and the lower-case hexadecimal printing of encoding/hex.
  Bytes are HOL characters, so a Go string or byte slice is a \<^typ>\<open>string\<close>.
\<close>

unbundle bit_operations_syntax

type_synonym u32 = "32 word"

subsection \<open>The constants\<close>

text \<open>
  The standard takes its constants from the fractional parts of roots of the first primes: 32 bits of
  the cube roots of the first 64 for the rounds, and of the square roots of the first eight for the initial state.
  They are computed here from that rule. \<open>root_bits\<close> finds the largest integer whose e-th power is at most n
  bit by bit; 36 bits hold the roots of the primes scaled by 2 to the 32.
\<close>

fun root_bits :: "nat \<Rightarrow> nat \<Rightarrow> nat \<Rightarrow> nat \<Rightarrow> nat" where
  "root_bits 0 e n r = r"
| "root_bits (Suc k) e n r = root_bits k e n (if (r + 2 ^ k) ^ e \<le> n then r + 2 ^ k else r)"

definition root_fraction :: "nat \<Rightarrow> nat \<Rightarrow> u32" where
  "root_fraction e p = of_nat (root_bits 37 e (p * 2 ^ (32 * e)) 0)"

definition first_primes :: "nat list" where
  "first_primes = filter (\<lambda>p. \<forall>d \<in> set [2..<p]. p mod d \<noteq> 0) [2..<312]"

definition sha_K :: "u32 list" where
  "sha_K = map (root_fraction 3) first_primes"

type_synonym sha_state = "u32 \<times> u32 \<times> u32 \<times> u32 \<times> u32 \<times> u32 \<times> u32 \<times> u32"

definition sha_init :: sha_state where
  "sha_init = (root_fraction 2 2, root_fraction 2 3, root_fraction 2 5, root_fraction 2 7,
     root_fraction 2 11, root_fraction 2 13, root_fraction 2 17, root_fraction 2 19)"

subsection \<open>The compression function\<close>

definition sha_s0 :: "u32 \<Rightarrow> u32" where
  "sha_s0 x = word_rotr 7 x XOR word_rotr 18 x XOR drop_bit 3 x"

definition sha_s1 :: "u32 \<Rightarrow> u32" where
  "sha_s1 x = word_rotr 17 x XOR word_rotr 19 x XOR drop_bit 10 x"

definition sha_S0 :: "u32 \<Rightarrow> u32" where
  "sha_S0 x = word_rotr 2 x XOR word_rotr 13 x XOR word_rotr 22 x"

definition sha_S1 :: "u32 \<Rightarrow> u32" where
  "sha_S1 x = word_rotr 6 x XOR word_rotr 11 x XOR word_rotr 25 x"

fun sha_schedule :: "nat \<Rightarrow> u32 list \<Rightarrow> u32 list" where
  "sha_schedule 0 ws = ws"
| "sha_schedule (Suc k) ws =
     (let n = length ws in
      sha_schedule k (ws @ [sha_s1 (ws ! (n - 2)) + ws ! (n - 7) + sha_s0 (ws ! (n - 15)) + ws ! (n - 16)]))"

fun sha_round :: "u32 \<times> u32 \<Rightarrow> sha_state \<Rightarrow> sha_state" where
  "sha_round (k, w) (a, b, c, d, e, f, g, h) =
     (let t1 = h + sha_S1 e + ((e AND f) XOR (NOT e AND g)) + k + w;
          t2 = sha_S0 a + ((a AND b) XOR (a AND c) XOR (b AND c))
      in (t1 + t2, a, b, c, d + t1, e, f, g))"

fun sha_add :: "sha_state \<Rightarrow> sha_state \<Rightarrow> sha_state" where
  "sha_add (a, b, c, d, e, f, g, h) (a', b', c', d', e', f', g', h') =
     (a + a', b + b', c + c', d + d', e + e', f + f', g + g', h + h')"

definition sha_block :: "u32 list \<Rightarrow> sha_state \<Rightarrow> sha_state" where
  "sha_block ws st = sha_add st (fold sha_round (zip sha_K (sha_schedule 48 ws)) st)"

subsection \<open>Padding and the digest\<close>

fun be_words :: "char list \<Rightarrow> u32 list" where
  "be_words (a # b # c # d # cs) =
     (push_bit 24 (of_char a) OR push_bit 16 (of_char b) OR push_bit 8 (of_char c) OR of_char d) # be_words cs"
| "be_words _ = []"

definition be_bytes :: "u32 \<Rightarrow> char list" where
  "be_bytes w = [char_of (unat (drop_bit 24 w)), char_of (unat (drop_bit 16 w)),
                 char_of (unat (drop_bit 8 w)), char_of (unat w)]"

definition sha_pad :: "string \<Rightarrow> string" where
  "sha_pad m =
     (let n = length m; z = (119 - n mod 64) mod 64; bits = 8 * n
      in m @ [char_of (128 :: nat)] @ replicate z (char_of (0 :: nat))
         @ map (\<lambda>i. char_of ((bits div 2 ^ (8 * (7 - i))) mod 256)) [0..<8])"

function sha_blocks :: "u32 list \<Rightarrow> sha_state \<Rightarrow> sha_state" where
  "sha_blocks ws st = (if length ws < 16 then st else sha_blocks (drop 16 ws) (sha_block (take 16 ws) st))"
  by pat_completeness auto
termination
  by (relation "measure (\<lambda>(ws, st). length ws)") auto

fun sha_bytes :: "sha_state \<Rightarrow> string" where
  "sha_bytes (a, b, c, d, e, f, g, h) = concat (map be_bytes [a, b, c, d, e, f, g, h])"

definition sha256 :: "string \<Rightarrow> string" where
  "sha256 m = sha_bytes (sha_blocks (be_words (sha_pad m)) sha_init)"

definition hex_digit :: "nat \<Rightarrow> char" where
  "hex_digit n = ''0123456789abcdef'' ! n"

definition hex_encode :: "string \<Rightarrow> string" where
  "hex_encode s = concat (map (\<lambda>c. [hex_digit (of_char c div 16), hex_digit (of_char c mod 16)]) s)"

subsection \<open>Shape of the results\<close>

lemma length_be_bytes [simp]: "length (be_bytes w) = 4"
  by (simp add: be_bytes_def)

lemma length_sha_bytes [simp]: "length (sha_bytes st) = 32"
  by (cases st rule: sha_bytes.cases) simp

lemma length_sha256 [simp]: "length (sha256 m) = 32"
  by (simp add: sha256_def)

lemma length_hex_encode [simp]: "length (hex_encode s) = 2 * length s"
  by (induction s) (simp_all add: hex_encode_def)

text \<open>A SHA-256 digest printed in hexadecimal always has 64 digits.\<close>

lemma length_hex_sha256: "length (hex_encode (sha256 m)) = 64"
  by simp

lemma hex_encode_digits: "set (hex_encode s) \<subseteq> set ''0123456789abcdef''"
proof -
  have d: "hex_digit n \<in> set ''0123456789abcdef''" if "n < 16" for n
    unfolding hex_digit_def by (rule nth_mem) (use that in simp)
  have c: "hex_digit (of_char c div 16) \<in> set ''0123456789abcdef''" "hex_digit (of_char c mod 16) \<in> set ''0123456789abcdef''" for c :: char
    by (rule d, use nat_of_char_less_256 [of c] in linarith)+
  show ?thesis
  proof
    fix x assume "x \<in> set (hex_encode s)"
    then obtain c where "x = hex_digit (of_char c div 16) \<or> x = hex_digit (of_char c mod 16)" by (auto simp: hex_encode_def)
    with c show "x \<in> set ''0123456789abcdef''" by blast
  qed
qed

end
