(* ===== verification/Delivery.thy ===== *)
theory Delivery
  imports Prelude Sha256 "HOL-Library.Sublist"
begin

text \<open>
  The delivery policy of internal/delivery: a pure function from the SMTP evidence of one
  recipient and the retry budget to a decision (decision.go), and the attribution of an attempt's
  outcome to the provider's health (health.go).
\<close>

subsection \<open>Statuses\<close>

text \<open>
  The status strings of the schema (CHECK constraints of messages and recipients), of the result
  column of an attempt, and the transient ones of the SMTP client (smtpclient/result.go). Any other
  string is \<open>OtherStatus\<close>; the zero value of Go is \<open>OtherStatus []\<close>.
\<close>

datatype status =
    QUEUED | SENDING | SMTP_ACCEPTED | PARTIAL_ACCEPTED | TEMP_FAILED | PERM_FAILED | DELIVERY_UNKNOWN
  | BOUNCED | DELIVERED | SUPPRESSED | CANCELLED | EXPIRED | SANDBOX_STORED | IN_PROGRESS
  | RCPT_ACCEPTED | READY | OtherStatus string

subsection \<open>Data of decision.go\<close>

datatype action = Accept | Expire | Resume | Retry | Permanent | Unknown | Manual

definition MaxAttempts :: int where "MaxAttempts = 7"
definition Window :: duration where "Window = 24 * Hour"

record evidence =
  ev_Stage :: string
  ev_ErrorClass :: string
  ev_Status :: status
  ev_Code :: int
  ev_FinalCode :: int
  ev_FinalResponse :: bool
  ev_BodyStarted :: bool

record decision =
  d_Version :: int
  d_Action :: action
  d_Reason :: string
  d_Scope :: string
  d_RetryAfter :: duration
  d_MayHaveDelivered :: bool
  d_FailoverAllowed :: bool
  d_Terminal :: bool

record budget =
  b_Attempts :: int
  b_StartedAt :: time
  b_Now :: time
  b_Seed :: string

subsection \<open>The decision\<close>

definition safeTemporary :: "evidence \<Rightarrow> bool" where
  "safeTemporary e =
     (if ev_Code e \<ge> 400 \<and> ev_Code e < 500 then True
      else if ev_FinalResponse e \<and> ev_FinalCode e \<ge> 400 \<and> ev_FinalCode e < 500 then True
      else if \<exists>p \<in> set [''DNS_'', ''CONNECT_'', ''TLS_'', ''STARTTLS_'', ''SMTP_GREETING_'', ''EHLO_'',
                        ''AUTH_CONNECTION_'']. prefix p (ev_ErrorClass e) then True
      else ev_ErrorClass e = ''CONNECTION_RESET'' \<and> \<not> ev_BodyStarted e)"

definition rcRejected :: "evidence \<Rightarrow> bool" where
  "rcRejected e = (ev_Stage e = ''RCPT_REJECTED'' \<and> ev_Code e \<ge> 400 \<and> ev_Code e < 600)"

definition manual_default :: decision where
  "manual_default = \<lparr>d_Version = 2, d_Action = Manual, d_Reason = ''UNCLASSIFIED_EVIDENCE'',
     d_Scope = ''unknown'', d_RetryAfter = 0, d_MayHaveDelivered = False, d_FailoverAllowed = False,
     d_Terminal = False\<rparr>"

text \<open>
  The switch of Decide, in two parts: the cases from the rejected recipient on, and the two cases
  before them. \<open>Inr d\<close> is a case that falls out of the switch with the tentative retry \<open>d\<close>;
  \<open>Inl d\<close> is a case that returns \<open>d\<close> at once.
\<close>

definition decide_failure :: "evidence \<Rightarrow> decision \<Rightarrow> decision + decision" where
  "decide_failure e d = (
     if rcRejected e then
       (let d = d\<lparr>d_Scope := ''recipient'', d_Reason := ''RCPT_REJECTED''\<rparr> in
        if ev_Code e \<ge> 500 then Inl (d\<lparr>d_Action := Permanent, d_Terminal := True\<rparr>)
        else Inr (d\<lparr>d_Action := Retry\<rparr>))
     else if ev_ErrorClass e = ''AUTH_ERROR'' \<and> ev_Code e \<ge> 400 \<and> ev_Code e < 500 then
       Inr (d\<lparr>d_Action := Retry, d_Reason := ''AUTH_TEMPORARY_FAILURE'', d_Scope := ''provider''\<rparr>)
     else if ev_ErrorClass e = ''AUTH_ERROR'' \<or> ev_ErrorClass e = ''CREDENTIAL_DECRYPTION_ERROR'' then
       Inl (d\<lparr>d_Reason := ''CONFIG_ERROR'', d_Scope := ''configuration''\<rparr>)
     else if ev_ErrorClass e \<in> {''LOCAL_STORAGE_ERROR'', ''DATABASE_ERROR'', ''RECORDER_ERROR''} then
       Inl (d\<lparr>d_Reason := ev_ErrorClass e, d_Scope := ''local''\<rparr>)
     else if ev_ErrorClass e \<in> {''INVALID_EML'', ''INVALID_ENVELOPE''} then
       Inl (d\<lparr>d_Reason := ev_ErrorClass e, d_Scope := ''message''\<rparr>)
     else if ev_Status e = PERM_FAILED
             \<and> ev_Stage e \<in> {''SMTP_GREETING_ERROR'', ''EHLO_ERROR'', ''STARTTLS_ERROR''} then
       Inl (d\<lparr>d_Reason := ''PROVIDER_SETUP_REJECTED'', d_Scope := ''provider''\<rparr>)
     else if ev_Status e = PERM_FAILED
             \<and> ((ev_Code e \<ge> 500 \<and> ev_Code e < 600)
                 \<or> (ev_FinalResponse e \<and> ev_FinalCode e \<ge> 500 \<and> ev_FinalCode e < 600)) then
       Inl (d\<lparr>d_Action := Permanent, d_Reason := ''EXPLICIT_5XX'', d_Scope := ''message'', d_Terminal := True\<rparr>)
     else if ev_Status e = TEMP_FAILED \<and> safeTemporary e then
       Inr (d\<lparr>d_Action := Retry, d_Reason := ev_ErrorClass e, d_Scope := ''provider'',
              d_FailoverAllowed := \<not> ev_BodyStarted e \<and> \<not> ev_FinalResponse e
                \<and> ((ev_Code e = 0 \<and> ev_Stage e \<in> {''DNS_ERROR'', ''CONNECT_ERROR'', ''TLS_ERROR''})
                   \<or> (ev_Stage e = ''DATA_REJECTED'' \<and> ev_Code e \<ge> 400 \<and> ev_Code e < 500))\<rparr>)
     else Inl d)"

definition decide_switch :: "evidence \<Rightarrow> decision + decision" where
  "decide_switch e = (let d = manual_default in
     if ev_Status e = SMTP_ACCEPTED \<and> ev_FinalResponse e \<and> ev_FinalCode e \<ge> 200 \<and> ev_FinalCode e < 300 then
       Inl (d\<lparr>d_Action := Accept, d_Reason := ''FINAL_2XX'', d_Terminal := True, d_MayHaveDelivered := True,
              d_Scope := ''none''\<rparr>)
     else if (\<not> rcRejected e \<and> ev_FinalResponse e \<and> ev_FinalCode e \<ge> 200 \<and> ev_FinalCode e < 300
                \<and> ev_Status e \<noteq> SMTP_ACCEPTED)
             \<or> ev_Status e = DELIVERY_UNKNOWN
             \<or> (\<not> rcRejected e \<and> ev_BodyStarted e
                 \<and> \<not> (ev_FinalResponse e \<and> ev_FinalCode e \<ge> 400 \<and> ev_FinalCode e < 600)) then
       Inl (d\<lparr>d_Action := Unknown, d_Reason := ''REMOTE_ACCEPTANCE_UNCERTAIN'', d_MayHaveDelivered := True\<rparr>)
     else decide_failure e d)"

text \<open>The deterministic jitter: a factor in thousandths from the first two bytes of the seed's digest.\<close>

definition jitter_factor :: "string \<Rightarrow> 16 word" where
  "jitter_factor seed =
     (let hash = sha256 seed; x = of_nat (256 * of_char (hash ! 0) + of_char (hash ! 1)) :: 16 word
      in 800 + x mod 401)"

definition retry_base :: "int \<Rightarrow> duration" where
  "retry_base attempts =
     (let base = Minute * 2 ^ nat (2 * (attempts - 1)) in if base > 12 * Hour then 12 * Hour else base)"

definition Decide :: "evidence \<Rightarrow> budget \<Rightarrow> decision" where
  "Decide e b = (case decide_switch e of Inl d \<Rightarrow> d | Inr d \<Rightarrow>
     if b_Attempts b < 1 \<or> IsZero (b_StartedAt b) \<or> b_Now b < b_StartedAt b then
       d\<lparr>d_Action := Manual, d_FailoverAllowed := False, d_Reason := ''INVALID_RETRY_BUDGET''\<rparr>
     else if b_Attempts b \<ge> MaxAttempts \<or> \<not> b_Now b < b_StartedAt b + Window then
       d\<lparr>d_Action := Manual, d_FailoverAllowed := False, d_Reason := ''RETRY_BUDGET_EXHAUSTED''\<rparr>
     else
       (let after = (retry_base (b_Attempts b) * uint (jitter_factor (b_Seed b))) div 1000 in
        if \<not> b_Now b + after < b_StartedAt b + Window then
          d\<lparr>d_Action := Manual, d_FailoverAllowed := False, d_Reason := ''RETRY_WINDOW_EXHAUSTED'',
            d_RetryAfter := 0\<rparr>
        else d\<lparr>d_RetryAfter := after\<rparr>))"

subsection \<open>Provider health attribution\<close>

datatype outcome = SUCCESS | FAILURE | IGNORED

definition ProviderOutcome :: "evidence \<Rightarrow> outcome" where
  "ProviderOutcome e =
     (if ev_FinalResponse e \<and> ev_FinalCode e \<ge> 200 \<and> ev_FinalCode e < 300
         \<and> (ev_Status e = SMTP_ACCEPTED \<or> ev_Status e = PARTIAL_ACCEPTED) then SUCCESS
      else if ev_ErrorClass e \<in> {''LOCAL_STORAGE_ERROR'', ''DATABASE_ERROR'', ''RECORDER_ERROR'', ''INVALID_EML'',
                ''INVALID_ENVELOPE'', ''CREDENTIAL_DECRYPTION_ERROR''} then IGNORED
      else if ev_ErrorClass e = ''AUTH_ERROR'' then
        (if ev_Code e \<ge> 400 \<and> ev_Code e < 500 then FAILURE else IGNORED)
      else if \<exists>p \<in> set [''DNS_'', ''CONNECT_'', ''TLS_'', ''STARTTLS_'', ''SMTP_GREETING_'', ''EHLO_'',
                ''AUTH_CONNECTION_'', ''DATA_WRITE_'', ''FINAL_RESPONSE_UNKNOWN'', ''FINAL_RESPONSE_TIMEOUT''].
              prefix p (ev_ErrorClass e) then FAILURE
      else if ev_ErrorClass e = ''CONNECTION_RESET'' then FAILURE
      else if (ev_Stage e = ''DATA_REJECTED'' \<or> ev_Stage e = ''FINAL_RESPONSE_ERROR'')
              \<and> ev_Code e \<ge> 400 \<and> ev_Code e < 500 then FAILURE
      else IGNORED)"

subsection \<open>The decision as the database stores it\<close>

fun action_text :: "action \<Rightarrow> string" where
  "action_text Accept = ''ACCEPT''"
| "action_text Expire = ''EXPIRE''"
| "action_text Resume = ''RESUME_SAME_PROVIDER''"
| "action_text Retry = ''RETRY_SAME_PROVIDER''"
| "action_text Permanent = ''PERMANENT_FAILURE''"
| "action_text Unknown = ''DELIVERY_UNKNOWN''"
| "action_text Manual = ''MANUAL_INTERVENTION''"

text \<open>The encoding json.Marshal gives a Decision: one field for each tag, in the struct's order.\<close>

definition decision_json :: "decision \<Rightarrow> json" where
  "decision_json d = JObj
     [(''version'', JInt (d_Version d)), (''action'', JStr (action_text (d_Action d))),
      (''reason'', JStr (d_Reason d)), (''scope'', JStr (d_Scope d)), (''retry_after_ns'', JInt (d_RetryAfter d)),
      (''may_have_delivered'', JBool (d_MayHaveDelivered d)), (''failover_allowed'', JBool (d_FailoverAllowed d)),
      (''terminal'', JBool (d_Terminal d))]"

subsection \<open>Cases of the switch\<close>

text \<open>The remote side may have taken the message: the body was started and no explicit failure ended it.\<close>

definition remote_uncertain :: "evidence \<Rightarrow> bool" where
  "remote_uncertain e \<longleftrightarrow>
     ev_Status e = DELIVERY_UNKNOWN
     \<or> (\<not> rcRejected e \<and> ev_BodyStarted e
         \<and> \<not> (ev_FinalResponse e \<and> ev_FinalCode e \<ge> 400 \<and> ev_FinalCode e < 600))
     \<or> (\<not> rcRejected e \<and> ev_FinalResponse e \<and> ev_FinalCode e \<ge> 200 \<and> ev_FinalCode e < 300)"

definition final_accepted :: "evidence \<Rightarrow> bool" where
  "final_accepted e \<longleftrightarrow> ev_Status e = SMTP_ACCEPTED \<and> ev_FinalResponse e \<and> ev_FinalCode e \<ge> 200 \<and> ev_FinalCode e < 300"

lemma decide_switch_accepted:
  "final_accepted e \<Longrightarrow> decide_switch e = Inl (manual_default\<lparr>d_Action := Accept, d_Reason := ''FINAL_2XX'',
     d_Terminal := True, d_MayHaveDelivered := True, d_Scope := ''none''\<rparr>)"
  by (simp add: final_accepted_def decide_switch_def Let_def)

lemma decide_switch_uncertain:
  "remote_uncertain e \<Longrightarrow> \<not> final_accepted e \<Longrightarrow> decide_switch e = Inl (manual_default\<lparr>d_Action := Unknown,
     d_Reason := ''REMOTE_ACCEPTANCE_UNCERTAIN'', d_MayHaveDelivered := True\<rparr>)"
  by (auto simp: remote_uncertain_def final_accepted_def decide_switch_def Let_def)

lemma decide_switch_failure:
  "\<not> remote_uncertain e \<Longrightarrow> \<not> final_accepted e \<Longrightarrow> decide_switch e = decide_failure e manual_default"
  by (auto simp: remote_uncertain_def final_accepted_def decide_switch_def Let_def)

lemma decide_failure_retry:
  assumes "decide_failure e manual_default = Inr d"
  shows "d_Version d = 2 \<and> d_Action d = Retry \<and> d_RetryAfter d = 0 \<and> \<not> d_MayHaveDelivered d \<and> \<not> d_Terminal d"
  using assms(1) [symmetric] by (simp add: decide_failure_def manual_default_def Let_def split: if_split_asm)

lemma decide_failure_failover:
  assumes "decide_failure e manual_default = Inr d" and "d_FailoverAllowed d"
  shows "ev_Status e = TEMP_FAILED \<and> \<not> ev_BodyStarted e \<and> \<not> ev_FinalResponse e \<and> \<not> rcRejected e
    \<and> ev_ErrorClass e \<noteq> ''AUTH_ERROR'' \<and> (ev_Code e = 0 \<or> (400 \<le> ev_Code e \<and> ev_Code e < 500))"
  using assms(2) assms(1) [symmetric]
  by (simp add: decide_failure_def manual_default_def Let_def split: if_split_asm) blast

lemma decide_failure_failover_stage:
  assumes "decide_failure e manual_default = Inr d" and "d_FailoverAllowed d"
  shows "ev_Code e = 0 \<and> ev_Stage e \<in> {''DNS_ERROR'', ''CONNECT_ERROR'', ''TLS_ERROR''}
    \<or> ev_Stage e = ''DATA_REJECTED'' \<and> 400 \<le> ev_Code e \<and> ev_Code e < 500"
  using assms(2) assms(1) [symmetric]
  by (simp add: decide_failure_def manual_default_def Let_def split: if_split_asm)

lemma decide_failure_final:
  assumes "decide_failure e manual_default = Inl d"
  shows "d_Version d = 2 \<and> d_RetryAfter d = 0 \<and> \<not> d_FailoverAllowed d \<and> d_Action d \<in> {Permanent, Manual}
    \<and> (d_Terminal d \<longleftrightarrow> d_Action d = Permanent) \<and> \<not> d_MayHaveDelivered d"
  using assms(1) [symmetric] by (simp add: decide_failure_def manual_default_def Let_def split: if_split_asm)

lemma decide_switch_retry:
  assumes "decide_switch e = Inr d"
  shows "\<not> remote_uncertain e" and "\<not> final_accepted e" and "decide_failure e manual_default = Inr d"
proof -
  show na: "\<not> final_accepted e" using assms decide_switch_accepted [of e] by auto
  show nu: "\<not> remote_uncertain e" using assms na decide_switch_uncertain [of e] by auto
  show "decide_failure e manual_default = Inr d" using assms decide_switch_failure [OF nu na] by simp
qed

lemma decide_switch_final:
  assumes "decide_switch e = Inl d"
  shows "d_Version d = 2 \<and> d_RetryAfter d = 0 \<and> \<not> d_FailoverAllowed d
    \<and> d_Action d \<in> {Accept, Unknown, Permanent, Manual}
    \<and> (d_Terminal d \<longleftrightarrow> d_Action d \<in> {Accept, Permanent})
    \<and> (d_MayHaveDelivered d \<longleftrightarrow> d_Action d \<in> {Accept, Unknown})
    \<and> (d_Action d = Accept \<longleftrightarrow> final_accepted e)
    \<and> (d_Action d = Unknown \<longleftrightarrow> remote_uncertain e \<and> \<not> final_accepted e)"
proof -
  consider "final_accepted e" | "remote_uncertain e" "\<not> final_accepted e" | "\<not> remote_uncertain e" "\<not> final_accepted e"
    by blast
  then show ?thesis
  proof cases
    case 1
    with decide_switch_accepted [OF this] assms show ?thesis by (auto simp: manual_default_def)
  next
    case 2
    with decide_switch_uncertain [OF this] assms show ?thesis by (auto simp: manual_default_def)
  next
    case 3
    with decide_switch_failure [OF this] assms decide_failure_final [of e d] show ?thesis by auto
  qed
qed

subsection \<open>Jitter and backoff\<close>

lemma jitter_factor_bounds: "800 \<le> uint (jitter_factor seed)" "uint (jitter_factor seed) \<le> 1200"
proof -
  define x :: "16 word" where
    "x = of_nat (256 * of_char (sha256 seed ! 0) + of_char (sha256 seed ! 1))"
  have f: "jitter_factor seed = 800 + x mod 401"
    by (simp add: jitter_factor_def x_def Let_def)
  have "uint (x mod 401) = uint x mod 401" by (simp add: uint_mod)
  then have "0 \<le> uint (x mod 401)" and "uint (x mod 401) \<le> 400" by simp_all
  then have "uint (800 + x mod 401 :: 16 word) = 800 + uint (x mod 401)"
    by (simp add: uint_word_ariths)
  then show "800 \<le> uint (jitter_factor seed)" "uint (jitter_factor seed) \<le> 1200"
    using f \<open>0 \<le> uint (x mod 401)\<close> \<open>uint (x mod 401) \<le> 400\<close> by simp_all
qed

lemma retry_base_bounds: "0 < retry_base n" "retry_base n \<le> 12 * Hour"
  by (simp_all add: retry_base_def duration_defs Let_def)

lemma Decide_retry_switch:
  assumes "d_Action (Decide e b) = Retry"
  shows "decide_switch e = Inr ((Decide e b)\<lparr>d_RetryAfter := 0\<rparr>)"
    and "1 \<le> b_Attempts b" and "b_Attempts b < MaxAttempts"
    and "b_StartedAt b \<le> b_Now b"
    and "b_Now b + d_RetryAfter (Decide e b) < b_StartedAt b + Window"
    and "d_RetryAfter (Decide e b) = (retry_base (b_Attempts b) * uint (jitter_factor (b_Seed b))) div 1000"
proof -
  obtain d where d: "decide_switch e = Inr d"
    using assms decide_switch_final [of e] by (cases "decide_switch e") (fastforce simp: Decide_def)+
  note r = decide_failure_retry [OF decide_switch_retry(3) [OF d]]
  show "decide_switch e = Inr ((Decide e b)\<lparr>d_RetryAfter := 0\<rparr>)"
    using assms d r by (auto simp: Decide_def Let_def split: if_splits)
  show "1 \<le> b_Attempts b" "b_Attempts b < MaxAttempts" "b_StartedAt b \<le> b_Now b"
    "b_Now b + d_RetryAfter (Decide e b) < b_StartedAt b + Window"
    "d_RetryAfter (Decide e b) = (retry_base (b_Attempts b) * uint (jitter_factor (b_Seed b))) div 1000"
    using assms d by (auto simp: Decide_def Let_def split: if_splits)
qed

lemma Decide_shape:
  "d_Version (Decide e b) = 2"
  "d_Action (Decide e b) \<in> {Accept, Unknown, Permanent, Manual, Retry}"
  "d_Terminal (Decide e b) \<longleftrightarrow> d_Action (Decide e b) \<in> {Accept, Permanent}"
  "d_MayHaveDelivered (Decide e b) \<longleftrightarrow> d_Action (Decide e b) \<in> {Accept, Unknown}"
  "d_Action (Decide e b) = Accept \<longleftrightarrow> final_accepted e"
  "d_Action (Decide e b) = Unknown \<longleftrightarrow> remote_uncertain e \<and> \<not> final_accepted e"
  "d_FailoverAllowed (Decide e b) \<Longrightarrow> d_Action (Decide e b) = Retry"
proof -
  consider (fin) d where "decide_switch e = Inl d" | (retry) d where "decide_switch e = Inr d"
    by (cases "decide_switch e") auto
  then have *: "d_Version (Decide e b) = 2
    \<and> d_Action (Decide e b) \<in> {Accept, Unknown, Permanent, Manual, Retry}
    \<and> (d_Terminal (Decide e b) \<longleftrightarrow> d_Action (Decide e b) \<in> {Accept, Permanent})
    \<and> (d_MayHaveDelivered (Decide e b) \<longleftrightarrow> d_Action (Decide e b) \<in> {Accept, Unknown})
    \<and> (d_Action (Decide e b) = Accept \<longleftrightarrow> final_accepted e)
    \<and> (d_Action (Decide e b) = Unknown \<longleftrightarrow> remote_uncertain e \<and> \<not> final_accepted e)
    \<and> (d_FailoverAllowed (Decide e b) \<longrightarrow> d_Action (Decide e b) = Retry)"
  proof cases
    case fin
    then show ?thesis using decide_switch_final [OF fin] by (auto simp: Decide_def)
  next
    case retry
    then show ?thesis using decide_switch_retry [OF retry] decide_failure_retry [OF decide_switch_retry(3) [OF retry]]
      by (simp add: Decide_def Let_def)
  qed
  show "d_Version (Decide e b) = 2"
    "d_Action (Decide e b) \<in> {Accept, Unknown, Permanent, Manual, Retry}"
    "d_Terminal (Decide e b) \<longleftrightarrow> d_Action (Decide e b) \<in> {Accept, Permanent}"
    "d_MayHaveDelivered (Decide e b) \<longleftrightarrow> d_Action (Decide e b) \<in> {Accept, Unknown}"
    "d_Action (Decide e b) = Accept \<longleftrightarrow> final_accepted e"
    "d_Action (Decide e b) = Unknown \<longleftrightarrow> remote_uncertain e \<and> \<not> final_accepted e"
    "d_FailoverAllowed (Decide e b) \<Longrightarrow> d_Action (Decide e b) = Retry"
    using * by blast+
qed


lemma jittered_bounds:
  assumes "0 \<le> base"
  shows "base * 800 div 1000 \<le> (base * uint (jitter_factor seed)) div 1000"
    and "(base * uint (jitter_factor seed)) div 1000 \<le> base * 1200 div 1000"
proof -
  have "base * 800 \<le> base * uint (jitter_factor seed)" "base * uint (jitter_factor seed) \<le> base * 1200"
    using assms jitter_factor_bounds [of seed] by (auto intro: mult_left_mono)
  from this [THEN zdiv_mono1, of 1000]
  show "base * 800 div 1000 \<le> (base * uint (jitter_factor seed)) div 1000"
    and "(base * uint (jitter_factor seed)) div 1000 \<le> base * 1200 div 1000"
    by simp_all
qed

lemma retry_base_first: "1 \<le> n \<Longrightarrow> Minute \<le> retry_base n"
  by (simp add: retry_base_def duration_defs Let_def)

text \<open>A second attempt with an explicit temporary answer to DATA.\<close>

definition sample_evidence :: evidence where
  "sample_evidence = \<lparr>ev_Stage = ''DATA_REJECTED'', ev_ErrorClass = ''DATA_REJECTED'', ev_Status = TEMP_FAILED,
     ev_Code = 451, ev_FinalCode = 0, ev_FinalResponse = False, ev_BodyStarted = False\<rparr>"

definition sample_budget :: budget where
  "sample_budget = \<lparr>b_Attempts = 2, b_StartedAt = 1000, b_Now = 1000 + Minute, b_Seed = ''seed''\<rparr>"

lemma sample_decision:
  "decide_switch sample_evidence = Inr (manual_default\<lparr>d_Action := Retry, d_Reason := ''DATA_REJECTED'',
     d_Scope := ''provider'', d_FailoverAllowed := True\<rparr>)"
  by (simp add: sample_evidence_def decide_switch_def decide_failure_def rcRejected_def safeTemporary_def Let_def)

lemma sample_retry: "d_Action (Decide sample_evidence sample_budget) = Retry"
  and sample_failover: "d_FailoverAllowed (Decide sample_evidence sample_budget)"
proof -
  have "(retry_base 2 * uint (jitter_factor ''seed'')) div 1000 \<le> 12 * Hour * 1200 div 1000"
    using jittered_bounds(2) [of "retry_base 2" "''seed''"] retry_base_bounds [of 2]
    by (intro order_trans [OF _ zdiv_mono1 [of "retry_base 2 * 1200" "12 * Hour * 1200" 1000]]) auto
  then have "1000 + Minute + (retry_base 2 * uint (jitter_factor ''seed'')) div 1000 < 1000 + Window"
    by (simp add: duration_defs Window_def)
  then show "d_Action (Decide sample_evidence sample_budget) = Retry"
    and "d_FailoverAllowed (Decide sample_evidence sample_budget)"
    by (simp_all add: Decide_def sample_decision sample_budget_def MaxAttempts_def Window_def duration_defs)
qed

subsection \<open>Properties\<close>

text \<open>
  C1: A recipient whose remote acceptance is uncertain is never sent again by the policy. If the recipient's
  status is DELIVERY_UNKNOWN, or the body was started and neither an explicit rejection of the recipient nor
  an explicit final 4xx or 5xx reply ended the transaction, then the decision is Unknown, or Accept when
  a final 2xx reply exists; it allows no failover, plans no retry, and says that the message may have been delivered.
\<close>

theorem decide_uncertain_never_retried:
  assumes "ev_Status e = DELIVERY_UNKNOWN
    \<or> (ev_BodyStarted e \<and> \<not> rcRejected e
        \<and> \<not> (ev_FinalResponse e \<and> ev_FinalCode e \<ge> 400 \<and> ev_FinalCode e < 600))"
  shows "d_Action (Decide e b) = (if ev_Status e = SMTP_ACCEPTED \<and> ev_FinalResponse e \<and> ev_FinalCode e \<ge> 200
             \<and> ev_FinalCode e < 300 then Accept else Unknown)
    \<and> \<not> d_FailoverAllowed (Decide e b) \<and> d_RetryAfter (Decide e b) = 0 \<and> d_MayHaveDelivered (Decide e b)"
proof -
  have u: "remote_uncertain e" using assms by (auto simp: remote_uncertain_def)
  then obtain d where d: "decide_switch e = Inl d"
    using decide_switch_retry(1) [of e] by (cases "decide_switch e") auto
  then have "Decide e b = d" by (simp add: Decide_def)
  with decide_switch_final [OF d] u show ?thesis by (auto simp: final_accepted_def)
qed

theorem decide_uncertain_never_retried_witness:
  "d_Action (Decide \<lparr>ev_Stage = ''DATA_WRITE_ERROR'', ev_ErrorClass = ''FINAL_RESPONSE_TIMEOUT'', ev_Status = TEMP_FAILED,
      ev_Code = 0, ev_FinalCode = 0, ev_FinalResponse = False, ev_BodyStarted = True\<rparr> sample_budget) = Unknown"
  using decide_uncertain_never_retried [of "\<lparr>ev_Stage = ''DATA_WRITE_ERROR'', ev_ErrorClass = ''FINAL_RESPONSE_TIMEOUT'',
    ev_Status = TEMP_FAILED, ev_Code = 0, ev_FinalCode = 0, ev_FinalResponse = False, ev_BodyStarted = True\<rparr>" sample_budget]
  by (simp add: rcRejected_def)

text \<open>
  C2: A planned retry stays within the budget. It is planned only for the first to the sixth attempt
  and ends before the window of 24 hours that began with the first attempt; its delay is four times longer with each
  attempt, from one minute up to twelve hours, spread by a factor between 0.8 and 1.2; and the product computed for it fits
  in 63 bits, so that Go's arithmetic on time.Duration does not wrap.
\<close>

theorem decide_retry_within_budget:
  assumes "d_Action (Decide e b) = Retry"
  shows "1 \<le> b_Attempts b \<and> b_Attempts b \<le> 6
    \<and> b_StartedAt b \<le> b_Now b \<and> b_Now b + d_RetryAfter (Decide e b) < b_StartedAt b + 24 * Hour
    \<and> min (12 * Hour) (Minute * 4 ^ nat (b_Attempts b - 1)) * 800 div 1000 \<le> d_RetryAfter (Decide e b)
    \<and> d_RetryAfter (Decide e b) \<le> min (12 * Hour) (Minute * 4 ^ nat (b_Attempts b - 1)) * 1200 div 1000
    \<and> 48 * Second \<le> d_RetryAfter (Decide e b)
    \<and> retry_base (b_Attempts b) * uint (jitter_factor (b_Seed b)) < 2 ^ 63"
proof -
  note r = Decide_retry_switch [OF assms]
  have "nat (2 * (b_Attempts b - 1)) = 2 * nat (b_Attempts b - 1)" by (subst nat_mult_distrib) simp_all
  then have "(2::int) ^ nat (2 * (b_Attempts b - 1)) = 4 ^ nat (b_Attempts b - 1)" by (simp only: power_mult) simp
  then have base: "retry_base (b_Attempts b) = min (12 * Hour) (Minute * 4 ^ nat (b_Attempts b - 1))"
    by (simp add: retry_base_def Let_def min_def)
  have lo: "48 * Second \<le> retry_base (b_Attempts b) * 800 div 1000"
    using zdiv_mono1 [of "Minute * 800" "retry_base (b_Attempts b) * 800" 1000] retry_base_first [OF r(2)]
    by (simp add: duration_defs)
  have "retry_base (b_Attempts b) * uint (jitter_factor (b_Seed b)) \<le> (12 * Hour) * 1200"
    using retry_base_bounds [of "b_Attempts b"] jitter_factor_bounds [of "b_Seed b"] by (intro mult_mono) auto
  then have "retry_base (b_Attempts b) * uint (jitter_factor (b_Seed b)) < 2 ^ 63" by (simp add: duration_defs)
  moreover have "0 \<le> retry_base (b_Attempts b)" using retry_base_bounds(1) [of "b_Attempts b"] by simp
  ultimately show ?thesis
    using r jittered_bounds [of "retry_base (b_Attempts b)" "b_Seed b"] lo
    by (simp add: base [symmetric] MaxAttempts_def Window_def)
qed

theorem decide_retry_within_budget_witness:
  "d_Action (Decide sample_evidence sample_budget) = Retry
   \<and> 192 * Second \<le> d_RetryAfter (Decide sample_evidence sample_budget)
   \<and> d_RetryAfter (Decide sample_evidence sample_budget) \<le> 288 * Second"
  using decide_retry_within_budget [OF sample_retry] sample_retry
  by (simp add: sample_budget_def duration_defs)

text \<open>
  C3: Failover to another provider is allowed only together with a retry and only on proof that
  the message was not taken: the recipient failed temporarily, no body was started, no final reply was read, and either the
  failure came before any reply of the server (resolution, connection, TLS) or the server answered the DATA
  command itself with a 4xx code.
\<close>

theorem decide_failover_only_before_data:
  assumes "d_FailoverAllowed (Decide e b)"
  shows "d_Action (Decide e b) = Retry \<and> \<not> d_MayHaveDelivered (Decide e b)
    \<and> ev_Status e = TEMP_FAILED \<and> \<not> ev_BodyStarted e \<and> \<not> ev_FinalResponse e
    \<and> (ev_Code e = 0 \<and> ev_Stage e \<in> {''DNS_ERROR'', ''CONNECT_ERROR'', ''TLS_ERROR''}
       \<or> ev_Stage e = ''DATA_REJECTED'' \<and> 400 \<le> ev_Code e \<and> ev_Code e < 500)"
proof -
  have a: "d_Action (Decide e b) = Retry" using assms by (rule Decide_shape(7))
  have f: "decide_failure e manual_default = Inr ((Decide e b)\<lparr>d_RetryAfter := 0\<rparr>)"
    using decide_switch_retry(3) Decide_retry_switch(1) [OF a] by blast
  have "ev_Code e = 0 \<and> ev_Stage e \<in> {''DNS_ERROR'', ''CONNECT_ERROR'', ''TLS_ERROR''}
       \<or> ev_Stage e = ''DATA_REJECTED'' \<and> 400 \<le> ev_Code e \<and> ev_Code e < 500"
    using decide_failure_failover_stage [OF f] assms by simp
  with decide_failure_failover [OF f] assms a show ?thesis
    by (simp add: Decide_shape(4))
qed

theorem decide_failover_only_before_data_witness:
  "d_FailoverAllowed (Decide sample_evidence sample_budget) \<and> \<not> d_MayHaveDelivered (Decide sample_evidence sample_budget)"
  using decide_failover_only_before_data [OF sample_failover] sample_failover by simp

text \<open>
  C4: What a decision says is consistent with the evidence: acceptance is decided exactly on a status
  SMTP_ACCEPTED with a final 2xx reply, and then it is the provider's success; a decision is terminal exactly when it
  is an acceptance or a permanent failure; it says that the message may have been delivered exactly when it is an
  acceptance or unknown; and the failures of this system's own storage, database, recorder, message checks or
  credentials are never counted against the provider.
\<close>

theorem decide_consistent_with_evidence:
  "(d_Action (Decide e b) = Accept \<longleftrightarrow>
      ev_Status e = SMTP_ACCEPTED \<and> ev_FinalResponse e \<and> ev_FinalCode e \<ge> 200 \<and> ev_FinalCode e < 300)
   \<and> (d_Action (Decide e b) = Accept \<longrightarrow> ProviderOutcome e = SUCCESS)
   \<and> (d_Terminal (Decide e b) \<longleftrightarrow> d_Action (Decide e b) = Accept \<or> d_Action (Decide e b) = Permanent)
   \<and> (d_MayHaveDelivered (Decide e b) \<longleftrightarrow> d_Action (Decide e b) = Accept \<or> d_Action (Decide e b) = Unknown)
   \<and> (ev_ErrorClass e \<in> {''LOCAL_STORAGE_ERROR'', ''DATABASE_ERROR'', ''RECORDER_ERROR'', ''INVALID_EML'',
        ''INVALID_ENVELOPE'', ''CREDENTIAL_DECRYPTION_ERROR''} \<longrightarrow> ProviderOutcome e \<noteq> FAILURE)"
  using Decide_shape [of e b] by (auto simp: final_accepted_def ProviderOutcome_def)

theorem decide_consistent_with_evidence_witness:
  "ProviderOutcome (sample_evidence\<lparr>ev_ErrorClass := ''DATABASE_ERROR''\<rparr>) \<noteq> FAILURE"
  using decide_consistent_with_evidence [of "sample_evidence\<lparr>ev_ErrorClass := ''DATABASE_ERROR''\<rparr>" sample_budget]
  by simp

end
