(* ===== verification/Smtp_Client.thy ===== *)
theory Smtp_Client
  imports Smtp_Stream Delivery
begin

text \<open>
  The outbound SMTP conversation of internal/smtpclient (result.go, capabilities.go, client.go): one bounded dialogue with
  a provider, the evidence it leaves for each recipient, and the aggregate of an attempt. The network, the durable
  fence before DATA, the event recorder and the SASL package are inputs of the model: what each of them
  answers at each point of the dialogue is a field of the record \<open>call\<close>. Durations (the map Timings) are not modelled.
\<close>

subsection \<open>Data\<close>

text \<open>provider.Provider.\<close>

record provider =
  p_ID :: string
  p_Name :: string
  p_Host :: string
  p_Security :: string
  p_Username :: string
  p_Port :: int
  p_Priority :: int
  p_MaxConnections :: int
  p_HourlyLimit :: int
  p_DailyLimit :: int
  p_Timeout :: duration
  p_Ciphertext :: string
  p_Nonce :: string

record recipient =
  rc_ID :: string
  rc_Address :: string

record recipient_result =
  rr_ID :: string
  rr_Status :: status
  rr_Stage :: string
  rr_Code :: int
  rr_Enhanced :: string
  rr_Response :: string

record smtp_event =
  se_Sequence :: int
  se_Type :: string
  se_RecipientID :: string
  se_At :: time
  se_Code :: int
  se_Response :: string

record capabilities =
  cp_SMTPUTF8 :: bool
  cp_EightBitMIME :: bool
  cp_Pipelining :: bool
  cp_AuthPlain :: bool
  cp_AuthLogin :: bool
  cp_SizeState :: string
  cp_SizeBytes :: "int option"

record result =
  o_Capabilities :: "capabilities option"
  o_Stage :: string
  o_DNSStartedAt :: time
  o_DNSCompletedAt :: time
  o_RecorderError :: bool
  o_Status :: status
  o_ErrorClass :: string
  o_ErrorMessage :: string
  o_Code :: int
  o_Enhanced :: string
  o_Response :: string
  o_RemoteIP :: string
  o_StartedAt :: time
  o_ConnectedAt :: time
  o_TLSAt :: time
  o_AuthenticatedAt :: time
  o_MailFromAt :: time
  o_RcptAt :: time
  o_DataStartedAt :: time
  o_DataCompletedAt :: time
  o_FinalResponseAt :: time
  o_FinishedAt :: time
  o_BytesSent :: int
  o_Recipients :: "recipient_result list"
  o_Events :: "smtp_event list"

definition empty_result :: result where
  "empty_result = \<lparr>o_Capabilities = None, o_Stage = [], o_DNSStartedAt = 0, o_DNSCompletedAt = 0, o_RecorderError = False,
     o_Status = OtherStatus [], o_ErrorClass = [], o_ErrorMessage = [], o_Code = 0, o_Enhanced = [], o_Response = [],
     o_RemoteIP = [], o_StartedAt = 0, o_ConnectedAt = 0, o_TLSAt = 0, o_AuthenticatedAt = 0, o_MailFromAt = 0,
     o_RcptAt = 0, o_DataStartedAt = 0, o_DataCompletedAt = 0, o_FinalResponseAt = 0, o_FinishedAt = 0,
     o_BytesSent = 0, o_Recipients = [], o_Events = []\<rparr>"

definition Aggregate :: "result \<Rightarrow> result" where
  "Aggregate r =
     (let accepted = count_where (\<lambda>v. rr_Status v = SMTP_ACCEPTED) (o_Recipients r);
          temporary = count_where (\<lambda>v. rr_Status v = TEMP_FAILED) (o_Recipients r);
          unknown = count_where (\<lambda>v. rr_Status v = DELIVERY_UNKNOWN) (o_Recipients r)
      in r\<lparr>o_Status :=
        (if unknown > 0 then DELIVERY_UNKNOWN
         else if accepted = int (length (o_Recipients r)) \<and> accepted > 0 then SMTP_ACCEPTED
         else if accepted > 0 then PARTIAL_ACCEPTED
         else if temporary > 0 then TEMP_FAILED
         else PERM_FAILED)\<rparr>)"

subsection \<open>Capabilities\<close>

fun auth_words :: "string list \<Rightarrow> capabilities \<Rightarrow> capabilities" where
  "auth_words [] c = c"
| "auth_words (m # ms) c = auth_words ms
     (if to_upper m = ''PLAIN'' then c\<lparr>cp_AuthPlain := True\<rparr>
      else if to_upper m = ''LOGIN'' then c\<lparr>cp_AuthLogin := True\<rparr> else c)"

text \<open>One turn of the loop of observedCapabilities; the flag is sizeSeen.\<close>

definition observe_line :: "string \<Rightarrow> capabilities \<times> bool \<Rightarrow> capabilities \<times> bool" where
  "observe_line line = (\<lambda>(c, sizeSeen). let fs = Fields line in
     if fs = [] then (c, sizeSeen)
     else if to_upper (hd fs) = ''SMTPUTF8'' then (c\<lparr>cp_SMTPUTF8 := True\<rparr>, sizeSeen)
     else if to_upper (hd fs) = ''8BITMIME'' then (c\<lparr>cp_EightBitMIME := True\<rparr>, sizeSeen)
     else if to_upper (hd fs) = ''PIPELINING'' then (c\<lparr>cp_Pipelining := True\<rparr>, sizeSeen)
     else if to_upper (hd fs) = ''AUTH'' then (auth_words (tl fs) c, sizeSeen)
     else if to_upper (hd fs) = ''SIZE'' then
       (if sizeSeen then (c\<lparr>cp_SizeState := ''invalid'', cp_SizeBytes := None\<rparr>, sizeSeen)
        else if length fs = 1 then (c\<lparr>cp_SizeState := ''unspecified''\<rparr>, True)
        else case parse_int (fs ! 1) of
          Some n \<Rightarrow>
            if length fs \<noteq> 2 \<or> n < 0 \<or> prefix ''+'' (fs ! 1) then (c\<lparr>cp_SizeState := ''invalid''\<rparr>, True)
            else (c\<lparr>cp_SizeState := ''numeric'', cp_SizeBytes := Some n\<rparr>, True)
        | None \<Rightarrow> (c\<lparr>cp_SizeState := ''invalid''\<rparr>, True))
     else (c, sizeSeen))"

definition observedCapabilities :: "string \<Rightarrow> capabilities" where
  "observedCapabilities raw = fst (fold observe_line (tl (split_on LF raw))
     (\<lparr>cp_SMTPUTF8 = False, cp_EightBitMIME = False, cp_Pipelining = False, cp_AuthPlain = False,
       cp_AuthLogin = False, cp_SizeState = ''absent'', cp_SizeBytes = None\<rparr>, False))"

fun capability_in :: "string list \<Rightarrow> string \<Rightarrow> string list" where
  "capability_in [] name = []"
| "capability_in (line # ls) name =
     (let f = Fields line in if f \<noteq> [] \<and> equal_fold (hd f) name then tl f else capability_in ls name)"

text \<open>
  The code joins the words after the name with blanks and its only caller splits the text into fields again; the words
  are kept apart here.
\<close>

definition capability :: "string \<Rightarrow> string \<Rightarrow> string list" where
  "capability caps name = capability_in (split_on LF caps) name"

definition hasCapability :: "string \<Rightarrow> string \<Rightarrow> bool" where
  "hasCapability caps name = (\<exists>line \<in> set (split_on LF caps). equal_fold (trim_space line) name)"

subsection \<open>Replies\<close>

text \<open>One %d of fmt.Sscanf: an optional sign and at least one digit, in the range of int; the rest of the input.\<close>

definition scan_int :: "string \<Rightarrow> string option" where
  "scan_int s =
     (let signed = (s \<noteq> [] \<and> (hd s = CHR ''+'' \<or> hd s = CHR ''-'')); ds = takeWhile is_digit (if signed then tl s else s)
      in case parse_int ((if signed then [hd s] else []) @ ds) of
           None \<Rightarrow> None | Some n \<Rightarrow> Some (drop (length ds + (if signed then 1 else 0)) s))"

definition scan_dot :: "string \<Rightarrow> string option" where
  "scan_dot s = (if s \<noteq> [] \<and> hd s = CHR ''.'' then Some (tl s) else None)"

definition enhanced :: "string \<Rightarrow> string" where
  "enhanced response = (case Fields response of [] \<Rightarrow> [] | f # _ \<Rightarrow>
     (case Option.bind (scan_int f) (\<lambda>r. Option.bind (scan_dot r) (\<lambda>r. Option.bind (scan_int r)
             (\<lambda>r. Option.bind (scan_dot r) scan_int))) of
        Some _ \<Rightarrow> f | None \<Rightarrow> []))"

definition redacted :: string where "redacted = ''[REDACTED]''"

definition safeResponse :: "string \<Rightarrow> string \<Rightarrow> string" where
  "safeResponse s password =
     (let s = (if password \<noteq> [] then replace_all (replace_all s password redacted) (b64_encode password) redacted else s);
          s = (if length s > 4096 then take 4096 s else s)
      in to_valid_utf8 False replacement_char (replace_all s [NUL] []))"

definition redactAuth :: "string \<Rightarrow> string \<Rightarrow> string \<Rightarrow> string" where
  "redactAuth value username password = replace_all value (b64_encode (NUL # username @ NUL # password)) redacted"

text \<open>
  An error as the code can see it: which of its tests with errors.As and errors.Is succeed. The first
  field is the reply of a \<^verbatim>\<open>*textproto.Error\<close>.
\<close>

record neterr =
  ne_reply :: "(int \<times> string) option"
  ne_neterror :: bool
  ne_timeout :: bool
  ne_eof :: bool
  ne_reset :: bool
  ne_dns :: bool
  ne_refused :: bool
  ne_deadline :: bool
  ne_suppressed :: bool
  ne_expired :: bool

definition plain_err :: neterr where
  "plain_err = \<lparr>ne_reply = None, ne_neterror = False, ne_timeout = False, ne_eof = False, ne_reset = False, ne_dns = False,
     ne_refused = False, ne_deadline = False, ne_suppressed = False, ne_expired = False\<rparr>"

definition reply_err :: "int \<Rightarrow> string \<Rightarrow> neterr" where
  "reply_err code msg = plain_err\<lparr>ne_reply := Some (code, msg)\<rparr>"

definition classify :: "string \<Rightarrow> neterr \<Rightarrow> string" where
  "classify stage e =
     (if stage = ''AUTH_ERROR'' \<and> (ne_neterror e \<or> ne_eof e \<or> ne_reset e) then ''AUTH_CONNECTION_ERROR''
      else if stage = ''AUTH_ERROR'' \<or> stage = ''TLS_ERROR'' \<or> stage = ''RECORDER_ERROR'' then stage
      else if ne_dns e then ''DNS_ERROR''
      else if ne_refused e then ''CONNECT_REFUSED''
      else if (ne_neterror e \<and> ne_timeout e) \<or> ne_deadline e then
        (if prefix ''FINAL_RESPONSE'' stage then ''FINAL_RESPONSE_TIMEOUT''
         else if stage = ''CONNECT_ERROR'' then ''CONNECT_TIMEOUT'' else stage @ ''_TIMEOUT'')
      else if ne_reset e then ''CONNECTION_RESET''
      else stage)"

text \<open>
  What the connection gives for one read of a reply: the code and text of a reply, or an error of the transport
  or of the write before it, which is never a \<^verbatim>\<open>*textproto.Error\<close>. \<open>read_response\<close> is textproto's
  ReadResponse(expectCode) on it.
\<close>

datatype wire = Reply int string | WireErr neterr

definition code_expected :: "int \<Rightarrow> int \<Rightarrow> bool" where
  "code_expected expect code =
     (\<not> ((1 \<le> expect \<and> expect < 10 \<and> code div 100 \<noteq> expect)
       \<or> (10 \<le> expect \<and> expect < 100 \<and> code div 10 \<noteq> expect)
       \<or> (100 \<le> expect \<and> expect < 1000 \<and> code \<noteq> expect)))"

fun read_response :: "int \<Rightarrow> wire \<Rightarrow> int \<times> string \<times> neterr option" where
  "read_response expect (Reply code msg) =
     (if code < 100 then (code, [], Some plain_err)
      else if \<not> code_expected expect code then (code, msg, Some (reply_err code msg))
      else (code, msg, None))"
| "read_response expect (WireErr e) = (0, [], Some (e\<lparr>ne_reply := None\<rparr>))"

end
