(* ===== verification/Smtp_Send.thy ===== *)
theory Smtp_Send
  imports Smtp_Client
begin

text \<open>
  The conversation itself (Client.Send and Client.Probe of internal/smtpclient/client.go), phase by phase. A phase either
  returns from Send (Inl) or goes on (Inr). Beside the result the state keeps the commands given to the
  connection, in order, so that one can say what was transmitted.
\<close>

subsection \<open>State\<close>

datatype cmd =
    C_EHLO | C_STARTTLS | C_TLS | C_AUTH | C_AUTH_RESPONSE | C_MAIL string | C_RCPT string | C_DATA | C_BODY string | C_QUIT

text \<open>
  The arguments of Send and the answers of its environment: \<open>k_clock\<close> is the time read for the named field, and the time of
  the event with the given number; \<open>k_dns\<close> the number of addresses found; \<open>k_dial\<close> the outcome for each address;
  \<open>k_reply\<close> the n-th reply; \<open>k_record\<close> what the recorder returns for the event with the given number;
  \<open>k_sasl_next\<close> the error of decoding the challenge or of auth.Next in the i-th turn; \<open>k_view\<close> how the tests of
  the code see an error of the payload or of the writer.
\<close>

record call =
  k_probe :: bool
  k_Domain :: string
  k_p :: provider
  k_password :: string
  k_from :: string
  k_recipients :: "recipient list"
  k_clock :: "string \<Rightarrow> time"
  k_event_clock :: "int \<Rightarrow> time"
  k_seek :: "nat \<Rightarrow> err option"
  k_check :: "read list"
  k_payload :: "read list"
  k_werr :: "nat \<Rightarrow> (nat \<times> err) option"
  k_view :: "err \<Rightarrow> neterr"
  k_dns :: "neterr + nat"
  k_dial :: "nat \<Rightarrow> neterr option"
  k_remote :: string
  k_tls :: "neterr option"
  k_reply :: "nat \<Rightarrow> wire"
  k_record :: "(int \<Rightarrow> neterr option) option"
  k_sasl_start :: "string \<Rightarrow> neterr option"
  k_sasl_next :: "nat \<Rightarrow> string \<Rightarrow> neterr option"
  k_before :: "neterr option"
  k_quit :: bool

record send =
  sd_out :: result
  sd_stage :: string
  sd_replies :: nat
  sd_caps :: string
  sd_sent :: "cmd list"

definition set_stage :: "string \<Rightarrow> send \<Rightarrow> send" where
  "set_stage st s = s\<lparr>sd_stage := st\<rparr>"

definition upd_out :: "(result \<Rightarrow> result) \<Rightarrow> send \<Rightarrow> send" where
  "upd_out f s = s\<lparr>sd_out := f (sd_out s)\<rparr>"

lemma set_stage_simps [simp]:
  "sd_out (set_stage st s) = sd_out s" "sd_stage (set_stage st s) = st" "sd_replies (set_stage st s) = sd_replies s"
  "sd_caps (set_stage st s) = sd_caps s" "sd_sent (set_stage st s) = sd_sent s"
  by (simp_all add: set_stage_def)

lemma upd_out_simps [simp]:
  "sd_out (upd_out f s) = f (sd_out s)" "sd_stage (upd_out f s) = sd_stage s" "sd_replies (upd_out f s) = sd_replies s"
  "sd_caps (upd_out f s) = sd_caps s" "sd_sent (upd_out f s) = sd_sent s"
  by (simp_all add: upd_out_def)

subsection \<open>fail, event and command\<close>

definition fail_status :: "neterr \<Rightarrow> bool \<Rightarrow> status" where
  "fail_status e uncertain = (case ne_reply e of
     Some (code, msg) \<Rightarrow>
       if code \<ge> 500 \<and> code \<le> 599 then PERM_FAILED
       else if uncertain \<and> (code < 400 \<or> code > 599) then DELIVERY_UNKNOWN else TEMP_FAILED
   | None \<Rightarrow> if uncertain then DELIVERY_UNKNOWN else TEMP_FAILED)"

definition fail_recipient :: "status \<Rightarrow> string \<Rightarrow> result \<Rightarrow> recipient_result \<Rightarrow> recipient_result" where
  "fail_recipient st stage out r =
     (if rr_Status r = RCPT_ACCEPTED \<or> (rr_Status r = TEMP_FAILED \<and> rr_Code r = 0) then
        r\<lparr>rr_Status := st, rr_Stage := stage, rr_Code := o_Code out, rr_Response := o_Response out,
          rr_Enhanced := o_Enhanced out\<rparr>
      else r)"

definition safe_text :: "call \<Rightarrow> string \<Rightarrow> string" where
  "safe_text k s = safeResponse (redactAuth s (p_Username (k_p k)) (k_password k)) (k_password k)"

definition fail_out :: "call \<Rightarrow> string \<Rightarrow> neterr \<Rightarrow> bool \<Rightarrow> result \<Rightarrow> result" where
  "fail_out k stage e uncertain out =
     (let out = out\<lparr>o_ErrorClass := classify stage e, o_ErrorMessage := ''SMTP operation failed''\<rparr>;
          out = (case ne_reply e of
            Some (code, msg) \<Rightarrow> out\<lparr>o_Code := code, o_Response := safe_text k msg, o_Enhanced := enhanced msg\<rparr>
          | None \<Rightarrow> if uncertain then out\<lparr>o_ErrorClass := classify ''FINAL_RESPONSE_UNKNOWN'' e\<rparr> else out);
          out = (if stage = ''AUTH_ERROR'' then out\<lparr>o_Response := ''authentication rejected (redacted)''\<rparr> else out);
          out = (if k_probe k then out\<lparr>o_Status := fail_status e uncertain\<rparr> else out)
      in out\<lparr>o_Recipients := map (fail_recipient (fail_status e uncertain) stage out) (o_Recipients out)\<rparr>)"

definition fail :: "call \<Rightarrow> neterr \<Rightarrow> bool \<Rightarrow> send \<Rightarrow> send" where
  "fail k e uncertain s = upd_out (fail_out k (sd_stage s) e uncertain) s"

definition event :: "call \<Rightarrow> string \<Rightarrow> string \<Rightarrow> int \<Rightarrow> string \<Rightarrow> send \<Rightarrow> send + send" where
  "event k kind rid code response s =
     (let seq = int (length (o_Events (sd_out s))) + 1;
          e = \<lparr>se_Sequence = seq, se_Type = kind, se_RecipientID = rid, se_At = k_event_clock k seq, se_Code = code,
               se_Response = safe_text k response\<rparr>;
          s = upd_out (\<lambda>q. q\<lparr>o_Events := o_Events q @ [e]\<rparr>) s
      in case k_record k of None \<Rightarrow> Inr s | Some rec \<Rightarrow>
         (case rec seq of None \<Rightarrow> Inr s | Some err \<Rightarrow>
            let s = upd_out (\<lambda>q. q\<lparr>o_RecorderError := True\<rparr>) s in
            if IsZero (o_DataStartedAt (sd_out s)) then Inl (fail k err False (set_stage ''RECORDER_ERROR'' s))
            else Inr s))"

text \<open>
  A command and its reply. The command counts as given to the connection even when writing it fails, in
  which case the reply is the error of the write.
\<close>

definition command :: "call \<Rightarrow> int \<Rightarrow> cmd \<Rightarrow> send \<Rightarrow> (int \<times> string \<times> neterr option) \<times> send" where
  "command k expected c s =
     (read_response expected (k_reply k (sd_replies s)),
      s\<lparr>sd_replies := Suc (sd_replies s), sd_sent := sd_sent s @ [c]\<rparr>)"

definition read_reply :: "call \<Rightarrow> int \<Rightarrow> send \<Rightarrow> (int \<times> string \<times> neterr option) \<times> send" where
  "read_reply k expected s =
     (read_response expected (k_reply k (sd_replies s)), s\<lparr>sd_replies := Suc (sd_replies s)\<rparr>)"

text \<open>A command whose only use is that its reply is the expected one: the error fails the attempt.\<close>

definition command_ok :: "call \<Rightarrow> int \<Rightarrow> cmd \<Rightarrow> send \<Rightarrow> send + send" where
  "command_ok k expected c s = (case command k expected c s of
     ((code, msg, Some e), s) \<Rightarrow> Inl (fail k e False s) | ((code, msg, None), s) \<Rightarrow> Inr s)"

subsection \<open>Phases before MAIL\<close>

definition payload_err :: "call \<Rightarrow> err \<Rightarrow> neterr" where
  "payload_err k e = (k_view k e)\<lparr>ne_reply := None\<rparr>"

definition validatePayload :: "call \<Rightarrow> err + unit" where
  "validatePayload k = (case k_seek k 0 of Some e \<Rightarrow> Inl e | None \<Rightarrow>
     bind_res (ValidateCanonical (k_check k)) (\<lambda>_. case k_seek k 1 of Some e \<Rightarrow> Inl e | None \<Rightarrow> Inr ()))"

definition has_crlf :: "string \<Rightarrow> bool" where
  "has_crlf s = contains_any s {CR, LF}"

definition phase_validate :: "call \<Rightarrow> send \<Rightarrow> send + send" where
  "phase_validate k s =
     (if p_Security (k_p k) \<noteq> ''starttls'' \<and> p_Security (k_p k) \<noteq> ''implicit_tls'' then
        Inl (fail k plain_err False (set_stage ''TLS_ERROR'' s))
      else if has_crlf (k_from k @ k_Domain k) then
        Inl (fail k plain_err False (set_stage ''INVALID_ENVELOPE'' s))
      else if \<exists>r \<in> set (k_recipients k). has_crlf (rc_Address r) then
        Inl (fail k plain_err False (set_stage ''INVALID_ENVELOPE'' s))
      else if k_probe k then Inr s
      else case validatePayload k of
        Inl e \<Rightarrow> Inl (fail k (payload_err k e) False (set_stage ''INVALID_EML'' s))
      | Inr _ \<Rightarrow> Inr s)"

definition phase_dns :: "call \<Rightarrow> send \<Rightarrow> send + send" where
  "phase_dns k s =
     bind_res (event k ''DNS_STARTED'' [] 0 [] (upd_out (\<lambda>q. q\<lparr>o_DNSStartedAt := k_clock k ''DNSStartedAt''\<rparr>) (set_stage ''DNS_ERROR'' s))) (\<lambda>s.
     let s = upd_out (\<lambda>q. q\<lparr>o_DNSCompletedAt := k_clock k ''DNSCompletedAt''\<rparr>) s in
     case k_dns k of
       Inl e \<Rightarrow> Inl (fail k e False s)
     | Inr n \<Rightarrow> if n = 0 then Inl (fail k plain_err False s) else event k ''DNS_RESOLVED'' [] 0 [] s)"

text \<open>The addresses are dialled in turn up to the first success; otherwise the last error stands.\<close>

fun dial_loop :: "(nat \<Rightarrow> neterr option) \<Rightarrow> nat \<Rightarrow> nat \<Rightarrow> neterr option" where
  "dial_loop dial i 0 = None"
| "dial_loop dial i (Suc 0) = dial i"
| "dial_loop dial i (Suc n) = (case dial i of None \<Rightarrow> None | Some e \<Rightarrow> dial_loop dial (Suc i) n)"

definition phase_connect :: "call \<Rightarrow> send \<Rightarrow> send + send" where
  "phase_connect k s =
     (let s = set_stage ''CONNECT_ERROR'' s in
      case dial_loop (k_dial k) 0 (case k_dns k of Inr n \<Rightarrow> n | Inl _ \<Rightarrow> 0) of
        Some e \<Rightarrow> Inl (fail k e False s)
      | None \<Rightarrow> event k ''TCP_CONNECTED'' [] 0 []
          (upd_out (\<lambda>q. q\<lparr>o_ConnectedAt := k_clock k ''ConnectedAt'', o_RemoteIP := k_remote k\<rparr>) s))"

definition handshake :: "call \<Rightarrow> send \<Rightarrow> send + send" where
  "handshake k s = (case k_tls k of
     Some e \<Rightarrow> Inl (fail k e False (set_stage ''TLS_ERROR'' s))
   | None \<Rightarrow> event k ''TLS_ESTABLISHED'' [] 0 []
       ((upd_out (\<lambda>q. q\<lparr>o_TLSAt := k_clock k ''TLSAt''\<rparr>) (set_stage ''TLS_ERROR'' s))
          \<lparr>sd_sent := sd_sent s @ [C_TLS]\<rparr>))"

definition phase_greeting :: "call \<Rightarrow> send \<Rightarrow> send + send" where
  "phase_greeting k s =
     bind_res (if p_Security (k_p k) = ''implicit_tls'' then handshake k s else Inr s) (\<lambda>s.
     case read_reply k 220 (set_stage ''SMTP_GREETING_ERROR'' s) of
       ((_, _, Some e), s) \<Rightarrow> Inl (fail k e False s)
     | ((_, _, None), s) \<Rightarrow> event k ''SMTP_GREETING'' [] 220 [] s)"

definition ehlo :: "call \<Rightarrow> send \<Rightarrow> send + send" where
  "ehlo k s = (case command k 250 C_EHLO (set_stage ''EHLO_ERROR'' s) of
     ((_, _, Some e), s) \<Rightarrow> Inl (fail k e False s)
   | ((_, caps, None), s) \<Rightarrow> event k ''EHLO_COMPLETED'' [] 250 caps (s\<lparr>sd_caps := caps\<rparr>))"

definition phase_starttls :: "call \<Rightarrow> send \<Rightarrow> send + send" where
  "phase_starttls k s =
     (if p_Security (k_p k) \<noteq> ''starttls'' then Inr s
      else if \<not> hasCapability (sd_caps s) ''STARTTLS'' then
        Inl (fail k plain_err False (set_stage ''TLS_ERROR'' s))
      else bind_res (command_ok k 220 C_STARTTLS (set_stage ''STARTTLS_ERROR'' s)) (\<lambda>s.
           bind_res (handshake k s) (ehlo k)))"

definition choose_mechanism :: "string list \<Rightarrow> string option" where
  "choose_mechanism ms =
     (if ''PLAIN'' \<in> set ms then Some ''PLAIN'' else if ''LOGIN'' \<in> set ms then Some ''LOGIN'' else None)"

fun auth_loop :: "call \<Rightarrow> nat \<Rightarrow> nat \<Rightarrow> (int \<times> string \<times> neterr option) \<times> send \<Rightarrow> (int \<times> string \<times> neterr option) \<times> send" where
  "auth_loop k i 0 r = r"
| "auth_loop k i (Suc n) ((code, challenge, err), s) =
     (if err = None \<and> code = 334 then
        (case k_sasl_next k i challenge of
           Some e \<Rightarrow> ((code, challenge, Some e), s)
         | None \<Rightarrow> auth_loop k (Suc i) n (command k 0 C_AUTH_RESPONSE s))
      else ((code, challenge, err), s))"

definition authenticate :: "call \<Rightarrow> send \<Rightarrow> send + send" where
  "authenticate k s = (case choose_mechanism (capability (sd_caps s) ''AUTH'') of
     None \<Rightarrow> Inl (fail k plain_err False s)
   | Some mech \<Rightarrow> (case k_sasl_start k mech of
       Some e \<Rightarrow> Inl (fail k e False s)
     | None \<Rightarrow> (case auth_loop k 0 10 (command k 0 C_AUTH s) of
         ((code, _, Some e), s) \<Rightarrow> Inl (fail k e False s)
       | ((code, _, None), s) \<Rightarrow>
           if code \<noteq> 235 then Inl (fail k (reply_err code ''authentication rejected'') False s) else Inr s)))"

definition phase_auth :: "call \<Rightarrow> send \<Rightarrow> send + send" where
  "phase_auth k s =
     (let s = (if k_probe k then upd_out (\<lambda>q. q\<lparr>o_Capabilities := Some (observedCapabilities (sd_caps s))\<rparr>) s else s) in
      bind_res (event k ''AUTH_STARTED'' [] 0 [] s) (\<lambda>s.
      bind_res (authenticate k (set_stage ''AUTH_ERROR'' s)) (\<lambda>s.
        event k ''AUTH_SUCCEEDED'' [] 235 [] (upd_out (\<lambda>q. q\<lparr>o_AuthenticatedAt := k_clock k ''AuthenticatedAt''\<rparr>) s))))"

definition quit :: "call \<Rightarrow> send \<Rightarrow> send" where
  "quit k s =
     (if k_quit k then (case event k ''QUIT_SENT'' [] 0 [] (s\<lparr>sd_sent := sd_sent s @ [C_QUIT]\<rparr>) of Inl s \<Rightarrow> s | Inr s \<Rightarrow> s)
      else s)"

definition phase_probe :: "call \<Rightarrow> send \<Rightarrow> send + send" where
  "phase_probe k s =
     (if k_probe k then Inl (quit k (upd_out (\<lambda>q. q\<lparr>o_Status := READY\<rparr>) s)) else Inr s)"

subsection \<open>Envelope and data\<close>

definition phase_mail :: "call \<Rightarrow> send \<Rightarrow> send + send" where
  "phase_mail k s =
     bind_res (command_ok k 250 (C_MAIL (k_from k)) (set_stage ''MAIL_FROM_REJECTED'' s)) (\<lambda>s.
       event k ''MAIL_FROM_ACCEPTED'' [] 250 [] (upd_out (\<lambda>q. q\<lparr>o_MailFromAt := k_clock k ''MailFromAt''\<rparr>) s))"

definition rcpt_result :: "call \<Rightarrow> recipient \<Rightarrow> status \<Rightarrow> string \<Rightarrow> int \<Rightarrow> string \<Rightarrow> recipient_result" where
  "rcpt_result k r st stage code response = \<lparr>rr_ID = rc_ID r, rr_Status = st, rr_Stage = stage, rr_Code = code,
     rr_Enhanced = enhanced response, rr_Response = safe_text k response\<rparr>"

definition rcpt_step :: "call \<Rightarrow> nat \<Rightarrow> recipient \<Rightarrow> send \<Rightarrow> send + send" where
  "rcpt_step k i r s =
     (case command k 25 (C_RCPT (rc_Address r)) (set_stage ''RCPT_REJECTED'' s) of
        ((code, response, Some e), s) \<Rightarrow>
          if ne_reply e = None then Inl (fail k e False s)
          else event k ''RCPT_REJECTED'' (rc_ID r) code response (upd_out (\<lambda>q. q\<lparr>o_Recipients := (o_Recipients q)[i :=
                 rcpt_result k r (if code \<ge> 500 then PERM_FAILED else TEMP_FAILED) ''RCPT_REJECTED'' code response]\<rparr>) s)
      | ((code, response, None), s) \<Rightarrow>
          event k ''RCPT_ACCEPTED'' (rc_ID r) code response (upd_out (\<lambda>q. q\<lparr>o_Recipients := (o_Recipients q)[i :=
                 rcpt_result k r RCPT_ACCEPTED ''RCPT_ACCEPTED'' code response]\<rparr>) s))"

fun rcpt_loop :: "call \<Rightarrow> nat \<Rightarrow> recipient list \<Rightarrow> send \<Rightarrow> send + send" where
  "rcpt_loop k i [] s = Inr s"
| "rcpt_loop k i (r # rs) s = bind_res (rcpt_step k i r s) (rcpt_loop k (Suc i) rs)"

text \<open>The counter accepted of the code is the number of recipients with status RCPT_ACCEPTED.\<close>

definition phase_rcpt :: "call \<Rightarrow> send \<Rightarrow> send + send" where
  "phase_rcpt k s = bind_res (rcpt_loop k 0 (k_recipients k) s) (\<lambda>s.
     let s = upd_out (\<lambda>q. q\<lparr>o_RcptAt := k_clock k ''RcptAt''\<rparr>) s in
     if \<exists>r \<in> set (o_Recipients (sd_out s)). rr_Status r = RCPT_ACCEPTED then Inr s else Inl s)"

definition phase_fence :: "call \<Rightarrow> send \<Rightarrow> send + send" where
  "phase_fence k s = (case k_before k of None \<Rightarrow> Inr (set_stage ''DATABASE_ERROR'' s) | Some e \<Rightarrow>
     Inl (fail k e False (set_stage (if ne_suppressed e then ''SUPPRESSION_BLOCKED''
       else if ne_expired e then ''EXPIRY_BLOCKED'' else ''DATABASE_ERROR'') s)))"

definition phase_data :: "call \<Rightarrow> send \<Rightarrow> send + send" where
  "phase_data k s =
     bind_res (command_ok k 354 C_DATA (set_stage ''DATA_REJECTED'' s)) (\<lambda>s.
     bind_res (event k ''DATA_STARTED'' [] 354 [] (upd_out (\<lambda>q. q\<lparr>o_DataStartedAt := k_clock k ''DataStartedAt''\<rparr>) s)) (\<lambda>s.
     let t = streamDATA (k_werr k) (k_payload k);
         s = upd_out (\<lambda>q. q\<lparr>o_BytesSent := tr_total t\<rparr>)
               ((set_stage ''DATA_WRITE_ERROR'' s)\<lparr>sd_sent := sd_sent s @ [C_BODY (tr_wire t)]\<rparr>)
     in case tr_err t of
          Some e \<Rightarrow> Inl (fail k (payload_err k e) True s)
        | None \<Rightarrow> event k ''DATA_COMPLETED'' [] 0 []
            (upd_out (\<lambda>q. q\<lparr>o_DataCompletedAt := k_clock k ''DataCompletedAt''\<rparr>) s)))"

definition accept_recipient :: "recipient_result \<Rightarrow> recipient_result" where
  "accept_recipient r =
     (if rr_Status r = RCPT_ACCEPTED then r\<lparr>rr_Status := SMTP_ACCEPTED, rr_Stage := ''FINAL_RESPONSE''\<rparr> else r)"

definition phase_final :: "call \<Rightarrow> send \<Rightarrow> send + send" where
  "phase_final k s =
     (case read_reply k 2 (set_stage ''FINAL_RESPONSE_ERROR'' s) of ((code, response, err), s) \<Rightarrow>
      let s = (if code \<noteq> 0 then upd_out (\<lambda>q. q\<lparr>o_FinalResponseAt := k_clock k ''FinalResponseAt''\<rparr>) s else s) in
      case err of
        Some e \<Rightarrow> Inl (fail k e True s)
      | None \<Rightarrow>
          bind_res (event k ''SMTP_ACCEPTED'' [] code response
            (upd_out (\<lambda>q. q\<lparr>o_FinalResponseAt := k_clock k ''FinalResponseAt'', o_Code := code,
               o_Response := safe_text k response, o_Enhanced := enhanced response,
               o_Recipients := map accept_recipient (o_Recipients q)\<rparr>) s)) (\<lambda>s. Inr (quit k s)))"

subsection \<open>Send and Probe\<close>

definition send_start :: "call \<Rightarrow> send" where
  "send_start k = \<lparr>sd_out = empty_result\<lparr>o_StartedAt := k_clock k ''StartedAt'',
       o_Recipients := map (\<lambda>r. \<lparr>rr_ID = rc_ID r, rr_Status = TEMP_FAILED, rr_Stage = [], rr_Code = 0, rr_Enhanced = [],
                                 rr_Response = []\<rparr>) (k_recipients k)\<rparr>,
     sd_stage = ''CONNECT_ERROR'', sd_replies = 0, sd_caps = [], sd_sent = []\<rparr>"

definition setup_phases :: "call \<Rightarrow> send \<Rightarrow> send + send" where
  "setup_phases k s =
     bind_res (phase_validate k s) (\<lambda>s. bind_res (phase_dns k s) (\<lambda>s. bind_res (phase_connect k s) (\<lambda>s.
     bind_res (phase_greeting k s) (\<lambda>s. bind_res (ehlo k s) (\<lambda>s. bind_res (phase_starttls k s) (phase_auth k))))))"

definition envelope_phases :: "call \<Rightarrow> send \<Rightarrow> send + send" where
  "envelope_phases k s = bind_res (phase_mail k s) (phase_rcpt k)"

definition data_phases :: "call \<Rightarrow> send \<Rightarrow> send + send" where
  "data_phases k s = bind_res (phase_data k s) (phase_final k)"

definition conversation :: "call \<Rightarrow> send \<Rightarrow> send + send" where
  "conversation k s =
     bind_res (setup_phases k s) (\<lambda>s. bind_res (phase_probe k s) (\<lambda>s.
     bind_res (envelope_phases k s) (\<lambda>s. bind_res (phase_fence k s) (data_phases k))))"

definition Send :: "call \<Rightarrow> send" where
  "Send k =
     (let s = (case conversation k (send_start k) of Inl s \<Rightarrow> s | Inr s \<Rightarrow> s);
          out = (sd_out s)\<lparr>o_Stage := sd_stage s, o_FinishedAt := k_clock k ''FinishedAt''\<rparr>
      in s\<lparr>sd_out := if k_probe k then out else Aggregate out\<rparr>)"

definition Probe :: "call \<Rightarrow> send" where
  "Probe k = Send (k\<lparr>k_probe := True, k_from := [], k_recipients := [], k_record := None\<rparr>)"


end
