(* ===== verification/Smtp_Evidence.thy ===== *)
theory Smtp_Evidence
  imports Smtp_Send
begin

text \<open>
  What the evidence of an SMTP conversation means: invariants of the phases of Smtp_Send, proved with Hoare triples, and
  the contract of Send that the queue relies on when it decides about retries.
\<close>

subsection \<open>The view of a state the properties need\<close>

record view =
  v_recs :: "recipient_result list"
  v_data :: time
  v_final :: time
  v_code :: int
  v_sent :: "cmd list"

definition view :: "send \<Rightarrow> view" where
  "view s = \<lparr>v_recs = o_Recipients (sd_out s), v_data = o_DataStartedAt (sd_out s), v_final = o_FinalResponseAt (sd_out s),
     v_code = o_Code (sd_out s), v_sent = sd_sent s\<rparr>"

text \<open>Everything before the TLS handshake is EHLO or STARTTLS.\<close>

definition secure :: "cmd list \<Rightarrow> bool" where
  "secure cs = (\<forall>c \<in> set (takeWhile (\<lambda>c. c \<noteq> C_TLS) cs). c \<in> {C_EHLO, C_STARTTLS})"

definition is_data :: "cmd \<Rightarrow> bool" where
  "is_data c = (case c of C_DATA \<Rightarrow> True | C_BODY b \<Rightarrow> True | _ \<Rightarrow> False)"

definition is_setup :: "cmd \<Rightarrow> bool" where
  "is_setup c = (c \<in> {C_EHLO, C_STARTTLS, C_TLS, C_AUTH, C_AUTH_RESPONSE})"

definition same_ids :: "call \<Rightarrow> view \<Rightarrow> bool" where
  "same_ids k v = (map rr_ID (v_recs v) = map rc_ID (k_recipients k))"

text \<open>A recipient before its RCPT, and after it; a permanent failure comes with a code from 500 on.\<close>

definition fresh :: "recipient_result \<Rightarrow> bool" where
  "fresh r = (rr_Status r = TEMP_FAILED \<and> rr_Code r = 0)"

definition hard :: "recipient_result \<Rightarrow> bool" where
  "hard r = (rr_Status r = PERM_FAILED \<longrightarrow> 500 \<le> rr_Code r)"

definition rejected :: "recipient_result \<Rightarrow> bool" where
  "rejected r = (rr_Status r \<in> {TEMP_FAILED, PERM_FAILED} \<and> rr_Stage r = ''RCPT_REJECTED'' \<and> rr_Code r \<noteq> 0 \<and> hard r)"

definition settled :: "recipient_result \<Rightarrow> bool" where
  "settled r = (rejected r \<or> rr_Status r = RCPT_ACCEPTED)"

text \<open>
  The states before DATA, those of the setup, of the RCPT loop before its i-th turn, and those in which Send returns before DATA was accepted.
\<close>

definition Pre :: "call \<Rightarrow> view \<Rightarrow> bool" where
  "Pre k v \<longleftrightarrow> same_ids k v \<and> v_data v = 0 \<and> v_final v = 0 \<and> secure (v_sent v)
     \<and> (\<forall>c \<in> set (v_sent v). \<not> is_data c) \<and> (\<forall>r \<in> set (v_recs v). fresh r \<or> settled r)
     \<and> (k_probe k \<longrightarrow> (\<forall>c \<in> set (v_sent v). is_setup c \<or> c = C_QUIT))"

definition Setup :: "call \<Rightarrow> view \<Rightarrow> bool" where
  "Setup k v \<longleftrightarrow> Pre k v \<and> (\<forall>r \<in> set (v_recs v). fresh r) \<and> (\<forall>c \<in> set (v_sent v). is_setup c)"

definition Secured :: "call \<Rightarrow> view \<Rightarrow> bool" where
  "Secured k v \<longleftrightarrow> Setup k v \<and> C_TLS \<in> set (v_sent v)"

definition Envelope :: "call \<Rightarrow> nat \<Rightarrow> view \<Rightarrow> bool" where
  "Envelope k i v \<longleftrightarrow> Pre k v \<and> \<not> k_probe k \<and> C_TLS \<in> set (v_sent v)
     \<and> (\<forall>j < length (v_recs v). if j < i then settled (v_recs v ! j) else fresh (v_recs v ! j))"

definition Stop :: "call \<Rightarrow> view \<Rightarrow> bool" where
  "Stop k v \<longleftrightarrow> same_ids k v \<and> v_data v = 0 \<and> v_final v = 0 \<and> secure (v_sent v)
     \<and> (\<forall>c \<in> set (v_sent v). c = C_DATA \<longrightarrow> k_before k = None) \<and> (\<forall>c \<in> set (v_sent v). is_data c \<longrightarrow> c = C_DATA)
     \<and> (\<forall>r \<in> set (v_recs v). rr_Status r \<in> {TEMP_FAILED, PERM_FAILED} \<and> hard r)
     \<and> (k_probe k \<longrightarrow> (\<forall>c \<in> set (v_sent v). is_setup c \<or> c = C_QUIT))"

lemmas view_defs = same_ids_def fresh_def hard_def rejected_def settled_def

lemma secure_append:
  assumes "secure cs" and "C_TLS \<in> set cs \<or> c \<in> {C_EHLO, C_STARTTLS, C_TLS}"
  shows "secure (cs @ [c])"
proof (cases "C_TLS \<in> set cs")
  case True
  then have "takeWhile (\<lambda>c. c \<noteq> C_TLS) (cs @ [c]) = takeWhile (\<lambda>c. c \<noteq> C_TLS) cs"
    by (intro takeWhile_append1) auto
  with assms(1) show ?thesis by (simp add: secure_def)
next
  case False
  then have "takeWhile (\<lambda>c. c \<noteq> C_TLS) (cs @ [c]) = cs @ takeWhile (\<lambda>c. c \<noteq> C_TLS) [c]"
    by (subst takeWhile_append2) auto
  moreover have "takeWhile (\<lambda>c. c \<noteq> C_TLS) cs = cs"
    using False by (auto simp: takeWhile_eq_all_conv)
  with assms(1) have "\<forall>x \<in> set cs. x \<in> {C_EHLO, C_STARTTLS}" unfolding secure_def by metis
  ultimately show ?thesis using assms(2) False by (auto simp: secure_def)
qed

lemma fail_status_before: "fail_status e False \<in> {TEMP_FAILED, PERM_FAILED}"
  by (auto simp: fail_status_def split: option.splits)

lemma fail_recipient_id [simp]: "rr_ID (fail_recipient st stage out r) = rr_ID r"
  by (simp add: fail_recipient_def)

lemma fail_recipient_ids [simp]: "rr_ID \<circ> fail_recipient st stage out = rr_ID"
  by (simp add: fun_eq_iff)

lemma view_fail:
  "\<exists>out. view (fail k e u s) = (view s)\<lparr>v_recs := map (fail_recipient (fail_status e u) (sd_stage s) out) (v_recs (view s)),
     v_code := (case ne_reply e of Some (c, m) \<Rightarrow> c | None \<Rightarrow> v_code (view s))\<rparr>
     \<and> o_Code out = v_code (view (fail k e u s))"
  by (auto simp: view_def fail_def fail_out_def Let_def split: option.splits)

lemma failed_before:
  assumes "fresh r \<or> settled r" "o_Code out = (case ne_reply e of Some (c, m) \<Rightarrow> c | None \<Rightarrow> v)"
  shows "rr_Status (fail_recipient (fail_status e False) stage out r) \<in> {TEMP_FAILED, PERM_FAILED} \<and> hard (fail_recipient (fail_status e False) stage out r)"
proof (cases "rr_Status r = RCPT_ACCEPTED \<or> (rr_Status r = TEMP_FAILED \<and> rr_Code r = 0)")
  case True
  then have "rr_Status (fail_recipient (fail_status e False) stage out r) = fail_status e False" "rr_Code (fail_recipient (fail_status e False) stage out r) = o_Code out"
    by (simp_all add: fail_recipient_def)
  moreover have "fail_status e False = PERM_FAILED \<Longrightarrow> 500 \<le> o_Code out" using assms(2) by (auto simp: fail_status_def split: option.splits if_splits)
  ultimately show ?thesis using fail_status_before [of e] unfolding hard_def by metis
next
  case False
  then show ?thesis using assms(1) by (auto simp: fail_recipient_def view_defs)
qed

lemma fail_Pre: "Pre k (view s) \<Longrightarrow> Stop k (view (fail k e False s))"
proof -
  assume P: "Pre k (view s)"
  obtain out where v: "view (fail k e False s) = (view s)\<lparr>v_recs := map (fail_recipient (fail_status e False) (sd_stage s) out) (v_recs (view s)),
     v_code := (case ne_reply e of Some (c, m) \<Rightarrow> c | None \<Rightarrow> v_code (view s))\<rparr>"
    and code: "o_Code out = v_code (view (fail k e False s))"
    using view_fail by blast
  have "rr_Status (fail_recipient (fail_status e False) (sd_stage s) out r) \<in> {TEMP_FAILED, PERM_FAILED} \<and> hard (fail_recipient (fail_status e False) (sd_stage s) out r)"
    if "r \<in> set (v_recs (view s))" for r
    using P that code unfolding v by (intro failed_before [where v = "v_code (view s)"]) (auto simp: Pre_def)
  with P show ?thesis
    by (auto simp: v Pre_def Stop_def same_ids_def is_data_def)
qed

lemma view_set_stage [simp]: "view (set_stage st s) = view s"
  by (simp add: view_def)

lemma view_upd_out [simp]:
  assumes "o_Recipients (f (sd_out s)) = o_Recipients (sd_out s)" and "o_DataStartedAt (f (sd_out s)) = o_DataStartedAt (sd_out s)"
    and "o_FinalResponseAt (f (sd_out s)) = o_FinalResponseAt (sd_out s)" and "o_Code (f (sd_out s)) = o_Code (sd_out s)"
  shows "view (upd_out f s) = view s"
  using assms by (simp add: view_def)

lemma view_other [simp]: "view (s\<lparr>sd_replies := m\<rparr>) = view s" "view (s\<lparr>sd_caps := cs\<rparr>) = view s"
  by (simp_all add: view_def)

lemma view_sent [simp]: "view (s\<lparr>sd_sent := cs\<rparr>) = (view s)\<lparr>v_sent := cs\<rparr>" "v_sent (view s) = sd_sent s"
  by (simp_all add: view_def)

text \<open>An event that is recorded, or whose recorder fails after DATA, leaves the view; otherwise the attempt fails.\<close>

lemma event_view: "event k kind rid code resp s = Inr t \<Longrightarrow> view t = view s"
  by (auto simp: event_def view_def Let_def split: option.splits if_splits)

lemma event_fail:
  assumes "event k kind rid code resp s = Inl t"
  shows "v_data (view s) = 0 \<and> (\<exists>s' e. view s' = view s \<and> t = fail k e False s')"
proof -
  obtain s' e where "t = fail k e False s'" and "view s' = view s" and "o_DataStartedAt (sd_out s) = 0"
    using assms by (auto simp: event_def Let_def split: option.splits if_splits)
  then show ?thesis by (auto simp: view_def)
qed

lemma event_ok:
  assumes "P (view s)" and "\<And>v. P v \<Longrightarrow> Pre k v"
  shows "res_ok (\<lambda>t. P (view t)) (\<lambda>t. Stop k (view t)) (event k kind rid code resp s)"
proof (cases "event k kind rid code resp s")
  case (Inl t)
  then obtain s' e where "view s' = view s" and "t = fail k e False s'" using event_fail by blast
  with assms Inl show ?thesis by (simp add: fail_Pre)
next
  case (Inr t)
  with assms(1) event_view show ?thesis by simp
qed

lemma command_view:
  "command k expected c s = (r, t) \<Longrightarrow> view t = (view s)\<lparr>v_sent := sd_sent s @ [c]\<rparr>"
  by (auto simp: command_def view_def)

lemma read_reply_view: "read_reply k expected s = (r, t) \<Longrightarrow> view t = view s"
  by (auto simp: read_reply_def view_def)

subsection \<open>The phases before MAIL\<close>

lemma Setup_Pre: "Setup k v \<Longrightarrow> Pre k v"
  by (simp add: Setup_def)

lemma Secured_Setup: "Secured k v \<Longrightarrow> Setup k v"
  by (simp add: Secured_def)

lemma Setup_sent:
  assumes "Setup k (view s)" and "is_setup c" and "C_TLS \<in> set (sd_sent s) \<or> c \<in> {C_EHLO, C_STARTTLS, C_TLS}"
  shows "Setup k ((view s)\<lparr>v_sent := sd_sent s @ [c]\<rparr>)"
  using assms secure_append [of "sd_sent s" c]
  by (auto simp: Setup_def Pre_def same_ids_def is_setup_def is_data_def)

lemma fail_Setup: "Setup k (view s) \<Longrightarrow> Stop k (view (fail k e False s))"
  by (intro fail_Pre Setup_Pre)

abbreviation stops :: "call \<Rightarrow> send \<Rightarrow> bool" where
  "stops k \<equiv> (\<lambda>t. Stop k (view t))"

lemma phase_validate_ok:
  "Setup k (view s) \<Longrightarrow> res_ok (\<lambda>t. Setup k (view t) \<and> p_Security (k_p k) \<in> {''starttls'', ''implicit_tls''})
     (stops k) (phase_validate k s)"
  by (auto simp: phase_validate_def fail_Setup split: sum.splits)

lemma phase_dns_ok:
  "Setup k (view s) \<Longrightarrow> res_ok (\<lambda>t. Setup k (view t)) (stops k) (phase_dns k s)"
  unfolding phase_dns_def
  by (rule res_ok_bind, rule event_ok [where P = "Setup k"])
    (auto simp: Let_def fail_Setup intro!: event_ok [where P = "Setup k"] dest: Setup_Pre split: sum.splits)

lemma phase_connect_ok:
  "Setup k (view s) \<Longrightarrow> res_ok (\<lambda>t. Setup k (view t)) (stops k) (phase_connect k s)"
  by (auto simp: phase_connect_def Let_def fail_Setup intro!: event_ok [where P = "Setup k"] dest: Setup_Pre split: option.splits)

lemma handshake_ok:
  assumes "Setup k (view s)"
  shows "res_ok (\<lambda>t. Secured k (view t)) (stops k) (handshake k s)"
proof -
  have "Secured k ((view s)\<lparr>v_sent := sd_sent s @ [C_TLS]\<rparr>)"
    using Setup_sent [OF assms, of C_TLS] by (simp add: Secured_def is_setup_def)
  with assms show ?thesis
    by (auto simp: handshake_def fail_Setup intro!: event_ok [where P = "Secured k"] dest: Secured_Setup Setup_Pre split: option.splits)
qed

lemma phase_greeting_ok:
  assumes "Setup k (view s)"
  shows "res_ok (\<lambda>t. Setup k (view t) \<and> (p_Security (k_p k) = ''implicit_tls'' \<longrightarrow> C_TLS \<in> set (sd_sent t)))
    (stops k) (phase_greeting k s)"
proof -
  let ?P = "\<lambda>v. Setup k v \<and> (p_Security (k_p k) = ''implicit_tls'' \<longrightarrow> C_TLS \<in> set (v_sent v))"
  have "res_ok (\<lambda>t. ?P (view t)) (stops k) (if p_Security (k_p k) = ''implicit_tls'' then handshake k s else Inr s)"
    using assms handshake_ok [OF assms] by (auto simp: Secured_def elim: res_ok_conseq)
  moreover have "res_ok (\<lambda>u. ?P (view u)) (stops k) (case read_reply k 220 (set_stage ''SMTP_GREETING_ERROR'' t) of
       ((_, _, Some e), s) \<Rightarrow> Inl (fail k e False s) | ((_, _, None), s) \<Rightarrow> event k ''SMTP_GREETING'' [] 220 [] s)"
    if P: "?P (view t)" for t
  proof -
    obtain a b e u where r: "read_reply k 220 (set_stage ''SMTP_GREETING_ERROR'' t) = ((a, b, e), u)"
      by (cases "read_reply k 220 (set_stage ''SMTP_GREETING_ERROR'' t)") auto
    then have "?P (view u)" using P read_reply_view [OF r] by simp
    then show ?thesis
      using event_ok [where P = ?P and k = k and s = u, OF _ Setup_Pre] fail_Setup [of k u]
      by (cases e) (simp_all add: r)
  qed
  ultimately have "res_ok (\<lambda>t. ?P (view t)) (stops k) (phase_greeting k s)"
    unfolding phase_greeting_def by (rule res_ok_bind)
  then show ?thesis by simp
qed

lemma command_Setup:
  assumes "Setup k (view s)" and "command k expected c s = (r, t)" and "is_setup c"
    and "C_TLS \<in> set (sd_sent s) \<or> c \<in> {C_EHLO, C_STARTTLS, C_TLS}"
  shows "Setup k (view t)" and "set (sd_sent t) = insert c (set (sd_sent s))"
  using assms Setup_sent [of k s c] command_view [OF assms(2)] by (auto simp: command_def)

text \<open>A command of the setup whose reply is all that matters keeps the conditions of the setup.\<close>

lemma command_ok_ok:
  assumes "Setup k (view s)" and "is_setup c" and "C_TLS \<in> set (sd_sent s) \<or> c \<in> {C_EHLO, C_STARTTLS, C_TLS}"
  shows "res_ok (\<lambda>t. Setup k (view t) \<and> set (sd_sent s) \<subseteq> set (sd_sent t)) (stops k) (command_ok k expected c s)"
proof -
  obtain a b e t where c: "command k expected c s = ((a, b, e), t)" by (cases "command k expected c s") auto
  note t = command_Setup [OF assms(1) c assms(2,3)]
  then show ?thesis by (cases e) (auto simp: command_ok_def c fail_Setup)
qed

lemma ehlo_ok:
  assumes "Setup k (view s)"
  shows "res_ok (\<lambda>t. Setup k (view t) \<and> (C_TLS \<in> set (sd_sent s) \<longrightarrow> C_TLS \<in> set (sd_sent t))) (stops k) (ehlo k s)"
proof -
  let ?P = "\<lambda>v. Setup k v \<and> (C_TLS \<in> set (sd_sent s) \<longrightarrow> C_TLS \<in> set (v_sent v))"
  obtain a caps e t where c: "command k 250 C_EHLO (set_stage ''EHLO_ERROR'' s) = ((a, caps, e), t)"
    by (cases "command k 250 C_EHLO (set_stage ''EHLO_ERROR'' s)") auto
  have "Setup k (view t)" "set (sd_sent t) = insert C_EHLO (set (sd_sent s))"
    using command_Setup [OF _ c] assms by (simp_all add: is_setup_def)
  then show ?thesis
    using event_ok [where P = ?P and k = k and s = "t\<lparr>sd_caps := caps\<rparr>", OF _ Setup_Pre] fail_Setup [of k t]
    by (cases e) (simp_all add: ehlo_def c)
qed

lemma phase_starttls_ok:
  assumes "Setup k (view s)" and "p_Security (k_p k) \<in> {''starttls'', ''implicit_tls''}"
    and "p_Security (k_p k) = ''implicit_tls'' \<longrightarrow> C_TLS \<in> set (sd_sent s)"
  shows "res_ok (\<lambda>t. Secured k (view t)) (stops k) (phase_starttls k s)"
proof -
  have "res_ok (\<lambda>t. Secured k (view t)) (stops k) (bind_res (handshake k t) (ehlo k))" if "Setup k (view t)" for t
    using handshake_ok [OF that]
    by (rule res_ok_bind) (rule res_ok_conseq [OF ehlo_ok], auto simp: Secured_def)
  moreover have "res_ok (\<lambda>t. Setup k (view t)) (stops k) (command_ok k 220 C_STARTTLS (set_stage ''STARTTLS_ERROR'' s))"
    by (rule res_ok_conseq [OF command_ok_ok]) (use assms in \<open>auto simp: is_setup_def\<close>)
  ultimately have "res_ok (\<lambda>t. Secured k (view t)) (stops k)
      (bind_res (command_ok k 220 C_STARTTLS (set_stage ''STARTTLS_ERROR'' s)) (\<lambda>s. bind_res (handshake k s) (ehlo k)))"
    by (rule res_ok_bind [rotated])
  with assms show ?thesis by (auto simp: phase_starttls_def Secured_def fail_Setup)
qed

lemma command_Secured:
  assumes "Secured k (view s)" and "command k expected c s = (r, t)" and "is_setup c"
  shows "Secured k (view t)"
  using assms command_Setup [of k s expected c r t] by (auto simp: Secured_def)

lemma auth_loop_Secured:
  "auth_loop k i n ((code, ch, e), s) = (r, t) \<Longrightarrow> Secured k (view s) \<Longrightarrow> Secured k (view t)"
proof (induction n arbitrary: i code ch e s)
  case (Suc n)
  obtain a b e' u where c: "command k 0 C_AUTH_RESPONSE s = ((a, b, e'), u)"
    by (cases "command k 0 C_AUTH_RESPONSE s") auto
  have "Secured k (view u)" using command_Secured [OF Suc.prems(2) c] by (simp add: is_setup_def)
  with Suc c show ?case by (auto split: if_splits option.splits)
qed simp

lemma authenticate_ok:
  assumes "Secured k (view s)"
  shows "res_ok (\<lambda>t. Secured k (view t)) (stops k) (authenticate k s)"
proof -
  obtain a b e u where c: "command k 0 C_AUTH s = ((a, b, e), u)" by (cases "command k 0 C_AUTH s") auto
  obtain code ch e' t where l: "auth_loop k 0 10 ((a, b, e), u) = ((code, ch, e'), t)"
    by (cases "auth_loop k 0 10 ((a, b, e), u)") auto
  have "Secured k (view t)"
    using auth_loop_Secured [OF l] command_Secured [OF assms c] by (simp add: is_setup_def)
  with assms show ?thesis
    using fail_Setup [of k s] fail_Setup [of k t]
    by (cases e') (auto simp: authenticate_def c l Secured_def split: option.splits)
qed

lemma phase_auth_ok:
  assumes "Secured k (view s)"
  shows "res_ok (\<lambda>t. Secured k (view t)) (stops k) (phase_auth k s)"
proof -
  let ?s = "if k_probe k then upd_out (\<lambda>q. q\<lparr>o_Capabilities := Some (observedCapabilities (sd_caps s))\<rparr>) s else s"
  have pre: "Secured k v \<Longrightarrow> Pre k v" for v by (simp add: Secured_def Setup_def)
  have s: "Secured k (view ?s)" using assms by simp
  show ?thesis
    unfolding phase_auth_def Let_def
    by (intro res_ok_bind [OF event_ok [where P = "Secured k"]] res_ok_bind [OF authenticate_ok]
        event_ok [where P = "Secured k"] pre s) (simp_all add: pre)
qed

lemma setup_phases_ok:
  assumes "Setup k (view s)"
  shows "res_ok (\<lambda>t. Secured k (view t)) (stops k) (setup_phases k s)"
  unfolding setup_phases_def
proof (intro res_ok_bind [OF phase_validate_ok [OF assms]], clarify)
  fix s assume s: "Setup k (view s)" and sec: "p_Security (k_p k) \<in> {''starttls'', ''implicit_tls''}"
  show "res_ok (\<lambda>t. Secured k (view t)) (stops k) (bind_res (phase_dns k s) (\<lambda>s. bind_res (phase_connect k s) (\<lambda>s.
     bind_res (phase_greeting k s) (\<lambda>s. bind_res (ehlo k s) (\<lambda>s. bind_res (phase_starttls k s) (phase_auth k))))))"
  proof (intro res_ok_bind [OF phase_dns_ok [OF s]] res_ok_bind [OF phase_connect_ok] res_ok_bind [OF phase_greeting_ok])
    fix s assume "Setup k (view s) \<and> (p_Security (k_p k) = ''implicit_tls'' \<longrightarrow> C_TLS \<in> set (sd_sent s))"
    with sec show "res_ok (\<lambda>t. Secured k (view t)) (stops k) (bind_res (ehlo k s) (\<lambda>s. bind_res (phase_starttls k s) (phase_auth k)))"
      by (intro res_ok_bind [OF ehlo_ok] res_ok_bind [OF phase_starttls_ok] phase_auth_ok) auto
  qed
qed

subsection \<open>Envelope\<close>

lemma Envelope_Pre: "Envelope k i v \<Longrightarrow> Pre k v"
  by (simp add: Envelope_def)

lemma Secured_Envelope: "Secured k v \<Longrightarrow> \<not> k_probe k \<Longrightarrow> Envelope k 0 v"
  by (simp add: Secured_def Setup_def Envelope_def)

lemma Envelope_sent:
  assumes "Envelope k i (view s)" and "\<not> is_data c" and "command k expected c s = (r, t)"
  shows "Envelope k i (view t)"
  using assms(1,2) secure_append [of "sd_sent s" c]
  by (auto simp: command_view [OF assms(3)] Envelope_def Pre_def same_ids_def)

lemma phase_mail_ok:
  assumes "Secured k (view s)" and "\<not> k_probe k"
  shows "res_ok (\<lambda>t. Envelope k 0 (view t)) (stops k) (phase_mail k s)"
proof -
  let ?c = "command k 250 (C_MAIL (k_from k)) (set_stage ''MAIL_FROM_REJECTED'' s)"
  obtain a b e t where c: "?c = ((a, b, e), t)" by (cases ?c) auto
  have t: "Envelope k 0 (view t)"
    using Secured_Envelope [OF assms] Envelope_sent [OF _ _ c] by (simp add: is_data_def)
  then have "res_ok (\<lambda>t. Envelope k 0 (view t)) (stops k)
      (command_ok k 250 (C_MAIL (k_from k)) (set_stage ''MAIL_FROM_REJECTED'' s))"
    using fail_Pre [OF Envelope_Pre [OF t]] by (cases e) (simp_all add: command_ok_def c)
  then show ?thesis
    unfolding phase_mail_def
    by (rule res_ok_bind) (rule event_ok [where P = "Envelope k 0"], simp_all add: Envelope_Pre)
qed

lemma read_response_code: "read_response expected w = (code, msg, e) \<Longrightarrow> e = None \<or> ne_reply (the e) \<noteq> None \<Longrightarrow> 100 \<le> code"
  by (cases w) (auto simp: plain_err_def split: if_splits)

lemma read_response_reply:
  "read_response expected w = (code, msg, Some e) \<Longrightarrow> ne_reply e = Some (c, m) \<Longrightarrow> c = code \<and> 100 \<le> code"
  by (cases w) (auto simp: plain_err_def reply_err_def split: if_splits)

lemma Envelope_rcpt:
  assumes "Envelope k i (view s)" and "i < length (k_recipients k)" and "settled q" and "rr_ID q = rc_ID (k_recipients k ! i)"
  shows "Envelope k (Suc i) (view (upd_out (\<lambda>r. r\<lparr>o_Recipients := (o_Recipients r)[i := q]\<rparr>) s))"
proof -
  let ?rs = "v_recs (view s)"
  have ids: "map rr_ID ?rs = map rc_ID (k_recipients k)"
    and st: "\<forall>j < length ?rs. if j < i then settled (?rs ! j) else fresh (?rs ! j)"
    and all: "\<forall>r \<in> set ?rs. fresh r \<or> settled r"
    using assms(1) by (auto simp: Envelope_def Pre_def same_ids_def)
  have "map rr_ID (?rs[i := q]) = map rc_ID (k_recipients k)"
    using ids assms(2,4) by (simp add: map_update) (metis list_update_id nth_map)
  moreover have "\<forall>j < length ?rs. if j < Suc i then settled (?rs[i := q] ! j) else fresh (?rs[i := q] ! j)"
    using st assms(3) by (auto simp: nth_list_update less_Suc_eq)
  moreover have "\<forall>r \<in> set (?rs[i := q]). fresh r \<or> settled r"
    using all assms(3) by (auto dest: set_update_subset_insert [THEN subsetD])
  moreover have "view (upd_out (\<lambda>r. r\<lparr>o_Recipients := (o_Recipients r)[i := q]\<rparr>) s) = (view s)\<lparr>v_recs := ?rs[i := q]\<rparr>"
    by (simp add: view_def)
  ultimately show ?thesis
    using assms(1) by (simp add: Envelope_def Pre_def same_ids_def)
qed

lemma rcpt_step_ok:
  assumes E: "Envelope k i (view s)" and i: "i < length (k_recipients k)" and r: "r = k_recipients k ! i"
  shows "res_ok (\<lambda>t. Envelope k (Suc i) (view t)) (stops k) (rcpt_step k i r s)"
proof -
  let ?c = "command k 25 (C_RCPT (rc_Address r)) (set_stage ''RCPT_REJECTED'' s)"
  obtain code resp e t where c: "?c = ((code, resp, e), t)" by (cases ?c) auto
  have t: "Envelope k i (view t)" using E Envelope_sent [OF _ _ c] by (simp add: is_data_def)
  from c have rr: "read_response 25 (k_reply k (sd_replies s)) = (code, resp, e)" by (simp add: command_def)
  note ev = event_ok [where P = "Envelope k (Suc i)" and k = k, OF Envelope_rcpt [OF t i] Envelope_Pre]
  show ?thesis
  proof (cases "e = None \<or> ne_reply (the e) \<noteq> None")
    case True
    then have "code \<noteq> 0" using read_response_code [OF rr] by simp
    with True show ?thesis
      unfolding rcpt_step_def c
      by (cases e) (auto simp: r rcpt_result_def settled_def rejected_def hard_def intro!: ev)
  next
    case False
    then show ?thesis using fail_Pre [OF Envelope_Pre [OF t]] by (auto simp: rcpt_step_def c)
  qed
qed

lemma rcpt_loop_ok:
  assumes "Envelope k i (view s)" and "rs = drop i (k_recipients k)" and "i \<le> length (k_recipients k)"
  shows "res_ok (\<lambda>t. Envelope k (length (k_recipients k)) (view t)) (stops k) (rcpt_loop k i rs s)"
  using assms
proof (induction rs arbitrary: i s)
  case (Cons r rs)
  have i: "i < length (k_recipients k)" using Cons.prems(2) by (metis drop_all linorder_not_le list.distinct(1))
  with Cons.prems(2) have r: "r = k_recipients k ! i" and rs: "rs = drop (Suc i) (k_recipients k)"
    by (simp_all add: Cons_nth_drop_Suc [symmetric])
  show ?case
    using Cons.IH [OF _ rs] i by (auto intro!: res_ok_bind [OF rcpt_step_ok [OF Cons.prems(1) i r]])
qed simp

definition Ready :: "call \<Rightarrow> view \<Rightarrow> bool" where
  "Ready k v \<longleftrightarrow> Pre k v \<and> \<not> k_probe k \<and> C_TLS \<in> set (v_sent v) \<and> (\<forall>r \<in> set (v_recs v). settled r)"

lemma Envelope_Ready: "Envelope k (length (k_recipients k)) v \<Longrightarrow> Ready k v"
proof -
  assume E: "Envelope k (length (k_recipients k)) v"
  then have "length (v_recs v) = length (k_recipients k)"
    by (auto simp: Envelope_def Pre_def same_ids_def dest: map_eq_imp_length_eq)
  with E show ?thesis by (auto simp: Envelope_def Ready_def in_set_conv_nth)
qed

lemma envelope_phases_ok:
  assumes "Secured k (view s)" and "\<not> k_probe k"
  shows "res_ok (\<lambda>t. Ready k (view t)) (stops k) (envelope_phases k s)"
proof -
  have "res_ok (\<lambda>t. Ready k (view t)) (stops k) (phase_rcpt k s)" if s: "Envelope k 0 (view s)" for s
  proof -
    have R: "res_ok (\<lambda>t. Ready k (view t)) (stops k) (rcpt_loop k 0 (k_recipients k) s)"
      using rcpt_loop_ok [OF s] by (rule res_ok_conseq) (auto intro: Envelope_Ready)
    have "Stop k (view t)" if "Ready k (view t)" and "\<forall>r \<in> set (v_recs (view t)). rr_Status r \<noteq> RCPT_ACCEPTED" for t
      using that by (auto simp: Ready_def Pre_def Stop_def settled_def rejected_def is_data_def)
    then show ?thesis
      unfolding phase_rcpt_def by (intro res_ok_bind [OF R]) (auto simp: Let_def, auto simp: view_def)
  qed
  then show ?thesis unfolding envelope_phases_def by (intro res_ok_bind [OF phase_mail_ok [OF assms]])
qed

subsection \<open>Data\<close>

text \<open>The clock does not read Go's zero time.\<close>

definition running :: "call \<Rightarrow> bool" where
  "running k \<longleftrightarrow> k_clock k ''DataStartedAt'' \<noteq> 0 \<and> k_clock k ''FinalResponseAt'' \<noteq> 0"

definition Transfer :: "call \<Rightarrow> view \<Rightarrow> bool" where
  "Transfer k v \<longleftrightarrow> \<not> k_probe k \<and> same_ids k v \<and> v_data v \<noteq> 0 \<and> v_final v = 0 \<and> k_before k = None \<and> secure (v_sent v)
     \<and> C_TLS \<in> set (v_sent v) \<and> (\<forall>r \<in> set (v_recs v). settled r)"

text \<open>What each recipient not rejected at RCPT has after DATA was accepted.\<close>

definition concluded :: "call \<Rightarrow> view \<Rightarrow> recipient_result \<Rightarrow> bool" where
  "concluded k v r \<longleftrightarrow> rr_Status r = DELIVERY_UNKNOWN
     \<or> v_final v \<noteq> 0 \<and> tr_err (streamDATA (k_werr k) (k_payload k)) = None \<and>
        (rr_Status r = SMTP_ACCEPTED \<and> 200 \<le> v_code v \<and> v_code v < 300
         \<or> rr_Status r = TEMP_FAILED \<and> 400 \<le> v_code v \<and> v_code v < 500
         \<or> rr_Status r = PERM_FAILED \<and> 500 \<le> v_code v \<and> v_code v < 600 \<and> hard r)"

definition Done :: "call \<Rightarrow> view \<Rightarrow> bool" where
  "Done k v \<longleftrightarrow> \<not> k_probe k \<and> same_ids k v \<and> v_data v \<noteq> 0 \<and> k_before k = None \<and> secure (v_sent v)
     \<and> (\<forall>r \<in> set (v_recs v). rejected r \<or> concluded k v r)"

lemma event_after_data: "v_data (view s) \<noteq> 0 \<Longrightarrow> \<exists>t. event k kind rid code resp s = Inr t \<and> view t = view s"
  by (cases "event k kind rid code resp s") (metis event_fail, metis event_view)

lemma settled_fail:
  assumes "settled r"
  shows "fail_recipient st stage out r = r \<and> rejected r
    \<or> fail_recipient st stage out r = r\<lparr>rr_Status := st, rr_Stage := stage, rr_Code := o_Code out,
        rr_Response := o_Response out, rr_Enhanced := o_Enhanced out\<rparr>"
  using assms by (auto simp: settled_def rejected_def fail_recipient_def)

lemma fail_Transfer:
  assumes T: "\<not> k_probe k" "same_ids k (view s)" "v_data (view s) \<noteq> 0" "k_before k = None" "secure (sd_sent s)" "\<forall>r \<in> set (v_recs (view s)). settled r"
    and E: "\<And>c m. ne_reply e = Some (c, m) \<Longrightarrow>
      v_final (view s) \<noteq> 0 \<and> tr_err (streamDATA (k_werr k) (k_payload k)) = None"
  shows "Done k (view (fail k e True s))"
proof -
  obtain out where v: "view (fail k e True s) = (view s)\<lparr>v_recs := map (fail_recipient (fail_status e True) (sd_stage s) out) (v_recs (view s)),
     v_code := (case ne_reply e of Some (c, m) \<Rightarrow> c | None \<Rightarrow> v_code (view s))\<rparr>"
    and code: "o_Code out = v_code (view (fail k e True s))"
    using view_fail by blast
  have "rejected (fail_recipient (fail_status e True) (sd_stage s) out r)
      \<or> concluded k (view (fail k e True s)) (fail_recipient (fail_status e True) (sd_stage s) out r)"
    if "r \<in> set (v_recs (view s))" for r
  proof -
    have "concluded k (view (fail k e True s)) (q\<lparr>rr_Status := fail_status e True, rr_Code := o_Code out\<rparr>)" for q
      using E code by (auto simp: concluded_def fail_status_def v hard_def split: option.splits)
    then have "concluded k (view (fail k e True s)) (r\<lparr>rr_Status := fail_status e True, rr_Stage := sd_stage s, rr_Code := o_Code out,
        rr_Response := o_Response out, rr_Enhanced := o_Enhanced out\<rparr>)"
      by (auto simp: concluded_def hard_def)
    moreover have "settled r" using T(6) that by blast
    ultimately show ?thesis using settled_fail [of r "fail_status e True" "sd_stage s" out] by presburger
  qed
  with T show ?thesis by (auto simp: v Done_def same_ids_def)
qed

abbreviation ends :: "call \<Rightarrow> send \<Rightarrow> bool" where
  "ends k \<equiv> (\<lambda>t. Stop k (view t) \<or> Done k (view t))"

lemma phase_fence_ok:
  "Ready k (view s) \<Longrightarrow> res_ok (\<lambda>t. Ready k (view t) \<and> k_before k = None) (ends k) (phase_fence k s)"
  by (auto simp: phase_fence_def Ready_def fail_Pre split: option.splits)

lemma data_refused:
  assumes "Ready k (view s)" and "k_before k = None" and "view t = (view s)\<lparr>v_sent := sd_sent s @ [C_DATA]\<rparr>"
  shows "Stop k (view (fail k e False t))"
proof -
  have "Stop k (view (fail k e False (s\<lparr>sd_stage := sd_stage t\<rparr>)))"
    using assms(1) by (intro fail_Pre) (simp add: Ready_def view_def)
  moreover obtain out where v: "view (fail k e False t) = (view t)\<lparr>v_recs := map (fail_recipient (fail_status e False) (sd_stage t) out) (v_recs (view t)),
     v_code := (case ne_reply e of Some (c, m) \<Rightarrow> c | None \<Rightarrow> v_code (view t))\<rparr>" and code: "o_Code out = v_code (view (fail k e False t))"
    using view_fail by blast
  moreover have "rr_Status (fail_recipient (fail_status e False) (sd_stage t) out r) \<in> {TEMP_FAILED, PERM_FAILED} \<and> hard (fail_recipient (fail_status e False) (sd_stage t) out r)"
    if "r \<in> set (v_recs (view s))" for r
    using assms(1) that code unfolding v by (intro failed_before [where v = "v_code (view t)"]) (auto simp: Ready_def)
  ultimately show ?thesis
    using assms secure_append [of "sd_sent s" C_DATA]
    by (auto simp: Stop_def Ready_def Pre_def same_ids_def is_data_def)
qed

lemma phase_data_ok:
  assumes R: "Ready k (view s)" and b: "k_before k = None" and "running k"
  shows "res_ok (\<lambda>t. Transfer k (view t) \<and> tr_err (streamDATA (k_werr k) (k_payload k)) = None) (ends k) (phase_data k s)"
proof -
  let ?c = "command k 354 C_DATA (set_stage ''DATA_REJECTED'' s)"
  obtain a m e t where c: "?c = ((a, m, e), t)" by (cases ?c) auto
  have t: "view t = (view s)\<lparr>v_sent := sd_sent s @ [C_DATA]\<rparr>" using command_view [OF c] by simp
  show ?thesis
  proof (cases e)
    case (Some e')
    then show ?thesis using data_refused [OF R b t] by (simp add: phase_data_def command_ok_def c)
  next
    case None
    let ?t = "upd_out (\<lambda>q. q\<lparr>o_DataStartedAt := k_clock k ''DataStartedAt''\<rparr>) t"
    have vt: "view ?t = (view s)\<lparr>v_data := k_clock k ''DataStartedAt'', v_sent := sd_sent s @ [C_DATA]\<rparr>"
      using t by (simp add: view_def)
    with \<open>running k\<close> have "v_data (view ?t) \<noteq> 0" by (simp add: running_def)
    then obtain u where u: "event k ''DATA_STARTED'' [] 354 [] ?t = Inr u" "view u = view ?t"
      using event_after_data by blast
    define tr where "tr = streamDATA (k_werr k) (k_payload k)"
    define w where "w = upd_out (\<lambda>q. q\<lparr>o_BytesSent := tr_total tr\<rparr>)
        ((set_stage ''DATA_WRITE_ERROR'' u)\<lparr>sd_sent := sd_sent u @ [C_BODY (tr_wire tr)]\<rparr>)"
    have su: "sd_sent u = sd_sent s @ [C_DATA]"
      using arg_cong [OF u(2) [unfolded vt], of v_sent] by simp
    have vw: "view w = (view ?t)\<lparr>v_sent := sd_sent s @ [C_DATA, C_BODY (tr_wire tr)]\<rparr>"
      using u(2) su by (simp add: w_def)
    have W: "Transfer k (view w)"
      using R b \<open>running k\<close> secure_append [OF secure_append [of "sd_sent s" C_DATA], of "C_BODY (tr_wire tr)"]
      by (auto simp: vw vt Transfer_def Ready_def Pre_def same_ids_def running_def)
    show ?thesis
    proof (cases "tr_err tr")
      case None
      have "v_data (view (upd_out (\<lambda>q. q\<lparr>o_DataCompletedAt := k_clock k ''DataCompletedAt''\<rparr>) w)) \<noteq> 0"
        using W by (simp add: Transfer_def)
      then obtain x where x: "event k ''DATA_COMPLETED'' [] 0 []
          (upd_out (\<lambda>q. q\<lparr>o_DataCompletedAt := k_clock k ''DataCompletedAt''\<rparr>) w) = Inr x" and "view x = view w"
        using event_after_data [of "upd_out (\<lambda>q. q\<lparr>o_DataCompletedAt := k_clock k ''DataCompletedAt''\<rparr>) w"] by fastforce
      moreover have "phase_data k s = Inr x"
        using \<open>e = None\<close> u None x by (simp add: phase_data_def command_ok_def c Let_def tr_def w_def)
      ultimately show ?thesis using W None by (simp add: tr_def)
    next
      case (Some x)
      have "Done k (view (fail k (payload_err k x) True w))"
        by (rule fail_Transfer) (use W in \<open>simp_all add: Transfer_def payload_err_def\<close>)
      with Some \<open>e = None\<close> u show ?thesis
        by (auto simp: phase_data_def command_ok_def c Let_def tr_def w_def)
    qed
  qed
qed

lemma quit_view: "v_data (view s) \<noteq> 0 \<Longrightarrow> view (quit k s) = (view s)\<lparr>v_sent := sd_sent s @ (if k_quit k then [C_QUIT] else [])\<rparr>"
  using event_after_data [of "s\<lparr>sd_sent := sd_sent s @ [C_QUIT]\<rparr>" k "''QUIT_SENT''" "[]" 0 "[]"]
  by (auto simp: quit_def)

lemma accept_settled:
  assumes "settled r" and "v_final v \<noteq> 0" and "tr_err (streamDATA (k_werr k) (k_payload k)) = None"
    and "200 \<le> v_code v" and "v_code v < 300"
  shows "rejected (accept_recipient r) \<or> concluded k v (accept_recipient r)"
  using assms by (auto simp: settled_def rejected_def accept_recipient_def concluded_def)

lemma accept_recipient_ids [simp]: "rr_ID \<circ> accept_recipient = rr_ID"
  by (simp add: fun_eq_iff accept_recipient_def)

lemma phase_final_ok:
  assumes T: "Transfer k (view s)" and ok: "tr_err (streamDATA (k_werr k) (k_payload k)) = None" and run: "running k"
  shows "res_ok (ends k) (ends k) (phase_final k s)"
proof -
  let ?c = "read_reply k 2 (set_stage ''FINAL_RESPONSE_ERROR'' s)"
  obtain code resp e t where c: "?c = ((code, resp, e), t)" by (cases ?c) auto
  then have rr: "read_response 2 (k_reply k (sd_replies s)) = (code, resp, e)" by (simp add: read_reply_def)
  have t: "view t = view s" using read_reply_view [OF c] by simp
  define u where "u = (if code \<noteq> 0 then upd_out (\<lambda>q. q\<lparr>o_FinalResponseAt := k_clock k ''FinalResponseAt''\<rparr>) t else t)"
  have vu: "view u = (view s)\<lparr>v_final := if code \<noteq> 0 then k_clock k ''FinalResponseAt'' else v_final (view s)\<rparr>"
    using t by (auto simp: u_def view_def)
  show ?thesis
  proof (cases e)
    case (Some e')
    have "Done k (view (fail k e' True u))"
    proof (rule fail_Transfer)
      show "v_final (view u) \<noteq> 0 \<and> tr_err (streamDATA (k_werr k) (k_payload k)) = None" if "ne_reply e' = Some (a, m)" for a m
        using read_response_reply [OF rr [unfolded Some] that] run ok by (simp add: vu running_def)
      show "secure (sd_sent u)" using T arg_cong [OF vu, of v_sent] by (simp add: Transfer_def)
    qed (use T in \<open>simp_all add: vu Transfer_def same_ids_def\<close>)
    with Some show ?thesis by (simp add: phase_final_def c u_def Let_def)
  next
    case None
    then have code: "100 \<le> code" "code_expected 2 code" using rr by (cases "k_reply k (sd_replies s)"; auto split: if_splits)+
    then have range: "200 \<le> code" "code < 300" by (auto simp: code_expected_def)
    let ?w = "upd_out (\<lambda>q. q\<lparr>o_FinalResponseAt := k_clock k ''FinalResponseAt'', o_Code := code,
               o_Response := safe_text k resp, o_Enhanced := enhanced resp,
               o_Recipients := map accept_recipient (o_Recipients q)\<rparr>) u"
    have vw: "view ?w = (view s)\<lparr>v_final := k_clock k ''FinalResponseAt'', v_code := code, v_recs := map accept_recipient (v_recs (view s))\<rparr>"
      using vu by (simp add: view_def)
    obtain x where x: "event k ''SMTP_ACCEPTED'' [] code resp ?w = Inr x" "view x = view ?w"
      using event_after_data [of ?w k "''SMTP_ACCEPTED''" "[]" code resp] T by (auto simp: vw Transfer_def)
    have "rejected (accept_recipient r) \<or> concluded k (view ?w) (accept_recipient r)" if "r \<in> set (v_recs (view s))" for r
      using T ok run range that by (intro accept_settled) (auto simp: vw Transfer_def running_def)
    then have D: "Done k (view x)"
      using T by (auto simp: x(2) vw Done_def Transfer_def same_ids_def)
    moreover have "Done k (view (quit k x))"
    proof -
      have "C_TLS \<in> set (sd_sent x)" using T arg_cong [OF x(2) [unfolded vw], of v_sent] by (simp add: Transfer_def)
      then show ?thesis
        using D secure_append [of "sd_sent x" C_QUIT]
        by (auto simp: quit_view Done_def same_ids_def concluded_def)
    qed
    ultimately show ?thesis using None x(1) by (simp add: phase_final_def c u_def Let_def)
  qed
qed

subsection \<open>The whole conversation\<close>

lemma view_start: "Setup k (view (send_start k))"
  by (auto simp: send_start_def view_def empty_result_def Setup_def Pre_def same_ids_def secure_def fresh_def)

lemma phase_probe_ok:
  assumes "Secured k (view s)"
  shows "res_ok (\<lambda>t. Secured k (view t) \<and> \<not> k_probe k) (stops k) (phase_probe k s)"
proof -
  have "Stop k (view (quit k t))" if t: "Secured k (view t)" for t
  proof -
    have P: "Pre k ((view t)\<lparr>v_sent := sd_sent t @ [C_QUIT]\<rparr>)" (is "Pre k ?v")
      using t secure_append [of "sd_sent t" C_QUIT] by (auto simp: Secured_def Setup_def Pre_def same_ids_def is_data_def)
    let ?P = "\<lambda>v. v = ?v"
    have "res_ok (\<lambda>u. view u = ?v) (stops k) (event k ''QUIT_SENT'' [] 0 [] (t\<lparr>sd_sent := sd_sent t @ [C_QUIT]\<rparr>))"
      using P by (intro event_ok [where P = ?P]) simp_all
    moreover have "Stop k ?v" "Stop k (view t)"
      using t P by (auto simp: Stop_def Pre_def Secured_def Setup_def fresh_def hard_def is_data_def)
    ultimately show ?thesis
      by (cases "event k ''QUIT_SENT'' [] 0 [] (t\<lparr>sd_sent := sd_sent t @ [C_QUIT]\<rparr>)") (auto simp: quit_def)
  qed
  then show ?thesis using assms by (simp add: phase_probe_def)
qed

lemma conversation_ok:
  assumes "running k"
  shows "res_ok (ends k) (ends k) (conversation k (send_start k))"
proof -
  have stop: "res_ok R (stops k) m \<Longrightarrow> res_ok R (ends k) m" for R :: "send \<Rightarrow> bool" and m
    by (erule res_ok_conseq) auto
  show ?thesis
    unfolding conversation_def data_phases_def
    using assms
    by (intro res_ok_bind [OF stop [OF setup_phases_ok [OF view_start]]] res_ok_bind [OF stop [OF phase_probe_ok]]
        res_ok_bind [OF stop [OF envelope_phases_ok]] res_ok_bind [OF phase_fence_ok] res_ok_bind [OF phase_data_ok] phase_final_ok)
      auto
qed

lemma Aggregate_simps [simp]:
  "o_Recipients (Aggregate r) = o_Recipients r" "o_DataStartedAt (Aggregate r) = o_DataStartedAt r"
  "o_FinalResponseAt (Aggregate r) = o_FinalResponseAt r" "o_Code (Aggregate r) = o_Code r"
  "o_ErrorClass (Aggregate r) = o_ErrorClass r" "o_Stage (Aggregate r) = o_Stage r"
  by (simp_all add: Aggregate_def Let_def)

lemma Send_ends:
  assumes "running k"
  shows "Stop k (view (Send k)) \<or> Done k (view (Send k))"
proof -
  let ?s = "case conversation k (send_start k) of Inl s \<Rightarrow> s | Inr s \<Rightarrow> s"
  have "Stop k (view ?s) \<or> Done k (view ?s)"
    using conversation_ok [OF assms] by (cases "conversation k (send_start k)") auto
  moreover have "view (Send k) = view ?s" by (simp add: Send_def view_def Let_def)
  ultimately show ?thesis by simp
qed

subsection \<open>A sample conversation\<close>

text \<open>
  One server that takes the first recipient, refuses the second and answers the body with the reply \<open>w\<close>.
\<close>

definition sample_provider :: provider where
  "sample_provider = \<lparr>p_ID = ''p1'', p_Name = ''relay'', p_Host = ''smtp'', p_Security = ''implicit_tls'', p_Username = ''u'',
     p_Port = 465, p_Priority = 1, p_MaxConnections = 1, p_HourlyLimit = 0, p_DailyLimit = 0, p_Timeout = 30 * Second,
     p_Ciphertext = [], p_Nonce = []\<rparr>"

definition sample_call :: "wire \<Rightarrow> call" where
  "sample_call w = \<lparr>k_probe = False, k_Domain = [], k_p = sample_provider, k_password = ''pw'', k_from = ''a'',
     k_recipients = [\<lparr>rc_ID = ''r1'', rc_Address = ''b''\<rparr>, \<lparr>rc_ID = ''r2'', rc_Address = ''c''\<rparr>],
     k_clock = (\<lambda>_. 1), k_event_clock = (\<lambda>_. 1), k_seek = (\<lambda>_. None),
     k_check = [\<lparr>rd_ctx = None, rd_bytes = ''.'' @ CRLF, rd_end = Eof\<rparr>],
     k_payload = [\<lparr>rd_ctx = None, rd_bytes = ''.'' @ CRLF, rd_end = Eof\<rparr>],
     k_werr = (\<lambda>_. None), k_view = (\<lambda>_. plain_err), k_dns = Inr 1, k_dial = (\<lambda>_. None), k_remote = ''ip'', k_tls = None,
     k_reply = (\<lambda>n. [Reply 220 [], Reply 250 (''h'' @ [LF] @ ''AUTH PLAIN''), Reply 235 [], Reply 250 [], Reply 250 [], Reply 550 [],
        Reply 354 [], w] ! n),
     k_record = None, k_sasl_start = (\<lambda>_. None), k_sasl_next = (\<lambda>_ _. None), k_before = None, k_quit = True\<rparr>"



lemma sample_mechanism: "choose_mechanism (capability (CHR ''h'' # LF # ''AUTH PLAIN'') ''AUTH'') = Some ''PLAIN''"
  by (simp add: choose_mechanism_def capability_def Fields_def fields_from.simps space_at_def space_encodings_def equal_fold_def fold_key_def to_lower_def replace_all.simps lower_char_def byte_eval LF_def)

lemma sample_payload: "validatePayload (sample_call w) = Inr ()"
  by (simp add: validatePayload_def sample_call_def ValidateCanonical_def CRLF_def)

lemma sample_stream: "tr_err (streamDATA (k_werr (sample_call w)) (k_payload (sample_call w))) = None"
  by (simp add: sample_call_def streamDATA_def CRLF_def)

definition noted :: "call \<Rightarrow> string \<Rightarrow> string \<Rightarrow> int \<Rightarrow> string \<Rightarrow> send \<Rightarrow> send" where
  "noted k kind rid code resp s = (case event k kind rid code resp s of Inr t \<Rightarrow> t | Inl t \<Rightarrow> t)"

lemma event_unrecorded: "k_record k = None \<Longrightarrow> event k kind rid code resp s = Inr (noted k kind rid code resp s)"
  by (simp add: event_def noted_def Let_def)

lemma noted_simps:
  "k_record k = None \<Longrightarrow> view (noted k kind rid code resp s) = view s"
  "k_record k = None \<Longrightarrow> sd_replies (noted k kind rid code resp s) = sd_replies s"
  "k_record k = None \<Longrightarrow> sd_caps (noted k kind rid code resp s) = sd_caps s"
  "k_record k = None \<Longrightarrow> sd_sent (noted k kind rid code resp s) = sd_sent s"
  "k_record k = None \<Longrightarrow> o_Recipients (sd_out (noted k kind rid code resp s)) = o_Recipients (sd_out s)"
  by (simp_all add: event_def noted_def Let_def view_def)

lemma sample_fields:
  "\<not> k_probe (sample_call w)" "k_p (sample_call w) = sample_provider" "p_Security sample_provider = ''implicit_tls''"
  "k_record (sample_call w) = None" "k_dns (sample_call w) = Inr 1" "k_dial (sample_call w) n = None" "k_tls (sample_call w) = None"
  "k_reply (sample_call w) n = [Reply 220 [], Reply 250 (''h'' @ [LF] @ ''AUTH PLAIN''), Reply 235 [], Reply 250 [], Reply 250 [], Reply 550 [],
        Reply 354 [], w] ! n"
  "k_sasl_start (sample_call w) m = None" "k_before (sample_call w) = None" "k_quit (sample_call w)"
  "k_recipients (sample_call w) = [\<lparr>rc_ID = ''r1'', rc_Address = ''b''\<rparr>, \<lparr>rc_ID = ''r2'', rc_Address = ''c''\<rparr>]"
  "has_crlf (k_from (sample_call w) @ k_Domain (sample_call w)) = False" 
  by (simp_all add: sample_call_def sample_provider_def has_crlf_def contains_any_def CR_def LF_def)


lemma sample_crlf: "has_crlf ''b'' = False" "has_crlf ''c'' = False"
  by (simp_all add: has_crlf_def contains_any_def CR_def LF_def)

lemma auth_loop_done: "code \<noteq> 334 \<Longrightarrow> auth_loop k i n ((code, ch, e), s) = ((code, ch, e), s)"
  by (cases n) simp_all

lemma sample_setup: "\<exists>s. setup_phases (sample_call w) (send_start (sample_call w)) = Inr s
   \<and> view s = (view (send_start (sample_call w)))\<lparr>v_sent := [C_TLS, C_EHLO, C_AUTH]\<rparr> \<and> sd_replies s = 3"
  by (simp add: setup_phases_def phase_validate_def phase_dns_def phase_connect_def phase_greeting_def handshake_def ehlo_def phase_starttls_def
     phase_auth_def authenticate_def sample_fields sample_payload event_unrecorded noted_simps command_def read_reply_def code_expected_def Let_def
     sample_mechanism send_start_def sample_crlf auth_loop_done)

lemma sample_envelope:
  assumes "view s = (view (send_start (sample_call w)))\<lparr>v_sent := [C_TLS, C_EHLO, C_AUTH]\<rparr>" and "sd_replies s = 3"
  shows "\<exists>t. envelope_phases (sample_call w) s = Inr t \<and> map rr_Status (v_recs (view t)) = [RCPT_ACCEPTED, PERM_FAILED] \<and> sd_replies t = 6"
proof -
  have r: "o_Recipients (sd_out s) = o_Recipients (sd_out (send_start (sample_call w)))" 
    using arg_cong [OF assms(1), of v_recs] by (simp add: view_def)
  show ?thesis
  by (simp add: envelope_phases_def phase_mail_def phase_rcpt_def rcpt_step_def sample_fields event_unrecorded noted_simps command_def command_ok_def code_expected_def Let_def
    assms(2) r rcpt_result_def send_start_def reply_err_def plain_err_def view_def)
qed

lemma sample_data:
  assumes "map rr_Status (v_recs (view s)) = [RCPT_ACCEPTED, PERM_FAILED]" and "sd_replies s = 6"
  shows "\<exists>f t. phase_fence (sample_call w) s = Inr f \<and> phase_data (sample_call w) f = Inr t \<and> map rr_Status (v_recs (view t)) = [RCPT_ACCEPTED, PERM_FAILED]
    \<and> sd_replies t = 7"
  using assms
  by (simp add: phase_fence_def phase_data_def sample_fields sample_stream event_unrecorded noted_simps command_def command_ok_def code_expected_def Let_def
     view_def)

lemma sample_final:
  assumes "map rr_Status (v_recs (view s)) = [RCPT_ACCEPTED, PERM_FAILED]" and "sd_replies s = 7"
  shows "map rr_Status (v_recs (view (case phase_final (sample_call (Reply 250 [])) s of Inl t \<Rightarrow> t | Inr t \<Rightarrow> t))) = [SMTP_ACCEPTED, PERM_FAILED]"
    and "map rr_Status (v_recs (view (case phase_final (sample_call (WireErr plain_err)) s of Inl t \<Rightarrow> t | Inr t \<Rightarrow> t))) = [DELIVERY_UNKNOWN, PERM_FAILED]"
proof -
  obtain q r where "o_Recipients (sd_out s) = [q, r]" and "rr_Status q = RCPT_ACCEPTED" and "rr_Status r = PERM_FAILED"
    using assms(1) by (auto simp: view_def map_eq_Cons_conv)
  then show "map rr_Status (v_recs (view (case phase_final (sample_call (Reply 250 [])) s of Inl t \<Rightarrow> t | Inr t \<Rightarrow> t))) = [SMTP_ACCEPTED, PERM_FAILED]"
    and "map rr_Status (v_recs (view (case phase_final (sample_call (WireErr plain_err)) s of Inl t \<Rightarrow> t | Inr t \<Rightarrow> t))) = [DELIVERY_UNKNOWN, PERM_FAILED]"
    using assms(2)
    by (simp_all add: phase_final_def sample_fields event_unrecorded noted_simps read_reply_def code_expected_def Let_def quit_def
       accept_recipient_def view_def plain_err_def fail_def fail_out_def fail_status_def fail_recipient_def)
qed

lemma sample_send:
  "map rr_Status (o_Recipients (sd_out (Send (sample_call (Reply 250 []))))) = [SMTP_ACCEPTED, PERM_FAILED]"
  "map rr_Status (o_Recipients (sd_out (Send (sample_call (WireErr plain_err))))) = [DELIVERY_UNKNOWN, PERM_FAILED]"
proof -
  have *: "\<exists>s. conversation (sample_call w) (send_start (sample_call w)) = phase_final (sample_call w) s
      \<and> map rr_Status (v_recs (view s)) = [RCPT_ACCEPTED, PERM_FAILED] \<and> sd_replies s = 7" for w
  proof -
    obtain s where s: "setup_phases (sample_call w) (send_start (sample_call w)) = Inr s
      \<and> view s = (view (send_start (sample_call w)))\<lparr>v_sent := [C_TLS, C_EHLO, C_AUTH]\<rparr> \<and> sd_replies s = 3"
      using sample_setup [of w] ..
    obtain t where t: "envelope_phases (sample_call w) s = Inr t \<and>
      map rr_Status (v_recs (view t)) = [RCPT_ACCEPTED, PERM_FAILED] \<and> sd_replies t = 6"
      using sample_envelope [OF s [THEN conjunct2, THEN conjunct1] s [THEN conjunct2, THEN conjunct2]] ..
    obtain f where "\<exists>u. phase_fence (sample_call w) t = Inr f \<and> phase_data (sample_call w) f = Inr u \<and>
      map rr_Status (v_recs (view u)) = [RCPT_ACCEPTED, PERM_FAILED] \<and> sd_replies u = 7"
      using sample_data [OF t [THEN conjunct2, THEN conjunct1] t [THEN conjunct2, THEN conjunct2]] ..
    then obtain u where "phase_fence (sample_call w) t = Inr f \<and> phase_data (sample_call w) f = Inr u \<and>
      map rr_Status (v_recs (view u)) = [RCPT_ACCEPTED, PERM_FAILED] \<and> sd_replies u = 7" ..
    with s t show ?thesis by (intro exI [of _ u]) (simp add: conversation_def data_phases_def phase_probe_def sample_fields)
  qed
  have out: "map rr_Status (o_Recipients (sd_out (Send k)))
    = map rr_Status (v_recs (view (case conversation k (send_start k) of Inl t \<Rightarrow> t | Inr t \<Rightarrow> t)))" for k
    by (simp add: Send_def view_def Let_def)
  show "map rr_Status (o_Recipients (sd_out (Send (sample_call (Reply 250 []))))) = [SMTP_ACCEPTED, PERM_FAILED]"
    unfolding out using * [of "Reply 250 []"] by (elim exE conjE) (simp only: sample_final(1))
  show "map rr_Status (o_Recipients (sd_out (Send (sample_call (WireErr plain_err))))) = [DELIVERY_UNKNOWN, PERM_FAILED]"
    unfolding out using * [of "WireErr plain_err"] by (elim exE conjE) (simp only: sample_final(2))
qed


lemma first_status: "map rr_Status rs = st # sts \<Longrightarrow> \<exists>q \<in> set rs. rr_Status q = st"
  by (cases rs) auto

lemma sample_running: "running (sample_call w)"
  by (simp add: running_def sample_call_def)

subsection \<open>Redaction\<close>

text \<open>NUL characters are removed after the password was looked for, so one between two characters of the password hides it from the redaction.\<close>

lemma password_behind_nul: "safeResponse (''se'' @ [NUL] @ ''cret'') ''secret'' = ''secret''"
proof -
  have "replace_all (''se'' @ [NUL] @ ''cret'') ''secret'' redacted = ''se'' @ [NUL] @ ''cret''" by (simp add: replace_all.simps NUL_def)
  moreover have "replace_all (''se'' @ [NUL] @ ''cret'') (b64_encode ''secret'') redacted = ''se'' @ [NUL] @ ''cret''"
    by (simp add: replace_all.simps NUL_def b64_digit_def byte_eval Let_def)
  moreover have "replace_all (''se'' @ [NUL] @ ''cret'') [NUL] [] = ''secret''" by (simp add: replace_all.simps NUL_def)
  moreover have "to_valid_utf8 False replacement_char ''secret'' = ''secret''" by (simp add: to_valid_utf8.simps Let_def byte_eval)
  ultimately show ?thesis by (simp add: safeResponse_def Let_def)
qed

subsection \<open>Properties\<close>

text \<open>
  C7: The result of a conversation is evidence. With a clock that does not read the zero time, the result lists the
  recipients of the call in their order, each accepted, temporarily or permanently failed, or unknown. A recipient is
  accepted only if the fence before DATA had committed, the whole payload was transferred and a final 2xx reply was read. As long as
  DATA was not accepted by the server, every recipient is temporarily or permanently failed. Once it was accepted and
  no final reply was read, every recipient not refused at RCPT is unknown; and a failure after it
  rests on an explicit final 4xx or 5xx reply.
\<close>

theorem send_result_is_evidence:
  assumes "running k"
  shows "map rr_ID (o_Recipients (sd_out (Send k))) = map rc_ID (k_recipients k)
    \<and> (\<forall>r \<in> set (o_Recipients (sd_out (Send k))).
         rr_Status r \<in> {SMTP_ACCEPTED, TEMP_FAILED, PERM_FAILED, DELIVERY_UNKNOWN}
         \<and> (rr_Status r = SMTP_ACCEPTED \<longrightarrow> k_before k = None \<and> o_FinalResponseAt (sd_out (Send k)) \<noteq> 0
              \<and> 200 \<le> o_Code (sd_out (Send k)) \<and> o_Code (sd_out (Send k)) < 300
              \<and> tr_err (streamDATA (k_werr k) (k_payload k)) = None)
         \<and> (o_DataStartedAt (sd_out (Send k)) = 0 \<longrightarrow> rr_Status r \<in> {TEMP_FAILED, PERM_FAILED})
         \<and> (o_DataStartedAt (sd_out (Send k)) \<noteq> 0 \<and> rr_Stage r \<noteq> ''RCPT_REJECTED'' \<longrightarrow>
              (o_FinalResponseAt (sd_out (Send k)) = 0 \<longrightarrow> rr_Status r = DELIVERY_UNKNOWN)
              \<and> (rr_Status r = TEMP_FAILED \<longrightarrow> 400 \<le> o_Code (sd_out (Send k)) \<and> o_Code (sd_out (Send k)) < 500)
              \<and> (rr_Status r = PERM_FAILED \<longrightarrow> 500 \<le> o_Code (sd_out (Send k)) \<and> o_Code (sd_out (Send k)) < 600)))"
proof -
  have v: "v_recs (view (Send k)) = o_Recipients (sd_out (Send k))" "v_data (view (Send k)) = o_DataStartedAt (sd_out (Send k))"
    "v_final (view (Send k)) = o_FinalResponseAt (sd_out (Send k))" "v_code (view (Send k)) = o_Code (sd_out (Send k))"
    by (simp_all add: view_def)
  from Send_ends [OF assms] show ?thesis
  proof
    assume "Stop k (view (Send k))"
    then show ?thesis by (auto simp: Stop_def same_ids_def v)
  next
    assume "Done k (view (Send k))"
    then show ?thesis by (auto simp: Done_def same_ids_def rejected_def concluded_def v)
  qed
qed

theorem send_result_is_evidence_witness:
  "map rr_Status (o_Recipients (sd_out (Send (sample_call (Reply 250 []))))) = [SMTP_ACCEPTED, PERM_FAILED]
   \<and> o_FinalResponseAt (sd_out (Send (sample_call (Reply 250 [])))) \<noteq> 0
   \<and> map rr_Status (o_Recipients (sd_out (Send (sample_call (WireErr plain_err))))) = [DELIVERY_UNKNOWN, PERM_FAILED]
   \<and> o_DataStartedAt (sd_out (Send (sample_call (WireErr plain_err)))) \<noteq> 0"
proof -
  obtain q where q: "q \<in> set (o_Recipients (sd_out (Send (sample_call (Reply 250 [])))))" "rr_Status q = SMTP_ACCEPTED"
    using first_status [OF sample_send(1)] ..
  obtain r where r: "r \<in> set (o_Recipients (sd_out (Send (sample_call (WireErr plain_err)))))" "rr_Status r = DELIVERY_UNKNOWN"
    using first_status [OF sample_send(2)] ..
  have "o_FinalResponseAt (sd_out (Send (sample_call (Reply 250 [])))) \<noteq> 0"
    using send_result_is_evidence [OF sample_running, THEN conjunct2, THEN bspec, OF q(1)] q(2) by simp
  moreover have "o_DataStartedAt (sd_out (Send (sample_call (WireErr plain_err)))) \<noteq> 0"
    using send_result_is_evidence [OF sample_running, THEN conjunct2, THEN bspec, OF r(1)] r(2) by auto
  ultimately show ?thesis using sample_send by (intro conjI)
qed

text \<open>
  C8: Nothing of the message leaves before the fence, and nothing secret before TLS. In the commands given to the connection, DATA
  and the body appear only if the fence before DATA had committed; and whatever precedes the TLS handshake is EHLO or STARTTLS, so that
  credentials, envelope and message are only sent over TLS.
\<close>

theorem send_respects_fence_and_tls:
  assumes "running k"
  shows "(C_DATA \<in> set (sd_sent (Send k)) \<or> C_BODY b \<in> set (sd_sent (Send k)) \<longrightarrow> k_before k = None)
    \<and> (\<forall>c \<in> set (takeWhile (\<lambda>c. c \<noteq> C_TLS) (sd_sent (Send k))). c = C_EHLO \<or> c = C_STARTTLS)"
proof -
  have v: "v_sent (view (Send k)) = sd_sent (Send k)" by simp
  from Send_ends [OF assms] show ?thesis
    by (auto simp: Stop_def Done_def secure_def is_data_def v)
qed

theorem send_respects_fence_and_tls_witness:
  "k_before (sample_call (Reply 250 [])) = None
   \<and> list_all (\<lambda>c. c = C_EHLO \<or> c = C_STARTTLS) (takeWhile (\<lambda>c. c \<noteq> C_TLS) (sd_sent (Send (sample_call (Reply 250 [])))))"
  using send_respects_fence_and_tls [OF sample_running, of "Reply 250 []"] by (simp add: sample_fields list_all_iff)

text \<open>
  C9: A probe of a provider transmits no envelope and no message: apart from the greeting, TLS and authentication
  commands it sends only QUIT, and it sends credentials only over TLS.
\<close>

theorem probe_sends_no_message:
  assumes "running k"
  shows "set (sd_sent (Probe k)) \<subseteq> {C_EHLO, C_STARTTLS, C_TLS, C_AUTH, C_AUTH_RESPONSE, C_QUIT}
    \<and> (C_AUTH \<in> set (sd_sent (Probe k)) \<longrightarrow> C_TLS \<in> set (sd_sent (Probe k)))"
proof -
  let ?k = "k\<lparr>k_probe := True, k_from := [], k_recipients := [], k_record := None\<rparr>"
  have "running ?k" using assms by (simp add: running_def)
  then have S: "Stop ?k (view (Send ?k))" using Send_ends [of ?k] by (auto simp: Done_def)
  then have c: "is_setup c \<or> c = C_QUIT" if "c \<in> set (sd_sent (Send ?k))" for c
    using that by (auto simp: Stop_def)
  have "C_TLS \<in> set (sd_sent (Send ?k))" if "C_AUTH \<in> set (sd_sent (Send ?k))"
  proof (rule ccontr)
    assume "C_TLS \<notin> set (sd_sent (Send ?k))"
    then have "takeWhile (\<lambda>c. c \<noteq> C_TLS) (sd_sent (Send ?k)) = sd_sent (Send ?k)"
      by (simp add: takeWhile_eq_all_conv) metis
    with that S show False unfolding Stop_def secure_def by auto
  qed
  with c show ?thesis by (auto simp: Probe_def is_setup_def)
qed

theorem probe_sends_no_message_witness:
  "C_MAIL ''a'' \<notin> set (sd_sent (Probe (sample_call (Reply 250 [])))) \<and> C_DATA \<notin> set (sd_sent (Probe (sample_call (Reply 250 []))))"
  using probe_sends_no_message [OF sample_running, of "Reply 250 []"] by auto

end
