(* ===== verification/Resource.thy ===== *)
theory Resource
  imports Prelude
begin

text \<open>
  The limiter of internal/resource/limiter.go, which bounds the memory and spool space of concurrent work. Several
  goroutines share it; each critical section under its mutex is one step: entering Acquire, one turn of its waiting
  loop, and the release function it returned. Requests have identities, as the pointers of the code do.
\<close>

subsection \<open>State\<close>

definition ReceiveMemory :: int where "ReceiveMemory = 2 ^ 20"
definition SendMemory :: int where "SendMemory = 8 * 2 ^ 20"
definition DefaultMemory :: int where "DefaultMemory = 64 * 2 ^ 20"
definition DefaultSpool :: int where "DefaultSpool = 256 * 2 ^ 20"

record reservation =
  rv_id :: nat
  rv_memory :: int
  rv_spool :: int

text \<open>
  The fields of Limiter, and \<open>lm_held\<close>: the reservations whose release function has not run yet. The channel changed only
  wakes waiting goroutines, which then run another turn; a turn may happen at any time here.
\<close>

record limiter =
  lm_queue :: "reservation list"
  lm_memoryLimit :: int
  lm_spoolLimit :: int
  lm_memory :: int
  lm_spool :: int
  lm_peakMemory :: int
  lm_peakSpool :: int
  lm_waiting :: int
  lm_held :: "reservation list"

definition new_limiter :: "int \<Rightarrow> int \<Rightarrow> limiter" where
  "new_limiter memory spool = \<lparr>lm_queue = [], lm_memoryLimit = memory, lm_spoolLimit = spool, lm_memory = 0, lm_spool = 0,
     lm_peakMemory = 0, lm_peakSpool = 0, lm_waiting = 0, lm_held = []\<rparr>"

subsection \<open>Operations\<close>

definition acquire_enter :: "reservation \<Rightarrow> limiter \<Rightarrow> err + limiter" where
  "acquire_enter r l =
     (if rv_memory r < 0 \<or> rv_spool r < 0 \<or> rv_memory r > lm_memoryLimit l \<or> rv_spool r > lm_spoolLimit l then
        Inl (ErrNew ''work exceeds resource budget'')
      else Inr (l\<lparr>lm_waiting := lm_waiting l + 1, lm_queue := lm_queue l @ [r]\<rparr>))"

datatype turn = Cancelled | Granted | Waits

definition fits :: "reservation \<Rightarrow> limiter \<Rightarrow> bool" where
  "fits r l \<longleftrightarrow> rv_memory r \<le> lm_memoryLimit l - lm_memory l \<and> rv_spool r \<le> lm_spoolLimit l - lm_spool l"

definition acquire_turn :: "bool \<Rightarrow> reservation \<Rightarrow> limiter \<Rightarrow> turn \<times> limiter" where
  "acquire_turn ctx_err r l =
     (if ctx_err then (Cancelled, l\<lparr>lm_waiting := lm_waiting l - 1, lm_queue := remove1 r (lm_queue l)\<rparr>)
      else if lm_queue l \<noteq> [] \<and> hd (lm_queue l) = r \<and> fits r l then
        (Granted, l\<lparr>lm_waiting := lm_waiting l - 1, lm_queue := tl (lm_queue l),
           lm_memory := lm_memory l + rv_memory r, lm_spool := lm_spool l + rv_spool r,
           lm_peakMemory := max (lm_peakMemory l) (lm_memory l + rv_memory r),
           lm_peakSpool := max (lm_peakSpool l) (lm_spool l + rv_spool r),
           lm_held := lm_held l @ [r]\<rparr>)
      else (Waits, l))"

text \<open>The release function runs its body once: a second call finds the reservation no longer held.\<close>

definition release :: "reservation \<Rightarrow> limiter \<Rightarrow> limiter" where
  "release r l =
     (if r \<in> set (lm_held l) then
        l\<lparr>lm_memory := lm_memory l - rv_memory r, lm_spool := lm_spool l - rv_spool r, lm_held := remove1 r (lm_held l)\<rparr>
      else l)"

subsection \<open>Steps\<close>

text \<open>Every call of Acquire makes a reservation of its own, so its identity is new.\<close>

definition known :: "limiter \<Rightarrow> nat set" where
  "known l = rv_id ` set (lm_queue l) \<union> rv_id ` set (lm_held l)"

inductive lim_step :: "limiter \<Rightarrow> limiter \<Rightarrow> bool" where
  enter: "rv_id r \<notin> known l \<Longrightarrow> acquire_enter r l = Inr l' \<Longrightarrow> lim_step l l'"
| turn: "r \<in> set (lm_queue l) \<Longrightarrow> acquire_turn ctx_err r l = (t, l') \<Longrightarrow> lim_step l l'"
| release: "lim_step l (release r l)"

inductive lim_reach :: "int \<Rightarrow> int \<Rightarrow> limiter \<Rightarrow> bool" for memory spool where
  start: "lim_reach memory spool (new_limiter memory spool)"
| step: "lim_reach memory spool l \<Longrightarrow> lim_step l l' \<Longrightarrow> lim_reach memory spool l'"

subsection \<open>Invariant\<close>

definition valid_reservation :: "limiter \<Rightarrow> reservation \<Rightarrow> bool" where
  "valid_reservation l r \<longleftrightarrow> 0 \<le> rv_memory r \<and> 0 \<le> rv_spool r \<and> rv_memory r \<le> lm_memoryLimit l \<and> rv_spool r \<le> lm_spoolLimit l"

definition lim_inv :: "limiter \<Rightarrow> bool" where
  "lim_inv l \<longleftrightarrow>
     (\<forall>r \<in> set (lm_queue l) \<union> set (lm_held l). valid_reservation l r)
     \<and> distinct (map rv_id (lm_queue l @ lm_held l))
     \<and> lm_waiting l = int (length (lm_queue l))
     \<and> lm_memory l = sum_list (map rv_memory (lm_held l)) \<and> lm_spool l = sum_list (map rv_spool (lm_held l))
     \<and> lm_memory l \<le> lm_peakMemory l \<and> lm_peakMemory l \<le> lm_memoryLimit l
     \<and> lm_spool l \<le> lm_peakSpool l \<and> lm_peakSpool l \<le> lm_spoolLimit l"

lemma lim_invD:
  assumes "lim_inv l"
  shows "\<And>r. r \<in> set (lm_queue l) \<Longrightarrow> valid_reservation l r" and "\<And>r. r \<in> set (lm_held l) \<Longrightarrow> valid_reservation l r"
  using assms by (auto simp: lim_inv_def)

lemma valid_reservation_same:
  "lm_memoryLimit l' = lm_memoryLimit l \<Longrightarrow> lm_spoolLimit l' = lm_spoolLimit l \<Longrightarrow>
   valid_reservation l' r = valid_reservation l r"
  by (simp add: valid_reservation_def)

lemma sum_list_remove1_int: "r \<in> set xs \<Longrightarrow> sum_list (map f (remove1 r xs)) = sum_list (map f xs) - (f r :: int)"
  by (induction xs) auto

lemma new_limiter_inv: "0 \<le> memory \<Longrightarrow> 0 \<le> spool \<Longrightarrow> lim_inv (new_limiter memory spool)"
  by (simp add: lim_inv_def new_limiter_def)

lemma enter_inv:
  assumes "lim_inv l" and "rv_id r \<notin> known l" and "acquire_enter r l = Inr l'"
  shows "lim_inv l'"
proof -
  have l': "l' = l\<lparr>lm_waiting := lm_waiting l + 1, lm_queue := lm_queue l @ [r]\<rparr>" and "valid_reservation l r"
    using assms(3) by (auto simp: acquire_enter_def valid_reservation_def split: if_splits)
  moreover have "rv_id r \<notin> rv_id ` set (lm_queue l)" "rv_id r \<notin> rv_id ` set (lm_held l)"
    using assms(2) by (auto simp: known_def)
  ultimately show ?thesis
    using assms(1) by (auto simp: lim_inv_def valid_reservation_def)
qed

lemma cancel_inv:
  assumes "lim_inv l" and "r \<in> set (lm_queue l)"
  shows "lim_inv (l\<lparr>lm_waiting := lm_waiting l - 1, lm_queue := remove1 r (lm_queue l)\<rparr>)"
proof -
  have "distinct (map rv_id (remove1 r (lm_queue l)))"
    using assms(1) by (auto simp: lim_inv_def distinct_map distinct_remove1 intro: inj_on_subset dest: set_remove1_subset [THEN subsetD])
  moreover have "int (length (remove1 r (lm_queue l))) = int (length (lm_queue l)) - 1"
    using assms(2) length_pos_if_in_set [OF assms(2)] by (simp add: length_remove1 of_nat_diff del: length_greater_0_conv)
  ultimately show ?thesis
    using assms set_remove1_subset [of r "lm_queue l"]
    by (auto simp: lim_inv_def valid_reservation_def)
qed

lemma grant_inv:
  assumes "lim_inv l" and "r \<in> set (lm_queue l)" and "acquire_turn False r l = (Granted, l')"
  shows "lim_inv l'"
proof -
  obtain q where q: "lm_queue l = r # q" and f: "fits r l"
    using assms(2,3) by (cases "lm_queue l") (auto simp: acquire_turn_def split: if_splits)
  have v: "valid_reservation l r" using lim_invD(1) [OF assms(1,2)] .
  have d: "distinct (map rv_id (q @ lm_held l @ [r]))" using assms(1) q by (auto simp: lim_inv_def)
  have l': "l' = l\<lparr>lm_waiting := lm_waiting l - 1, lm_queue := q,
      lm_memory := lm_memory l + rv_memory r, lm_spool := lm_spool l + rv_spool r,
      lm_peakMemory := max (lm_peakMemory l) (lm_memory l + rv_memory r),
      lm_peakSpool := max (lm_peakSpool l) (lm_spool l + rv_spool r), lm_held := lm_held l @ [r]\<rparr>"
    using assms(3) q f by (simp add: acquire_turn_def)
  have "\<forall>x \<in> set q \<union> set (lm_held l @ [r]). valid_reservation l' x"
    using assms(1) q v by (auto simp: lim_inv_def l' valid_reservation_def)
  with d q f v assms(1) show ?thesis
    by (simp add: lim_inv_def l' fits_def valid_reservation_def)
qed

lemma turn_inv:
  assumes "lim_inv l" and "r \<in> set (lm_queue l)" and "acquire_turn ctx_err r l = (t, l')"
  shows "lim_inv l'"
proof (cases ctx_err)
  case True
  with assms cancel_inv [OF assms(1,2)] show ?thesis by (simp add: acquire_turn_def)
next
  case False
  show ?thesis
  proof (cases t)
    case Granted
    with False assms show ?thesis using grant_inv [OF assms(1,2)] by simp
  qed (use False assms in \<open>auto simp: acquire_turn_def split: if_splits\<close>)
qed

lemma release_inv:
  assumes "lim_inv l"
  shows "lim_inv (release r l)"
proof (cases "r \<in> set (lm_held l)")
  case True
  have v: "valid_reservation l r" using lim_invD(2) [OF assms True] .
  have "distinct (map rv_id (remove1 r (lm_held l)))"
    using assms by (auto simp: lim_inv_def distinct_map distinct_remove1 intro: inj_on_subset dest: set_remove1_subset [THEN subsetD])
  moreover have "lm_memory l - rv_memory r \<le> lm_peakMemory l" "lm_spool l - rv_spool r \<le> lm_peakSpool l"
    using v assms by (auto simp: lim_inv_def valid_reservation_def)
  ultimately show ?thesis
    using True assms set_remove1_subset [of r "lm_held l"]
    by (auto simp: lim_inv_def release_def sum_list_remove1_int valid_reservation_def)
qed (simp add: release_def assms)

lemma lim_reach_inv:
  assumes "lim_reach memory spool l" and "0 \<le> memory" and "0 \<le> spool"
  shows "lim_inv l \<and> lm_memoryLimit l = memory \<and> lm_spoolLimit l = spool"
  using assms(1)
proof induction
  case start
  then show ?case using assms(2,3) new_limiter_inv by (simp add: new_limiter_def)
next
  case (step l l')
  from step.hyps(2) show ?case
  proof (cases rule: lim_step.cases)
    case (enter r)
    with step enter_inv [OF _ enter(1,2)] show ?thesis
      by (auto simp: acquire_enter_def split: if_splits)
  next
    case (turn r ctx_err t)
    with step turn_inv [OF _ turn(1,2)] show ?thesis
      by (auto simp: acquire_turn_def split: if_splits)
  next
    case (release r)
    with step release_inv show ?thesis by (auto simp: release_def)
  qed
qed

lemma sum_list_nonneg_int: "(\<And>x. x \<in> set xs \<Longrightarrow> 0 \<le> f x) \<Longrightarrow> 0 \<le> sum_list (map (f :: 'a \<Rightarrow> int) xs)"
  by (induction xs) (auto intro: add_nonneg_nonneg)

subsection \<open>Properties\<close>

text \<open>
  C10: However goroutines interleave, the work in progress never exceeds the budgets. In every reachable state of a limiter made with
  non-negative limits, the counters are between zero and the limits and are exactly the sums of the reservations not yet
  released, the counter waiting is the length of the queue, and the peaks lie between the counters and the
  limits; so no counter leaves the range of int64 when the limits are in it.
\<close>

theorem limiter_never_exceeds_budget:
  assumes "lim_reach memory spool l" and "0 \<le> memory" and "0 \<le> spool"
  shows "0 \<le> lm_memory l \<and> lm_memory l \<le> lm_peakMemory l \<and> lm_peakMemory l \<le> memory
    \<and> 0 \<le> lm_spool l \<and> lm_spool l \<le> lm_peakSpool l \<and> lm_peakSpool l \<le> spool
    \<and> lm_memory l = sum_list (map rv_memory (lm_held l)) \<and> lm_spool l = sum_list (map rv_spool (lm_held l))
    \<and> lm_waiting l = int (length (lm_queue l))"
proof -
  have inv: "lim_inv l" and lim: "lm_memoryLimit l = memory" "lm_spoolLimit l = spool" using lim_reach_inv [OF assms] by auto
  have "0 \<le> lm_memory l" "0 \<le> lm_spool l"
    using inv lim_invD(2) [OF inv] by (auto simp: lim_inv_def valid_reservation_def intro!: sum_list_nonneg_int)
  with inv lim show ?thesis by (simp add: lim_inv_def)
qed

theorem limiter_never_exceeds_budget_witness:
  "lm_memory (snd (acquire_turn False \<lparr>rv_id = 1, rv_memory = 3, rv_spool = 2\<rparr>
     ((new_limiter 4 4)\<lparr>lm_waiting := 1, lm_queue := [\<lparr>rv_id = 1, rv_memory = 3, rv_spool = 2\<rparr>]\<rparr>))) = 3
   \<and> lm_peakMemory (snd (acquire_turn False \<lparr>rv_id = 1, rv_memory = 3, rv_spool = 2\<rparr>
     ((new_limiter 4 4)\<lparr>lm_waiting := 1, lm_queue := [\<lparr>rv_id = 1, rv_memory = 3, rv_spool = 2\<rparr>]\<rparr>))) \<le> 4"
proof -
  let ?r = "\<lparr>rv_id = 1, rv_memory = 3, rv_spool = 2\<rparr>"
  let ?l = "(new_limiter 4 4)\<lparr>lm_waiting := 1, lm_queue := [?r]\<rparr>"
  have "lim_step (new_limiter 4 4) ?l"
    by (rule lim_step.enter [of ?r]) (simp_all add: known_def new_limiter_def acquire_enter_def)
  moreover have "lim_step ?l (snd (acquire_turn False ?r ?l))"
    by (rule lim_step.turn [of ?r]) (simp_all add: prod_eq_iff)
  ultimately have "lim_reach 4 4 (snd (acquire_turn False ?r ?l))"
    by (blast intro: lim_reach.intros)
  from limiter_never_exceeds_budget [OF this] show ?thesis
    by (simp add: acquire_turn_def fits_def new_limiter_def)
qed



end
