(* ===== verification/Admission.thy ===== *)
theory Admission
  imports Prelude Complex_Main
begin

text \<open>
  The admission control of the SMTP server (internal/smtpserver/admission.go): limits on connections in total and per
  source, a token bucket for new connections and one for authentication attempts of each source. Every
  operation runs under the mutex and is one step. Tokens are rational numbers where the code has float64; the
  derivation of a source key from a peer address is left to the caller.
\<close>

subsection \<open>State\<close>

record limits =
  li_Connections :: int
  li_PerSource :: int
  li_AuthPerMinute :: int
  li_AuthBurst :: int
  li_Lifetime :: duration

definition DefaultLimits :: limits where
  "DefaultLimits = \<lparr>li_Connections = 128, li_PerSource = 8, li_AuthPerMinute = 60, li_AuthBurst = 20, li_Lifetime = 5 * Minute\<rparr>"

definition maxSources :: nat where "maxSources = 4096"
definition sourceTTL :: duration where "sourceTTL = 5 * Minute"

record bucket =
  bk_tokens :: rat
  bk_at :: time

definition seconds :: "duration \<Rightarrow> rat" where
  "seconds d = of_int d / 1000000000"

definition take_token :: "bucket \<Rightarrow> time \<Rightarrow> rat \<Rightarrow> int \<Rightarrow> bool \<times> bucket" where
  "take_token b now rate burst =
     (let tokens = (if IsZero (bk_at b) then of_int burst
                    else min (of_int burst) (bk_tokens b + max 0 (seconds (now - bk_at b)) * rate))
      in if tokens < 1 then (False, \<lparr>bk_tokens = tokens, bk_at = now\<rparr>)
         else (True, \<lparr>bk_tokens = tokens - 1, bk_at = now\<rparr>))"

record source_state =
  ss_connections :: int
  ss_auth :: int
  ss_touched :: time
  ss_accepts :: bucket
  ss_attempts :: bucket

definition new_source :: source_state where
  "new_source = \<lparr>ss_connections = 0, ss_auth = 0, ss_touched = 0, ss_accepts = \<lparr>bk_tokens = 0, bk_at = 0\<rparr>,
     ss_attempts = \<lparr>bk_tokens = 0, bk_at = 0\<rparr>\<rparr>"

text \<open>
  The map of sources is an association list with distinct keys. The functions connect and authenticate return to release what
  they took are remembered by their key until they run; each runs its body once.
\<close>

record admission =
  ad_limits :: limits
  ad_sources :: "(string \<times> source_state) list"
  ad_total :: int
  ad_nextSweep :: time
  ad_conns :: "string list"
  ad_auths :: "string list"

definition newAdmission :: "limits \<Rightarrow> admission" where
  "newAdmission l = \<lparr>ad_limits = l, ad_sources = [], ad_total = 0, ad_nextSweep = 0, ad_conns = [], ad_auths = []\<rparr>"

subsection \<open>Operations\<close>

definition sweep :: "time \<Rightarrow> admission \<Rightarrow> admission" where
  "sweep now a =
     (if \<not> now < ad_nextSweep a then
        a\<lparr>ad_sources := filter (\<lambda>(k, s). \<not> (ss_connections s = 0 \<and> ss_auth s = 0 \<and> now - ss_touched s \<ge> sourceTTL)) (ad_sources a),
          ad_nextSweep := now + Minute\<rparr>
      else a)"

text \<open>The assignment through the pointer found in the map, or put there just before.\<close>

definition put_source :: "string \<Rightarrow> source_state \<Rightarrow> (string \<times> source_state) list \<Rightarrow> (string \<times> source_state) list" where
  "put_source key s ss =
     (if map_of ss key = None then ss @ [(key, s)] else map (\<lambda>(k, t). if k = key then (k, s) else (k, t)) ss)"

definition connect :: "string \<Rightarrow> time \<Rightarrow> admission \<Rightarrow> bool \<times> admission" where
  "connect key now a =
     (let a = sweep now a in
      if ad_total a \<ge> li_Connections (ad_limits a) then (False, a)
      else if map_of (ad_sources a) key = None \<and> length (ad_sources a) \<ge> maxSources then (False, a)
      else
        let s = (case map_of (ad_sources a) key of None \<Rightarrow> new_source | Some s \<Rightarrow> s);
            s = s\<lparr>ss_touched := now\<rparr>
        in if ss_connections s \<ge> li_PerSource (ad_limits a) then (False, a\<lparr>ad_sources := put_source key s (ad_sources a)\<rparr>)
           else case take_token (ss_accepts s) now 1 32 of
             (False, b) \<Rightarrow> (False, a\<lparr>ad_sources := put_source key (s\<lparr>ss_accepts := b\<rparr>) (ad_sources a)\<rparr>)
           | (True, b) \<Rightarrow> (True, a\<lparr>ad_sources := put_source key (s\<lparr>ss_accepts := b, ss_connections := ss_connections s + 1\<rparr>) (ad_sources a),
                              ad_total := ad_total a + 1, ad_conns := key # ad_conns a\<rparr>))"

definition release_conn :: "string \<Rightarrow> time \<Rightarrow> admission \<Rightarrow> admission" where
  "release_conn key now a =
     (if key \<in> set (ad_conns a) then
        (case map_of (ad_sources a) key of
           Some s \<Rightarrow> a\<lparr>ad_sources := put_source key (s\<lparr>ss_connections := ss_connections s - 1, ss_touched := now\<rparr>) (ad_sources a),
                       ad_total := ad_total a - 1, ad_conns := remove1 key (ad_conns a)\<rparr>
         | None \<Rightarrow> a\<lparr>ad_total := ad_total a - 1, ad_conns := remove1 key (ad_conns a)\<rparr>)
      else a)"

definition authenticate :: "string \<Rightarrow> time \<Rightarrow> admission \<Rightarrow> bool \<times> admission" where
  "authenticate key now a = (case map_of (ad_sources a) key of
     None \<Rightarrow> (False, a)
   | Some s \<Rightarrow>
       let s = s\<lparr>ss_touched := now\<rparr> in
       if ss_auth s \<ge> 1 then (False, a\<lparr>ad_sources := put_source key s (ad_sources a)\<rparr>)
       else case take_token (ss_attempts s) now (of_int (li_AuthPerMinute (ad_limits a)) / 60) (li_AuthBurst (ad_limits a)) of
         (False, b) \<Rightarrow> (False, a\<lparr>ad_sources := put_source key (s\<lparr>ss_attempts := b\<rparr>) (ad_sources a)\<rparr>)
       | (True, b) \<Rightarrow> (True, a\<lparr>ad_sources := put_source key (s\<lparr>ss_attempts := b, ss_auth := ss_auth s + 1\<rparr>) (ad_sources a),
                          ad_auths := key # ad_auths a\<rparr>))"

definition release_auth :: "string \<Rightarrow> time \<Rightarrow> admission \<Rightarrow> admission" where
  "release_auth key now a =
     (if key \<in> set (ad_auths a) then
        (case map_of (ad_sources a) key of
           Some s \<Rightarrow> a\<lparr>ad_sources := put_source key (s\<lparr>ss_auth := ss_auth s - 1, ss_touched := now\<rparr>) (ad_sources a),
                       ad_auths := remove1 key (ad_auths a)\<rparr>
         | None \<Rightarrow> a\<lparr>ad_auths := remove1 key (ad_auths a)\<rparr>)
      else a)"

subsection \<open>Steps\<close>

inductive adm_step :: "admission \<Rightarrow> admission \<Rightarrow> bool" where
  connect: "connect key now a = (ok, a') \<Longrightarrow> adm_step a a'"
| close: "adm_step a (release_conn key now a)"
| authenticate: "authenticate key now a = (ok, a') \<Longrightarrow> adm_step a a'"
| authenticated: "adm_step a (release_auth key now a)"

inductive adm_reach :: "limits \<Rightarrow> admission \<Rightarrow> bool" for l where
  start: "adm_reach l (newAdmission l)"
| step: "adm_reach l a \<Longrightarrow> adm_step a a' \<Longrightarrow> adm_reach l a'"

subsection \<open>Invariant\<close>

text \<open>
  The counters of every source are the numbers of its functions still to run, and a source
  with such functions is in the map: the sweep cannot take it away from under them.
\<close>

definition counts :: "admission \<Rightarrow> string \<Rightarrow> int \<times> int" where
  "counts a key = (case map_of (ad_sources a) key of None \<Rightarrow> (0, 0) | Some s \<Rightarrow> (ss_connections s, ss_auth s))"

definition adm_inv :: "limits \<Rightarrow> admission \<Rightarrow> bool" where
  "adm_inv l a \<longleftrightarrow> ad_limits a = l \<and> distinct (map fst (ad_sources a)) \<and> length (ad_sources a) \<le> maxSources
     \<and> (\<forall>key. counts a key = (int (count_list (ad_conns a) key), int (count_list (ad_auths a) key)))
     \<and> (\<forall>key. int (count_list (ad_conns a) key) \<le> max 0 (li_PerSource l))
     \<and> (\<forall>key. count_list (ad_auths a) key \<le> 1)
     \<and> ad_total a = int (length (ad_conns a)) \<and> ad_total a \<le> max 0 (li_Connections l)"

lemma map_of_put_source: "map_of (put_source key s ss) k = (if k = key then Some s else map_of ss k)"
proof -
  have "map_of (map (\<lambda>(k, t). if k = key then (k, s) else (k, t)) ss) k
      = (if k = key then (if map_of ss key = None then None else Some s) else map_of ss k)"
    by (induction ss) auto
  then show ?thesis by (auto simp: put_source_def map_add_def split: option.splits)
qed

lemma fst_put_source:
  "map fst (put_source key s ss) = (if map_of ss key = None then map fst ss @ [key] else map fst ss)"
  by (auto simp: put_source_def)

lemma distinct_put_source: "distinct (map fst ss) \<Longrightarrow> distinct (map fst (put_source key s ss))"
  by (auto simp: fst_put_source map_of_eq_None_iff)

lemma length_put_source:
  "length (put_source key s ss) = (if map_of ss key = None then Suc (length ss) else length ss)"
  using arg_cong [OF fst_put_source [of key s ss], of length] by simp

lemma count_remove1: "count_list (remove1 x xs) y = count_list xs y - (if x = y then 1 else 0)"
  by (induction xs) auto

lemma count_list_pos: "x \<in> set xs \<Longrightarrow> 0 < count_list xs x"
  using count_list_0_iff [of xs x] by auto

lemma map_of_kept:
  assumes "distinct (map fst ss)"
  shows "map_of (filter keep ss) key = Option.bind (map_of ss key) (\<lambda>s. if keep (key, s) then Some s else None)"
  using assms
proof (induction ss)
  case (Cons e ss)
  then have "map_of ss (fst e) = None" by (simp add: map_of_eq_None_iff)
  with Cons show ?case by (cases e) auto
qed simp

lemma sweep_inv:
  assumes "adm_inv l a"
  shows "adm_inv l (sweep now a)"
proof (cases "now < ad_nextSweep a")
  case False
  let ?P = "\<lambda>(k, s). \<not> (ss_connections s = 0 \<and> ss_auth s = 0 \<and> now - ss_touched s \<ge> sourceTTL)"
  have d: "distinct (map fst (ad_sources a))" using assms by (simp add: adm_inv_def)
  have c: "counts (sweep now a) key = counts a key" for key
    using False by (auto simp: sweep_def counts_def map_of_kept [OF d] split: option.splits Option.bind_split)
  have "distinct (map fst (filter ?P (ad_sources a)))" using d by (simp add: distinct_map_filter)
  moreover have "length (filter ?P (ad_sources a)) \<le> maxSources"
    using assms length_filter_le [of ?P "ad_sources a"] by (auto simp: adm_inv_def simp del: length_filter_le)
  ultimately show ?thesis
    using False assms c by (simp add: adm_inv_def) (simp add: sweep_def)
qed (simp add: sweep_def assms)

lemma put_inv:
  assumes "adm_inv l a" and "a' = a\<lparr>ad_sources := put_source key s (ad_sources a)\<rparr>"
    and "(ss_connections s, ss_auth s) = counts a key"
    and "map_of (ad_sources a) key = None \<longrightarrow> length (ad_sources a) < maxSources"
  shows "adm_inv l a'"
proof -
  have "counts a' k = counts a k" for k
    using assms(2,3) by (auto simp: counts_def map_of_put_source)
  with assms show ?thesis
    by (auto simp: adm_inv_def distinct_put_source length_put_source)
qed

text \<open>The general step: one source is written and the two lists of functions change with its counters.\<close>

lemma update_inv:
  assumes inv: "adm_inv l a"
    and room: "map_of (ad_sources a) key = None \<longrightarrow> length (ad_sources a) < maxSources"
    and s: "ss_connections s = int (count_list conns key)" "ss_auth s = int (count_list auths key)"
    and other: "\<And>k. k \<noteq> key \<Longrightarrow> count_list conns k = count_list (ad_conns a) k \<and> count_list auths k = count_list (ad_auths a) k"
    and lim: "int (count_list conns key) \<le> max 0 (li_PerSource l)" "count_list auths key \<le> 1"
      "int (length conns) \<le> max 0 (li_Connections l)"
  shows "adm_inv l (a\<lparr>ad_sources := put_source key s (ad_sources a), ad_total := int (length conns), ad_conns := conns, ad_auths := auths\<rparr>)"
    (is "adm_inv l ?a")
proof -
  have c: "counts ?a k = (int (count_list conns k), int (count_list auths k))" for k
  proof (cases "k = key")
    case False
    then have "counts ?a k = counts a k" by (simp add: counts_def map_of_put_source)
    with inv other [OF False] show ?thesis by (simp add: adm_inv_def)
  qed (simp add: counts_def map_of_put_source s)
  have "int (count_list conns k) \<le> max 0 (li_PerSource l) \<and> count_list auths k \<le> 1" for k
    using inv lim other [of k] by (cases "k = key") (simp_all add: adm_inv_def)
  with c inv room lim show ?thesis
    by (auto simp: adm_inv_def distinct_put_source length_put_source)
qed

lemma connect_inv:
  assumes inv: "adm_inv l a" and c: "connect key now a = (ok, a')"
  shows "adm_inv l a'"
proof -
  define b where "b = sweep now a"
  have b: "adm_inv l b" using sweep_inv [OF inv] by (simp add: b_def)
  define s where "s = (case map_of (ad_sources b) key of None \<Rightarrow> new_source | Some s \<Rightarrow> s)\<lparr>ss_touched := now\<rparr>"
  have cs: "(ss_connections s, ss_auth s) = counts b key"
    by (auto simp: s_def counts_def new_source_def split: option.splits)
  obtain t bk where t: "take_token (ss_accepts s) now 1 32 = (t, bk)" by fastforce
  let ?room = "map_of (ad_sources b) key = None \<longrightarrow> length (ad_sources b) < maxSources"
  let ?taken = "b\<lparr>ad_sources := put_source key (s\<lparr>ss_accepts := bk, ss_connections := ss_connections s + 1\<rparr>) (ad_sources b),
         ad_total := ad_total b + 1, ad_conns := key # ad_conns b\<rparr>"
  have "connect key now a =
      (if ad_total b \<ge> li_Connections (ad_limits b) then (False, b)
       else if map_of (ad_sources b) key = None \<and> length (ad_sources b) \<ge> maxSources then (False, b)
       else if ss_connections s \<ge> li_PerSource (ad_limits b) then (False, b\<lparr>ad_sources := put_source key s (ad_sources b)\<rparr>)
       else if t then (True, ?taken)
       else (False, b\<lparr>ad_sources := put_source key (s\<lparr>ss_accepts := bk\<rparr>) (ad_sources b)\<rparr>))"
    using t unfolding connect_def Let_def b_def [symmetric] s_def [symmetric] by (cases t) simp_all
  with c have "a' = b \<or> ?room \<and> a' = b\<lparr>ad_sources := put_source key s (ad_sources b)\<rparr>
      \<or> ?room \<and> a' = b\<lparr>ad_sources := put_source key (s\<lparr>ss_accepts := bk\<rparr>) (ad_sources b)\<rparr>
      \<or> ?room \<and> ad_total b < li_Connections (ad_limits b) \<and> ss_connections s < li_PerSource (ad_limits b) \<and> a' = ?taken"
    by (auto split: if_split_asm)
  then consider "a' = b" | "?room" "a' = b\<lparr>ad_sources := put_source key s (ad_sources b)\<rparr>"
    | "?room" "a' = b\<lparr>ad_sources := put_source key (s\<lparr>ss_accepts := bk\<rparr>) (ad_sources b)\<rparr>"
    | "?room" "ad_total b < li_Connections (ad_limits b)" "ss_connections s < li_PerSource (ad_limits b)" "a' = ?taken"
    by blast
  then show ?thesis
  proof cases
    case 1
    with b show ?thesis by simp
  next
    case 2
    with put_inv [OF b 2(2)] cs show ?thesis by simp
  next
    case 3
    with put_inv [OF b 3(2)] cs show ?thesis by simp
  next
    case 4
    have l: "ad_limits b = l" "ad_total b = int (length (ad_conns b))"
      "counts b key = (int (count_list (ad_conns b) key), int (count_list (ad_auths b) key))" "count_list (ad_auths b) key \<le> 1"
      using b by (auto simp: adm_inv_def)
    have "adm_inv l (b\<lparr>ad_sources := put_source key (s\<lparr>ss_accepts := bk, ss_connections := ss_connections s + 1\<rparr>) (ad_sources b),
        ad_total := int (length (key # ad_conns b)), ad_conns := key # ad_conns b, ad_auths := ad_auths b\<rparr>)"
      using 4 cs l by (intro update_inv [OF b]) auto
    with 4 l show ?thesis by (simp add: add.commute)
  qed
qed

lemma release_conn_inv:
  assumes inv: "adm_inv l a"
  shows "adm_inv l (release_conn key now a)"
proof (cases "key \<in> set (ad_conns a)")
  case True
  have n: "0 < count_list (ad_conns a) key" "0 < length (ad_conns a)" using count_list_pos [OF True] True by auto
  have k: "counts a key = (int (count_list (ad_conns a) key), int (count_list (ad_auths a) key))"
    and "int (count_list (ad_conns a) key) \<le> max 0 (li_PerSource l)" "count_list (ad_auths a) key \<le> 1"
    and t: "ad_total a = int (length (ad_conns a))" "ad_total a \<le> max 0 (li_Connections l)"
    using inv by (auto simp: adm_inv_def)
  obtain s where s: "map_of (ad_sources a) key = Some s" using k n by (auto simp: counts_def split: option.splits)
  let ?s = "s\<lparr>ss_connections := ss_connections s - 1, ss_touched := now\<rparr>"
  have len: "int (length (remove1 key (ad_conns a))) = int (length (ad_conns a)) - 1"
    using True n by (simp add: length_remove1 of_nat_diff del: length_greater_0_conv)
  have "adm_inv l (a\<lparr>ad_sources := put_source key ?s (ad_sources a), ad_total := int (length (remove1 key (ad_conns a))),
      ad_conns := remove1 key (ad_conns a), ad_auths := ad_auths a\<rparr>)"
    by (rule update_inv [OF inv]) (use k s n t len \<open>int (count_list (ad_conns a) key) \<le> max 0 (li_PerSource l)\<close>
      \<open>count_list (ad_auths a) key \<le> 1\<close> in \<open>auto simp: counts_def count_remove1 of_nat_diff\<close>)
  with True s len t show ?thesis by (simp add: release_conn_def)
qed (simp add: release_conn_def inv)

lemma authenticate_inv:
  assumes inv: "adm_inv l a" and c: "authenticate key now a = (ok, a')"
  shows "adm_inv l a'"
proof (cases "map_of (ad_sources a) key")
  case None
  with c inv show ?thesis by (simp add: authenticate_def)
next
  case (Some s)
  obtain t bk where t: "take_token (ss_attempts s) now (of_int (li_AuthPerMinute (ad_limits a)) / 60) (li_AuthBurst (ad_limits a)) = (t, bk)"
    by fastforce
  have k: "counts a key = (int (count_list (ad_conns a) key), int (count_list (ad_auths a) key))"
    and per: "int (count_list (ad_conns a) key) \<le> max 0 (li_PerSource l)"
    and tot: "ad_total a = int (length (ad_conns a))" "ad_total a \<le> max 0 (li_Connections l)"
    using inv by (auto simp: adm_inv_def)
  let ?s = "s\<lparr>ss_touched := now\<rparr>"
  let ?taken = "a\<lparr>ad_sources := put_source key (?s\<lparr>ss_attempts := bk, ss_auth := ss_auth s + 1\<rparr>) (ad_sources a),
         ad_auths := key # ad_auths a\<rparr>"
  have "authenticate key now a =
      (if ss_auth s \<ge> 1 then (False, a\<lparr>ad_sources := put_source key ?s (ad_sources a)\<rparr>)
       else if t then (True, ?taken) else (False, a\<lparr>ad_sources := put_source key (?s\<lparr>ss_attempts := bk\<rparr>) (ad_sources a)\<rparr>))"
    using Some t by (cases t) (simp_all add: authenticate_def)
  with c have "a' = a\<lparr>ad_sources := put_source key ?s (ad_sources a)\<rparr>
      \<or> a' = a\<lparr>ad_sources := put_source key (?s\<lparr>ss_attempts := bk\<rparr>) (ad_sources a)\<rparr> \<or> ss_auth s < 1 \<and> a' = ?taken"
    by (auto split: if_split_asm)
  then consider "a' = a\<lparr>ad_sources := put_source key ?s (ad_sources a)\<rparr>"
    | "a' = a\<lparr>ad_sources := put_source key (?s\<lparr>ss_attempts := bk\<rparr>) (ad_sources a)\<rparr>" | "ss_auth s < 1" "a' = ?taken"
    by blast
  then show ?thesis
  proof cases
    case 1
    with put_inv [OF inv 1] Some show ?thesis by (simp add: counts_def)
  next
    case 2
    with put_inv [OF inv 2] Some show ?thesis by (simp add: counts_def)
  next
    case 3
    have "adm_inv l (a\<lparr>ad_sources := put_source key (?s\<lparr>ss_attempts := bk, ss_auth := ss_auth s + 1\<rparr>) (ad_sources a),
        ad_total := int (length (ad_conns a)), ad_conns := ad_conns a, ad_auths := key # ad_auths a\<rparr>)"
      by (rule update_inv [OF inv]) (use 3 Some k per tot in \<open>auto simp: counts_def\<close>)
    then show ?thesis by (simp add: 3(2) tot(1) [symmetric])
  qed
qed

lemma release_auth_inv:
  assumes inv: "adm_inv l a"
  shows "adm_inv l (release_auth key now a)"
proof (cases "key \<in> set (ad_auths a)")
  case True
  have n: "0 < count_list (ad_auths a) key" using count_list_pos [OF True] True by auto
  have k: "counts a key = (int (count_list (ad_conns a) key), int (count_list (ad_auths a) key))"
    and per: "int (count_list (ad_conns a) key) \<le> max 0 (li_PerSource l)" "count_list (ad_auths a) key \<le> 1"
    and t: "ad_total a = int (length (ad_conns a))" "ad_total a \<le> max 0 (li_Connections l)"
    using inv by (auto simp: adm_inv_def)
  obtain s where s: "map_of (ad_sources a) key = Some s" using k n by (auto simp: counts_def split: option.splits)
  let ?s = "s\<lparr>ss_auth := ss_auth s - 1, ss_touched := now\<rparr>"
  have "adm_inv l (a\<lparr>ad_sources := put_source key ?s (ad_sources a), ad_total := int (length (ad_conns a)),
      ad_conns := ad_conns a, ad_auths := remove1 key (ad_auths a)\<rparr>)"
    by (rule update_inv [OF inv]) (use k s n t per in \<open>auto simp: counts_def count_remove1 of_nat_diff\<close>)
  then show ?thesis using True s by (simp add: release_auth_def t(1) [symmetric])
qed (simp add: release_auth_def inv)

lemma adm_reach_inv: "adm_reach l a \<Longrightarrow> adm_inv l a"
proof (induction rule: adm_reach.induct)
  case start
  show ?case by (simp add: adm_inv_def newAdmission_def counts_def)
next
  case (step a a')
  from step.hyps(2) step.IH show ?case
    by (cases rule: adm_step.cases) (auto intro: connect_inv release_conn_inv authenticate_inv release_auth_inv)
qed


subsection \<open>The token bucket\<close>

fun take_tokens :: "rat \<Rightarrow> int \<Rightarrow> time list \<Rightarrow> bucket \<Rightarrow> bool list" where
  "take_tokens rate burst [] b = []"
| "take_tokens rate burst (t # ts) b = (let (ok, b) = take_token b t rate burst in ok # take_tokens rate burst ts b)"

lemma seconds_diff: "seconds (b - a) + seconds (c - b) = seconds (c - a)"
  by (simp add: seconds_def add_divide_distrib [symmetric])

text \<open>A token is only given out of the bucket: the tokens given and left are at most those there plus those added since.\<close>

lemma take_token_step:
  assumes "take_token b t rate burst = (ok, b')" and "0 \<le> rate" and "0 \<le> burst" and "t \<noteq> 0"
    and "0 \<le> bk_tokens b" and "bk_at b \<noteq> 0" and "bk_at b \<le> t"
  shows "bk_at b' = t" and "0 \<le> bk_tokens b'"
    and "of_bool ok + bk_tokens b' \<le> bk_tokens b + seconds (t - bk_at b) * rate"
proof -
  have "0 \<le> seconds (t - bk_at b)" using assms(7) by (simp add: seconds_def)
  moreover from this have "0 \<le> bk_tokens b + seconds (t - bk_at b) * rate" using assms by (simp add: add_nonneg_nonneg)
  ultimately show "bk_at b' = t" and "0 \<le> bk_tokens b'"
    and "of_bool ok + bk_tokens b' \<le> bk_tokens b + seconds (t - bk_at b) * rate"
    using assms by (auto simp: take_token_def Let_def max_def min_def split: if_splits)
qed

lemma take_tokens_bound:
  "\<lbrakk>sorted (bk_at b # ts); 0 \<le> rate; 0 \<le> burst; bk_at b > 0; 0 \<le> bk_tokens b\<rbrakk> \<Longrightarrow>
   of_nat (count_list (take_tokens rate burst ts b) True) \<le> bk_tokens b + seconds (last (bk_at b # ts) - bk_at b) * rate"
proof (induction ts arbitrary: b)
  case Nil
  then show ?case by (simp add: seconds_def)
next
  case (Cons t ts)
  obtain ok b' where t: "take_token b t rate burst = (ok, b')" by fastforce
  have st: "bk_at b' = t" "0 \<le> bk_tokens b'" "of_bool ok + bk_tokens b' \<le> bk_tokens b + seconds (t - bk_at b) * rate"
    using take_token_step [OF t] Cons.prems by auto
  have "of_nat (count_list (take_tokens rate burst ts b') True) \<le> bk_tokens b' + seconds (last (t # ts) - t) * rate"
    using Cons.IH [of b'] Cons.prems st by auto
  moreover have "seconds (t - bk_at b) * rate + seconds (last (t # ts) - t) * rate = seconds (last (t # ts) - bk_at b) * rate"
    by (simp only: distrib_right [symmetric] seconds_diff)
  ultimately show ?case using st(3) t by (cases ok) (auto simp: Let_def)
qed

subsection \<open>Properties\<close>

text \<open>
  C12: The limits of the server hold in every state it can reach, whatever the order of connections, closings, authentications and
  the times of the calls. The total is the number of open connections and stays within Connections; each source holds at most PerSource of them and
  at most one running authentication; the table never holds more than 4096 sources; and a source with an open connection or a running authentication stays
  in the table with its exact counts, so that every close finds what it has to undo.
\<close>

theorem admission_limits_hold:
  assumes "adm_reach l a" and "0 \<le> li_Connections l" and "0 \<le> li_PerSource l"
  shows "ad_total a = int (length (ad_conns a)) \<and> ad_total a \<le> li_Connections l
    \<and> length (ad_sources a) \<le> 4096
    \<and> int (count_list (ad_conns a) key) \<le> li_PerSource l \<and> count_list (ad_auths a) key \<le> 1
    \<and> (key \<in> set (ad_conns a) \<union> set (ad_auths a) \<longrightarrow>
        (\<exists>s. map_of (ad_sources a) key = Some s \<and> ss_connections s = int (count_list (ad_conns a) key)
             \<and> ss_auth s = int (count_list (ad_auths a) key)))"
proof -
  have inv: "adm_inv l a" using adm_reach_inv [OF assms(1)] .
  have "\<exists>s. map_of (ad_sources a) key = Some s \<and> ss_connections s = int (count_list (ad_conns a) key)
      \<and> ss_auth s = int (count_list (ad_auths a) key)" if "key \<in> set (ad_conns a) \<union> set (ad_auths a)"
  proof -
    have "counts a key = (int (count_list (ad_conns a) key), int (count_list (ad_auths a) key))"
      using inv by (simp add: adm_inv_def)
    moreover have "count_list (ad_conns a) key \<noteq> 0 \<or> count_list (ad_auths a) key \<noteq> 0"
      using that by (auto dest!: count_list_pos)
    ultimately show ?thesis by (auto simp: counts_def split: option.splits)
  qed
  moreover have "int (count_list (ad_conns a) key) \<le> max 0 (li_PerSource l)" "count_list (ad_auths a) key \<le> 1"
    using inv by (simp_all add: adm_inv_def)
  ultimately show ?thesis using inv assms(2,3) by (simp add: adm_inv_def maxSources_def max_def)
qed

theorem admission_limits_hold_witness:
  "fst (connect ''10.0.0.1'' 1 (newAdmission DefaultLimits))
   \<and> ad_total (snd (connect ''10.0.0.1'' 1 (newAdmission DefaultLimits))) \<le> 128"
proof -
  let ?a = "snd (connect ''10.0.0.1'' 1 (newAdmission DefaultLimits))"
  have "adm_reach DefaultLimits ?a"
    by (intro adm_reach.step [OF adm_reach.start] adm_step.connect) (simp add: prod_eq_iff)
  from admission_limits_hold [OF this, of "''10.0.0.1''"] show ?thesis
    by (simp add: DefaultLimits_def connect_def sweep_def newAdmission_def new_source_def take_token_def maxSources_def Let_def)
qed



end
