(* ===== verification/Database.thy ===== *)
theory Database
  imports Go_Strings Smtp_Client
begin

text \<open>
  The tables of the PostgreSQL schema (migrations/) the delivery code works on, as lists of row records, with the
  constraints an INSERT can violate. A nullable column is an option. Columns that no statement of the modelled code
  reads and that only record evidence are kept together in the result an attempt ended with. Row locks are taken by statements; since
  every transaction is one step here, a lock only matters to FOR UPDATE SKIP LOCKED, which passes over the rows
  that others hold: the environment says which.
\<close>

type_synonym ts = "time option"

subsection \<open>Rows\<close>

record message =
  m_id :: string
  m_source_type :: string
  m_smtp_account_id :: "string option"
  m_api_key_id :: "string option"
  m_environment :: string
  m_envelope_from :: string
  m_header_from :: "string option"
  m_created_at :: time
  m_completed_at :: ts
  m_status :: status
  m_eml_path :: string
  m_eml_size :: int
  m_eml_sha256 :: string
  m_archive_state :: string
  m_last_error :: "string option"
  m_next_attempt_at :: ts
  m_attempt_count :: int
  m_locked_at :: ts
  m_locked_by :: "string option"
  m_lease_expires_at :: ts
  m_route_provider_id :: "string option"
  m_message_stream :: string
  m_expires_at :: ts
  m_schedule_at :: ts
  m_cancelled_at :: ts

record rcpt =
  r_id :: string
  r_message_id :: string
  r_address :: string
  r_status :: status
  r_provider_id :: "string option"
  r_smtp_code :: "int option"
  r_smtp_response :: "string option"
  r_completed_at :: ts
  r_attempt_count :: int
  r_retry_started_at :: ts
  r_retry_at :: ts
  r_retry_automatic :: bool
  r_decision :: "json option"

record attempt =
  a_id :: string
  a_message_id :: string
  a_provider_id :: string
  a_number :: int
  a_started_at :: time
  a_result :: status
  a_claim_token :: string
  a_data_armed_at :: ts
  a_suppression_blocked_at :: ts
  a_expiry_blocked_at :: ts
  a_finished_at :: ts
  a_error_class :: "string option"
  a_evidence :: "result option"
  a_health_outcome :: "outcome option"
  a_health_observed_at :: ts

record attempt_rcpt =
  ar_attempt_id :: string
  ar_recipient_id :: string
  ar_status :: status
  ar_smtp_code :: "int option"
  ar_enhanced :: "string option"
  ar_response :: "string option"
  ar_decision :: "json option"
  ar_protocol_stage :: "string option"

record event_row =
  e_message_id :: string
  e_attempt_id :: "string option"
  e_recipient_id :: "string option"
  e_type :: string
  e_time :: time
  e_source :: string
  e_data :: json
  e_sequence :: "int option"

record provider_row =
  pv_id :: string
  pv_name :: string
  pv_enabled :: bool
  pv_host :: string
  pv_port :: int
  pv_security :: string
  pv_username :: string
  pv_ciphertext :: string
  pv_nonce :: string
  pv_priority :: int
  pv_hourly_limit :: "int option"
  pv_daily_limit :: "int option"
  pv_max_connections :: int
  pv_timeout_seconds :: int
  pv_from_domains :: "string list"
  pv_health_check_enabled :: bool
  pv_quota_group_id :: "string option"
  pv_revision :: int

datatype circuit = CLOSED | OPEN | HALF_OPEN

record health_row =
  h_provider_id :: string
  h_status :: string
  h_circuit_state :: circuit
  h_open_until :: ts
  h_probe_attempt_id :: "string option"
  h_samples_since :: time
  h_last_success_at :: ts
  h_last_failure_at :: ts
  h_last_error :: "string option"

record quota_row =
  q_attempt_id :: string
  q_provider_id :: string
  q_reserved_at :: time
  q_units :: int

record group_row =
  g_id :: string
  g_name :: string
  g_hourly_limit :: int
  g_daily_limit :: int
  g_revision :: int

record suppression_row =
  su_id :: string
  su_email :: string
  su_reason :: string
  su_source :: string
  su_created_at :: time
  su_expires_at :: ts
  su_released_at :: ts
  su_created_by :: string
  su_note :: string

record owner_row =
  ow_key :: string
  ow_last_ticket :: int
  ow_cursor :: int

record stream_row =
  st_api_key_id :: string
  st_name :: string
  st_enabled :: bool
  st_weight :: int
  st_minute_limit :: int
  st_hour_limit :: int
  st_day_limit :: int

record audit_row =
  au_action :: string
  au_actor :: string
  au_data :: json

text \<open>The database, with the next value of the sequence queue_fair_ticket and the server's function lower().\<close>

record db =
  messages :: "message list"
  recipients :: "rcpt list"
  attempts :: "attempt list"
  attempt_recipients :: "attempt_rcpt list"
  events :: "event_row list"
  providers :: "provider_row list"
  provider_health :: "health_row list"
  provider_quota :: "quota_row list"
  quota_groups :: "group_row list"
  suppressions :: "suppression_row list"
  fair_owners :: "owner_row list"
  message_streams :: "stream_row list"
  audit :: "audit_row list"
  next_ticket :: int
  pg_lower :: "string \<Rightarrow> string"

text \<open>
  What a transaction takes from its surroundings: now() of the transaction, clock_timestamp() in its n-th statement,
  time.Now() of the process, the rows other transactions hold locked, the identifiers it draws, and which texts
  the package github.com/google/uuid parses.
\<close>

record env =
  now :: time
  clk :: "nat \<Rightarrow> time"
  host :: time
  locked_messages :: "string \<Rightarrow> bool"
  locked_providers :: "string \<Rightarrow> bool"
  locked_owners :: "string \<Rightarrow> bool"
  fresh_token :: string
  fresh_id :: string
  uuid_valid :: "string \<Rightarrow> bool"

subsection \<open>Statements\<close>

abbreviation upd_messages :: "(message \<Rightarrow> bool) \<Rightarrow> (message \<Rightarrow> message) \<Rightarrow> db \<Rightarrow> db" where
  "upd_messages p f d \<equiv> d\<lparr>messages := update_where p f (messages d)\<rparr>"

abbreviation upd_recipients :: "(rcpt \<Rightarrow> bool) \<Rightarrow> (rcpt \<Rightarrow> rcpt) \<Rightarrow> db \<Rightarrow> db" where
  "upd_recipients p f d \<equiv> d\<lparr>recipients := update_where p f (recipients d)\<rparr>"

abbreviation upd_attempts :: "(attempt \<Rightarrow> bool) \<Rightarrow> (attempt \<Rightarrow> attempt) \<Rightarrow> db \<Rightarrow> db" where
  "upd_attempts p f d \<equiv> d\<lparr>attempts := update_where p f (attempts d)\<rparr>"

abbreviation upd_attempt_rcpts :: "(attempt_rcpt \<Rightarrow> bool) \<Rightarrow> (attempt_rcpt \<Rightarrow> attempt_rcpt) \<Rightarrow> db \<Rightarrow> db" where
  "upd_attempt_rcpts p f d \<equiv> d\<lparr>attempt_recipients := update_where p f (attempt_recipients d)\<rparr>"

abbreviation upd_health :: "(health_row \<Rightarrow> bool) \<Rightarrow> (health_row \<Rightarrow> health_row) \<Rightarrow> db \<Rightarrow> db" where
  "upd_health p f d \<equiv> d\<lparr>provider_health := update_where p f (provider_health d)\<rparr>"

definition recipients_of :: "db \<Rightarrow> string \<Rightarrow> rcpt list" where
  "recipients_of d mid = filter (\<lambda>r. r_message_id r = mid) (recipients d)"

text \<open>
  Inserting an attempt fails on its primary key, on a repeated number for the message, and on a second attempt in
  progress of the message (the index one_active_attempt_per_message).
\<close>

definition insert_attempt :: "attempt \<Rightarrow> db \<Rightarrow> err + db" where
  "insert_attempt a d =
     (if \<exists>b \<in> set (attempts d). a_id b = a_id a
          \<or> (a_message_id b = a_message_id a \<and> (a_number b = a_number a \<or> (a_result b = IN_PROGRESS \<and> a_result a = IN_PROGRESS)))
      then Inl ErrConstraint else Inr (d\<lparr>attempts := attempts d @ [a]\<rparr>))"

definition insert_attempt_rcpt :: "attempt_rcpt \<Rightarrow> db \<Rightarrow> err + db" where
  "insert_attempt_rcpt a d =
     (if \<exists>b \<in> set (attempt_recipients d). ar_attempt_id b = ar_attempt_id a \<and> ar_recipient_id b = ar_recipient_id a
      then Inl ErrConstraint else Inr (d\<lparr>attempt_recipients := attempt_recipients d @ [a]\<rparr>))"

definition insert_quota :: "quota_row \<Rightarrow> db \<Rightarrow> err + db" where
  "insert_quota q d =
     (if q_units q \<le> 0 \<or> (\<exists>b \<in> set (provider_quota d). q_attempt_id b = q_attempt_id q)
      then Inl ErrConstraint else Inr (d\<lparr>provider_quota := provider_quota d @ [q]\<rparr>))"

definition empty_db :: "(string \<Rightarrow> string) \<Rightarrow> db" where
  "empty_db lower = \<lparr>messages = [], recipients = [], attempts = [], attempt_recipients = [], events = [], providers = [], provider_health = [],
     provider_quota = [], quota_groups = [], suppressions = [], fair_owners = [], message_streams = [], audit = [], next_ticket = 1,
     pg_lower = lower\<rparr>"

text \<open>The ledger of events only grows; its identifiers are fresh. Conflicting sequence numbers are handled by the caller.\<close>

definition append_event :: "event_row \<Rightarrow> db \<Rightarrow> db" where
  "append_event e d = d\<lparr>events := events d @ [e]\<rparr>"

definition append_audit :: "string \<Rightarrow> string \<Rightarrow> json \<Rightarrow> db \<Rightarrow> db" where
  "append_audit action actor data d = d\<lparr>audit := audit d @ [\<lparr>au_action = action, au_actor = actor, au_data = data\<rparr>]\<rparr>"

lemma append_event_simps [simp]:
  "messages (append_event e d) = messages d" "recipients (append_event e d) = recipients d"
  "attempts (append_event e d) = attempts d" "attempt_recipients (append_event e d) = attempt_recipients d"
  "providers (append_event e d) = providers d" "provider_health (append_event e d) = provider_health d"
  "provider_quota (append_event e d) = provider_quota d" "quota_groups (append_event e d) = quota_groups d"
  "suppressions (append_event e d) = suppressions d" "fair_owners (append_event e d) = fair_owners d"
  "message_streams (append_event e d) = message_streams d" "audit (append_event e d) = audit d"
  "next_ticket (append_event e d) = next_ticket d" "pg_lower (append_event e d) = pg_lower d"
  "events (append_event e d) = events d @ [e]"
  by (simp_all add: append_event_def)

end
