(* ===== verification/Go_Net.thy ===== *)
theory Go_Net
  imports Go_Strings
begin

text \<open>
  Textual addresses as Go's packages net, net/netip and net/mail read them: IPv4 and IPv6 addresses and single bare mailboxes. An IPv4
  address is a list of four bytes, an IPv6 address one of sixteen.
\<close>

subsection \<open>IP addresses\<close>

definition ipv4_field :: "string \<Rightarrow> nat option" where
  "ipv4_field f =
     (if f = [] \<or> \<not> list_all is_digit f \<or> length f > 3 \<or> (length f > 1 \<and> hd f = CHR ''0'') \<or> digits_value f > 255
      then None else Some (nat (digits_value f)))"

fun all_some :: "'a option list \<Rightarrow> 'a list option" where
  "all_some [] = Some []"
| "all_some (None # xs) = None"
| "all_some (Some x # xs) = map_option (\<lambda>ys. x # ys) (all_some xs)"

definition parse_ipv4 :: "string \<Rightarrow> nat list option" where
  "parse_ipv4 s = (let fs = split_on CHR ''.'' s in if length fs \<noteq> 4 then None else all_some (map ipv4_field fs))"

definition hex_digit :: "char \<Rightarrow> nat option" where
  "hex_digit c =
     (if is_digit c then Some (byte c - 48)
      else if 97 \<le> byte c \<and> byte c \<le> 102 then Some (byte c - 87)
      else if 65 \<le> byte c \<and> byte c \<le> 70 then Some (byte c - 55) else None)"

definition is_hex :: "char \<Rightarrow> bool" where
  "is_hex c = (hex_digit c \<noteq> None)"

definition hex_value :: "string \<Rightarrow> nat" where
  "hex_value s = fold (\<lambda>c n. 16 * n + (case hex_digit c of Some d \<Rightarrow> d | None \<Rightarrow> 0)) s 0"

text \<open>
  The loop of netip's parseIPv6: the bytes read so far, the position of the ellipsis, and the rest of the text. The fuel bounds the at
  most eight groups.
\<close>

fun ipv6_groups :: "nat \<Rightarrow> string \<Rightarrow> nat list \<Rightarrow> nat option \<Rightarrow> (nat list \<times> nat option) option" where
  "ipv6_groups 0 s bs el = (if s = [] then Some (bs, el) else None)"
| "ipv6_groups (Suc n) s bs el =
     (let h = takeWhile is_hex s; r = drop (length h) s in
      if h = [] \<or> length h > 4 then None
      else if r \<noteq> [] \<and> hd r = CHR ''.'' then
        (if (el = None \<and> length bs \<noteq> 12) \<or> length bs + 4 > 16 then None
         else map_option (\<lambda>v4. (bs @ v4, el)) (parse_ipv4 s))
      else
        (let bs = bs @ [hex_value h div 256, hex_value h mod 256] in
         if r = [] then Some (bs, el)
         else if hd r \<noteq> CHR '':'' \<or> length r = 1 then None
         else if hd (tl r) = CHR '':'' then
           (if el \<noteq> None then None
            else if tl (tl r) = [] then Some (bs, Some (length bs))
            else ipv6_groups n (tl (tl r)) bs (Some (length bs)))
         else ipv6_groups n (tl r) bs el))"

definition expand_ipv6 :: "nat list \<times> nat option \<Rightarrow> nat list option" where
  "expand_ipv6 = (\<lambda>(bs, el). case el of
     None \<Rightarrow> if length bs = 16 then Some bs else None
   | Some e \<Rightarrow> if length bs < 16 then Some (take e bs @ replicate (16 - length bs) 0 @ drop e bs) else None)"

definition parse_ipv6 :: "string \<Rightarrow> nat list option" where
  "parse_ipv6 s =
     (if prefix ''::'' s then
        (if length s = 2 then Some (replicate 16 0)
         else Option.bind (ipv6_groups 8 (drop 2 s) [] (Some 0)) expand_ipv6)
      else Option.bind (ipv6_groups 8 s [] None) expand_ipv6)"

text \<open>net.ParseIP: no zones; the first dot or colon decides between the two forms.\<close>

definition parse_ip :: "string \<Rightarrow> nat list option" where
  "parse_ip s = (case find (\<lambda>c. c = CHR ''.'' \<or> c = CHR '':'' \<or> c = CHR ''%'') s of
     Some c \<Rightarrow> if c = CHR ''.'' then parse_ipv4 s
       else if c = CHR '':'' \<and> CHR ''%'' \<notin> set s then parse_ipv6 s else None
   | None \<Rightarrow> None)"

lemma all_some_length: "all_some xs = Some ys \<Longrightarrow> length ys = length xs"
  by (induction xs arbitrary: ys rule: all_some.induct) auto

lemma all_some_set: "all_some xs = Some ys \<Longrightarrow> y \<in> set ys \<Longrightarrow> Some y \<in> set xs"
  by (induction xs arbitrary: ys rule: all_some.induct) auto

lemma parse_ipv4_length: "parse_ipv4 s = Some bs \<Longrightarrow> length bs = 4"
  by (auto simp: parse_ipv4_def Let_def dest!: all_some_length split: if_splits)

lemma expand_ipv6_length:
  "expand_ipv6 (bs, el) = Some ip \<Longrightarrow> el = None \<or> the el \<le> length bs \<Longrightarrow> length ip = 16"
  by (auto simp: expand_ipv6_def split: option.splits if_splits)

lemma ipv6_groups_ellipsis:
  "ipv6_groups n s bs el = Some (bs', el') \<Longrightarrow> el = None \<or> the el \<le> length bs \<Longrightarrow> el' = None \<or> the el' \<le> length bs'"
proof (induction n s bs el rule: ipv6_groups.induct)
  case (2 n s bs el)
  then show ?case
    by (fastforce simp: Let_def split: if_splits)
qed (auto split: if_splits)

lemma parse_ip_length: "parse_ip s = Some ip \<Longrightarrow> length ip = 4 \<or> length ip = 16"
proof -
  assume "parse_ip s = Some ip"
  then consider "parse_ipv4 s = Some ip" | "parse_ipv6 s = Some ip"
    by (auto simp: parse_ip_def split: option.splits if_splits)
  then show ?thesis
  proof cases
    case 1
    then show ?thesis by (simp add: parse_ipv4_length)
  next
    case 2
    then consider "ip = replicate 16 0" | bs el where "ipv6_groups 8 (drop 2 s) [] (Some 0) = Some (bs, el)" "expand_ipv6 (bs, el) = Some ip"
      | bs el where "ipv6_groups 8 s [] None = Some (bs, el)" "expand_ipv6 (bs, el) = Some ip"
      by (auto simp: parse_ipv6_def split: if_splits bind_splits)
    then show ?thesis
      by cases (auto dest: ipv6_groups_ellipsis expand_ipv6_length)
  qed
qed

subsection \<open>Mailboxes\<close>

text \<open>
  mail.ParseAddress(s) with the result's Address equal to s: an addr-spec with a dot-atom before the at sign and a dot-atom or
  a domain literal behind it. A quoted local part, white space or a comment would make the result differ from the text.
\<close>

definition atext :: "char \<Rightarrow> bool" where
  "atext c = (c \<notin> set ''()<>[]:;@,'' \<and> c \<noteq> CHR 0x5C \<and> c \<noteq> CHR 0x22 \<and> byte c \<ge> 33 \<and> byte c \<noteq> 127)"

fun double_dot :: "string \<Rightarrow> bool" where
  "double_dot (a # b # s) = (a = CHR ''.'' \<and> b = CHR ''.'' \<or> double_dot (b # s))"
| "double_dot _ = False"

definition dot_atom :: "string \<Rightarrow> bool" where
  "dot_atom s = (s \<noteq> [] \<and> list_all atext s \<and> valid_utf8 s \<and> hd s \<noteq> CHR ''.'' \<and> last s \<noteq> CHR ''.'' \<and> \<not> double_dot s)"

definition domain_literal :: "string \<Rightarrow> bool" where
  "domain_literal s = (length s \<ge> 2 \<and> hd s = CHR ''['' \<and> last s = CHR '']'' \<and>
     (let d = butlast (tl s) in list_all (\<lambda>c. atext c \<or> c \<in> set '':(),;<>@'' \<or> c = CHR 0x22) d
        \<and> parse_ip (if prefix ''IPv6:'' d then drop 5 d else d) \<noteq> None))"

definition bare_mailbox :: "string \<Rightarrow> bool" where
  "bare_mailbox s = (let (l, d, ok) = cut_on CHR ''@'' s in ok \<and> dot_atom l \<and> (dot_atom d \<or> domain_literal d))"

end
