(* ===== verification/Suppression.thy ===== *)
theory Suppression
  imports Database Go_Net
begin

text \<open>
  The global suppression list (internal/suppression/service.go): which addresses are blocked, adding and releasing
  entries, and applying the list to the recipients of a message. The advisory lock serialises writers with the
  readers; here every transaction is a step of its own.
\<close>

subsection \<open>Operations\<close>

definition entry_active :: "time \<Rightarrow> suppression_row \<Rightarrow> bool" where
  "entry_active t se = (su_released_at se = None \<and> (su_expires_at se = None \<or> null_gt (su_expires_at se) t))"

definition entry_for :: "db \<Rightarrow> string \<Rightarrow> suppression_row \<Rightarrow> bool" where
  "entry_for d address se = (pg_lower d (su_email se) = pg_lower d address)"

text \<open>ActiveSQL(address).\<close>

definition suppressed_address :: "time \<Rightarrow> db \<Rightarrow> string \<Rightarrow> bool" where
  "suppressed_address t d address = (\<exists>se \<in> set (suppressions d). entry_for d address se \<and> entry_active t se)"

definition validateEmail :: "string \<Rightarrow> err + unit" where
  "validateEmail s =
     guard_res (bare_mailbox s \<and> length s \<le> 320 \<and> \<not> contains_any s {CR, LF, NUL} \<and> valid_utf8 s)
       (ErrNew ''a single bare mailbox address is required'')"

definition validateAudit :: "string \<Rightarrow> string \<Rightarrow> err + unit" where
  "validateAudit actor reason =
     guard_res (trim_space actor \<noteq> [] \<and> trim_space reason \<noteq> [] \<and> length actor \<le> 128 \<and> length reason \<le> 2048
         \<and> valid_utf8 (actor @ reason) \<and> NUL \<notin> set (actor @ reason))
       (ErrNew ''actor (1..128 bytes) and reason (1..2048 bytes) required'')"

record add_request =
  ad_Email :: string
  ad_Category :: string
  ad_Actor :: string
  ad_Reason :: string
  ad_ExpiresAt :: ts

definition add_json :: "add_request \<Rightarrow> json" where
  "add_json v = JObj ([(''email'', JStr (ad_Email v)), (''category'', JStr (ad_Category v)), (''actor'', JStr (ad_Actor v)),
     (''reason'', JStr (ad_Reason v))] @ (case ad_ExpiresAt v of None \<Rightarrow> [] | Some t \<Rightarrow> [(''expires_at'', JInt t)]))"

text \<open>
  The insertion is refused by the unique index on lower(email) over the entries not released, and by a
  repeated identifier. The statements read the clock once each.
\<close>

definition Add :: "env \<Rightarrow> add_request \<Rightarrow> (db, string) body" where
  "Add E v d =
     bind_res (validateEmail (ad_Email v)) (\<lambda>_.
     bind_res (validateAudit (ad_Actor v) (ad_Reason v)) (\<lambda>_.
     bind_res (guard_res (ad_Category v \<in> {''manual'', ''hard_bounce'', ''complaint'', ''invalid'', ''unsubscribe''})
       (ErrNew ''invalid suppression category'')) (\<lambda>_.
     bind_res (guard_res (ad_ExpiresAt v = None \<or> null_gt (ad_ExpiresAt v) (clk E 0)) (ErrNew ''expiry must be in the future'')) (\<lambda>_.
     bind_res (guard_res (\<not> suppressed_address (clk E 1) d (ad_Email v)) ErrActive) (\<lambda>_.
     let d = d\<lparr>suppressions := update_where (\<lambda>se. entry_for d (ad_Email v) se \<and> su_released_at se = None)
               (\<lambda>se. se\<lparr>su_released_at := Some (clk E 2)\<rparr>) (suppressions d)\<rparr>;
         se = \<lparr>su_id = fresh_id E, su_email = ad_Email v, su_reason = ad_Category v, su_source = ''operator'', su_created_at = now E,
               su_expires_at = ad_ExpiresAt v, su_released_at = None, su_created_by = ad_Actor v, su_note = ad_Reason v\<rparr>
     in bind_res (guard_res (\<forall>se \<in> set (suppressions d). su_id se \<noteq> fresh_id E) ErrConstraint) (\<lambda>_.
        Inr (fresh_id E, append_audit ''SUPPRESSION_ADDED'' (ad_Actor v)
           (JObj [(''id'', JStr (fresh_id E)), (''request'', add_json v), (''scope'', JStr ''gateway_global''),
                  (''normalization'', JStr ''postgres_lower_entire_address'')])
           (d\<lparr>suppressions := suppressions d @ [se]\<rparr>))))))))"

definition Release :: "env \<Rightarrow> string \<Rightarrow> string \<Rightarrow> string \<Rightarrow> (db, unit) body" where
  "Release E sid actor reason d =
     bind_res (guard_res (uuid_valid E sid) (ErrNew ''valid suppression UUID required'')) (\<lambda>_.
     bind_res (validateAudit actor reason) (\<lambda>_.
     bind_res (guard_res (count_where (\<lambda>se. su_id se = sid \<and> su_released_at se = None) (suppressions d) = 1) ErrStale) (\<lambda>_.
     Inr ((), append_audit ''SUPPRESSION_RELEASED'' actor (JObj [(''id'', JStr sid), (''reason'', JStr reason)])
       (d\<lparr>suppressions := update_where (\<lambda>se. su_id se = sid \<and> su_released_at se = None)
            (\<lambda>se. se\<lparr>su_released_at := Some (clk E 0)\<rparr>) (suppressions d)\<rparr>)))))"

record entry =
  en_row :: suppression_row
  en_Active :: bool

definition ListEntries :: "env \<Rightarrow> string \<Rightarrow> string \<Rightarrow> int \<Rightarrow> db \<Rightarrow> err + entry list" where
  "ListEntries E email after limit d =
     bind_res (if email \<noteq> [] then validateEmail email else Inr ()) (\<lambda>_.
     bind_res (guard_res (after = [] \<or> uuid_valid E after) (ErrNew ''invalid cursor'')) (\<lambda>_.
     bind_res (guard_res (1 \<le> limit \<and> limit \<le> 200) (ErrNew ''limit must be 1..200'')) (\<lambda>_.
     Inr (map (\<lambda>se. \<lparr>en_row = se, en_Active = entry_active (clk E 0) se\<rparr>)
       (order_limit su_id (nat limit) (\<lambda>se. (email = [] \<or> entry_for d email se) \<and> (after = [] \<or> su_id se > after)) (suppressions d))))))"

text \<open>
  Apply. The hits are read first, in the order of the recipients' identifiers; each is then written with the
  identifier of the entry that matched. The Boolean says whether the recipients of a running attempt are meant.
\<close>

definition apply_states :: "bool \<Rightarrow> status list" where
  "apply_states sending = (if sending then [SENDING] else [QUEUED, TEMP_FAILED])"

definition apply_hits :: "time \<Rightarrow> string \<Rightarrow> bool \<Rightarrow> db \<Rightarrow> (string \<times> string) list" where
  "apply_hits t mid sending d =
     concat (map (\<lambda>r. map (\<lambda>se. (r_id r, su_id se)) (filter (\<lambda>se. entry_for d (r_address r) se \<and> entry_active t se) (suppressions d)))
       (sort_key r_id (filter (\<lambda>r. r_message_id r = mid \<and> r_status r \<in> set (apply_states sending)) (recipients d))))"

definition suppress_json :: "string \<Rightarrow> json" where
  "suppress_json sid = JObj [(''version'', JInt 1), (''action'', JStr ''SUPPRESS''), (''scope'', JStr ''policy''), (''terminal'', JBool True),
     (''may_have_delivered'', JBool False), (''failover_allowed'', JBool False), (''suppression_id'', JStr sid)]"

definition suppress_recipient :: "time \<Rightarrow> string \<Rightarrow> rcpt \<Rightarrow> rcpt" where
  "suppress_recipient t sid r = r\<lparr>r_status := SUPPRESSED, r_retry_at := None, r_retry_automatic := False,
     r_completed_at := Some t, r_decision := Some (suppress_json sid)\<rparr>"

definition apply_hit :: "env \<Rightarrow> string \<Rightarrow> string \<Rightarrow> bool \<Rightarrow> string \<times> string \<Rightarrow> db \<Rightarrow> db" where
  "apply_hit E mid attempt sending = (\<lambda>(rid, sid) d.
     append_event \<lparr>e_message_id = mid, e_attempt_id = (if attempt = [] then None else Some attempt), e_recipient_id = Some rid,
         e_type = ''RECIPIENT_SUPPRESSED'', e_time = now E, e_source = ''policy'',
         e_data = JObj [(''suppression_id'', JStr sid), (''boundary'', JStr (if sending then ''before_data'' else ''pending''))], e_sequence = None\<rparr>
       (upd_recipients (\<lambda>r. r_id r = rid) (suppress_recipient (clk E 21) sid) d))"

definition Apply :: "env \<Rightarrow> string \<Rightarrow> string \<Rightarrow> bool \<Rightarrow> db \<Rightarrow> nat \<times> db" where
  "Apply E mid attempt sending d =
     (let hits = apply_hits (clk E 20) mid sending d
      in (length hits, fold (apply_hit E mid attempt sending) hits d))"

subsection \<open>What the list promises\<close>

text \<open>At most one entry for an address is not released: the unique index, kept by every operation.\<close>

definition one_open_entry :: "db \<Rightarrow> bool" where
  "one_open_entry d \<longleftrightarrow> distinct (map (\<lambda>se. pg_lower d (su_email se)) (filter (\<lambda>se. su_released_at se = None) (suppressions d)))"

lemma Add_Inr:
  assumes "Add E v d = Inr (sid, d')"
  shows "sid = fresh_id E" and "\<not> suppressed_address (clk E 1) d (ad_Email v)"
    and "ad_ExpiresAt v = None \<or> null_gt (ad_ExpiresAt v) (clk E 0)"
    and "\<forall>se \<in> set (suppressions d). su_id se \<noteq> sid" and "pg_lower d' = pg_lower d"
    and "suppressions d' = update_where (\<lambda>se. entry_for d (ad_Email v) se \<and> su_released_at se = None)
           (\<lambda>se. se\<lparr>su_released_at := Some (clk E 2)\<rparr>) (suppressions d)
         @ [\<lparr>su_id = sid, su_email = ad_Email v, su_reason = ad_Category v, su_source = ''operator'', su_created_at = now E,
             su_expires_at = ad_ExpiresAt v, su_released_at = None, su_created_by = ad_Actor v, su_note = ad_Reason v\<rparr>]"
proof -
  have u: "\<forall>se \<in> set (update_where p (\<lambda>se. se\<lparr>su_released_at := t\<rparr>) xs). su_id se \<noteq> sid \<Longrightarrow> \<forall>se \<in> set xs. su_id se \<noteq> sid" for p t xs
    by (induction xs) (auto split: if_splits)
  let ?old = "update_where (\<lambda>se. entry_for d (ad_Email v) se \<and> su_released_at se = None)
       (\<lambda>se. se\<lparr>su_released_at := Some (clk E 2)\<rparr>) (suppressions d)"
  let ?new = "\<lparr>su_id = sid, su_email = ad_Email v, su_reason = ad_Category v, su_source = ''operator'', su_created_at = now E,
       su_expires_at = ad_ExpiresAt v, su_released_at = None, su_created_by = ad_Actor v, su_note = ad_Reason v\<rparr>"
  have "sid = fresh_id E \<and> \<not> suppressed_address (clk E 1) d (ad_Email v) \<and> (ad_ExpiresAt v = None \<or> null_gt (ad_ExpiresAt v) (clk E 0))
      \<and> (\<forall>se \<in> set ?old. su_id se \<noteq> sid) \<and> pg_lower d' = pg_lower d \<and> suppressions d' = ?old @ [?new]"
    using assms by (clarsimp simp: Add_def Let_def bind_res_Inr_iff append_audit_def)
  with u show "sid = fresh_id E" "\<not> suppressed_address (clk E 1) d (ad_Email v)" "ad_ExpiresAt v = None \<or> null_gt (ad_ExpiresAt v) (clk E 0)"
    "\<forall>se \<in> set (suppressions d). su_id se \<noteq> sid" "pg_lower d' = pg_lower d" "suppressions d' = ?old @ [?new]"
    by blast+
qed

lemma Release_Inr:
  assumes "Release E sid actor reason d = Inr (u, d')"
  shows "count_where (\<lambda>se. su_id se = sid \<and> su_released_at se = None) (suppressions d) = 1" and "pg_lower d' = pg_lower d"
    and "suppressions d' = update_where (\<lambda>se. su_id se = sid \<and> su_released_at se = None)
           (\<lambda>se. se\<lparr>su_released_at := Some (clk E 0)\<rparr>) (suppressions d)"
  using assms by (auto simp: Release_def bind_res_Inr_iff append_audit_def)

text \<open>Retiring the open entries of an address leaves none of them open, and those of other addresses as they are.\<close>

lemma filter_retire:
  "filter (\<lambda>se. su_released_at se = None) (update_where (\<lambda>se. q se \<and> su_released_at se = None) (\<lambda>se. se\<lparr>su_released_at := Some t\<rparr>) xs)
   = filter (\<lambda>se. su_released_at se = None \<and> \<not> q se) xs"
  by (induction xs) auto

lemma Add_one_open:
  assumes "one_open_entry d" and "Add E v d = Inr (sid, d')"
  shows "one_open_entry d'"
proof -
  note a = Add_Inr [OF assms(2)]
  let ?open = "filter (\<lambda>se. su_released_at se = None \<and> \<not> entry_for d (ad_Email v) se) (suppressions d)"
  have "distinct (map (\<lambda>se. pg_lower d (su_email se)) ?open)"
    using assms(1) distinct_map_filter [of "\<lambda>se. pg_lower d (su_email se)" "filter (\<lambda>se. su_released_at se = None) (suppressions d)"
      "\<lambda>se. \<not> entry_for d (ad_Email v) se"]
    by (simp add: one_open_entry_def conj_commute)
  then show ?thesis
    by (auto simp: one_open_entry_def a(5,6) filter_retire entry_for_def)
qed

lemma Release_one_open:
  assumes "one_open_entry d" and "Release E sid actor reason d = Inr (u, d')"
  shows "one_open_entry d'"
proof -
  note a = Release_Inr [OF assms(2)]
  show ?thesis
    using assms(1) distinct_map_filter [of "\<lambda>se. pg_lower d (su_email se)" "filter (\<lambda>se. su_released_at se = None) (suppressions d)"
      "\<lambda>se. su_id se \<noteq> sid"]
    by (simp add: one_open_entry_def a(2,3) filter_retire conj_commute)
qed

lemma entry_active_open: "entry_active t se \<Longrightarrow> su_released_at se = None"
  by (simp add: entry_active_def)

text \<open>With at most one open entry for an address, releasing that entry frees the address.\<close>

lemma open_entry_unique:
  assumes "one_open_entry d" and "x \<in> set (suppressions d)" and "y \<in> set (suppressions d)"
    and "su_released_at x = None" and "su_released_at y = None" and "pg_lower d (su_email x) = pg_lower d (su_email y)"
  shows "x = y"
  using assms by (auto simp: one_open_entry_def distinct_map inj_on_def)

lemma released_free:
  assumes "one_open_entry d" and "Release E sid actor reason d = Inr (u, d')"
    and "se \<in> set (suppressions d)" and "su_id se = sid" and "su_released_at se = None" and "entry_for d address se"
  shows "\<not> suppressed_address t d' address"
proof
  note a = Release_Inr [OF assms(2)]
  assume "suppressed_address t d' address"
  then obtain x where x: "x \<in> set (suppressions d')" "entry_for d address x" "su_released_at x = None"
    by (auto simp: suppressed_address_def entry_for_def a(2) dest: entry_active_open)
  from x(1) obtain r where "r \<in> set (suppressions d)"
    "x = (if su_id r = sid \<and> su_released_at r = None then r\<lparr>su_released_at := Some (clk E 0)\<rparr> else r)"
    unfolding a(3) by (rule update_where_memE)
  with x(3) have "x \<in> set (suppressions d)" "su_id x \<noteq> sid" by (simp_all split: if_split_asm)
  with x assms have "x = se" by (intro open_entry_unique [of d]) (auto simp: entry_for_def)
  with \<open>su_id x \<noteq> sid\<close> assms(4) show False by simp
qed

subsection \<open>Applying the list\<close>

lemma apply_hits_empty_iff:
  "apply_hits t mid sending d = [] \<longleftrightarrow>
   (\<forall>r \<in> set (recipients d). r_message_id r = mid \<and> r_status r \<in> set (apply_states sending) \<longrightarrow> \<not> suppressed_address t d (r_address r))"
  by (auto simp: apply_hits_def suppressed_address_def filter_empty_conv)

lemma apply_hits_mem:
  "(rid, sid) \<in> set (apply_hits t mid sending d) \<Longrightarrow>
   \<exists>r \<in> set (recipients d). r_id r = rid \<and> r_message_id r = mid \<and> r_status r \<in> set (apply_states sending) \<and> suppressed_address t d (r_address r)"
  by (auto simp: apply_hits_def suppressed_address_def)

text \<open>What a row of the table becomes: suppressed once when it is among the hits.\<close>

definition apply_rows :: "time \<Rightarrow> (string \<times> string) list \<Rightarrow> rcpt \<Rightarrow> rcpt" where
  "apply_rows t hits r = fold (\<lambda>(rid, sid) r. if r_id r = rid then suppress_recipient t sid r else r) hits r"

lemma apply_hit_recipients:
  "recipients (apply_hit E mid attempt sending h d)
   = map (\<lambda>r. if r_id r = fst h then suppress_recipient (clk E 21) (snd h) r else r) (recipients d)"
  by (simp add: apply_hit_def update_where_def split_beta)

lemma apply_rows_Cons:
  "apply_rows t (h # hits) r = apply_rows t hits (if r_id r = fst h then suppress_recipient t (snd h) r else r)"
  by (simp add: apply_rows_def split_beta)

lemma apply_hit_fold:
  "recipients (fold (apply_hit E mid attempt sending) hits d) = map (apply_rows (clk E 21) hits) (recipients d)"
proof (induction hits arbitrary: d)
  case Nil
  show ?case by (simp add: apply_rows_def)
next
  case (Cons h hits)
  show ?case by (simp add: Cons apply_hit_recipients apply_rows_Cons)
qed

lemma suppress_recipient_simps [simp]:
  "r_id (suppress_recipient t sid r) = r_id r" "r_message_id (suppress_recipient t sid r) = r_message_id r"
  "r_address (suppress_recipient t sid r) = r_address r" "r_status (suppress_recipient t sid r) = SUPPRESSED"
  "r_retry_at (suppress_recipient t sid r) = None" "r_attempt_count (suppress_recipient t sid r) = r_attempt_count r"
  "suppress_recipient t sid (suppress_recipient t sid' r) = suppress_recipient t sid r"
  by (simp_all add: suppress_recipient_def)

lemma apply_rows_cases:
  "apply_rows t hits r = r \<and> r_id r \<notin> fst ` set hits
   \<or> r_id r \<in> fst ` set hits \<and> (\<exists>sid. apply_rows t hits r = suppress_recipient t sid r)"
proof (induction hits arbitrary: r)
  case Nil
  show ?case by (simp add: apply_rows_def)
next
  case (Cons h hits)
  show ?case
  proof (cases "r_id r = fst h")
    case True
    with Cons [of "suppress_recipient t (snd h) r"] show ?thesis by (auto simp: apply_rows_Cons)
  next
    case False
    with Cons [of r] show ?thesis by (auto simp: apply_rows_Cons)
  qed
qed

text \<open>The other tables, but for the events, are as before.\<close>

lemma apply_hit_frame:
  "messages (fold (apply_hit E mid attempt sending) hits d) = messages d"
  "attempts (fold (apply_hit E mid attempt sending) hits d) = attempts d"
  "attempt_recipients (fold (apply_hit E mid attempt sending) hits d) = attempt_recipients d"
  "providers (fold (apply_hit E mid attempt sending) hits d) = providers d"
  "provider_quota (fold (apply_hit E mid attempt sending) hits d) = provider_quota d"
  "suppressions (fold (apply_hit E mid attempt sending) hits d) = suppressions d"
  "pg_lower (fold (apply_hit E mid attempt sending) hits d) = pg_lower d"
  by (induction hits arbitrary: d) (simp_all add: apply_hit_def split_beta)

subsection \<open>The list as a set of addresses\<close>

definition sample_env :: env where
  "sample_env = \<lparr>now = 10, clk = (\<lambda>n. 10 + int n), host = 10, locked_messages = (\<lambda>_. False), locked_providers = (\<lambda>_. False),
     locked_owners = (\<lambda>_. False), fresh_token = ''t1'', fresh_id = ''s1'', uuid_valid = (\<lambda>_. True)\<rparr>"

definition sample_add :: add_request where
  "sample_add = \<lparr>ad_Email = ''a@b'', ad_Category = ''manual'', ad_Actor = ''ops'', ad_Reason = ''asked'', ad_ExpiresAt = Some 100\<rparr>"

lemma suppressed_address_retired:
  "(\<exists>se \<in> set (update_where (\<lambda>se. q se \<and> su_released_at se = None) (\<lambda>se. se\<lparr>su_released_at := Some x\<rparr>) xs). p (su_email se) \<and> entry_active t se)
   \<longleftrightarrow> (\<exists>se \<in> set xs. \<not> q se \<and> p (su_email se) \<and> entry_active t se)"
proof -
  let ?f = "\<lambda>se. if q se \<and> su_released_at se = None then se\<lparr>su_released_at := Some x\<rparr> else se"
  have act: "entry_active t (?f se) \<longleftrightarrow> \<not> q se \<and> entry_active t se" for se
    by (cases "su_released_at se") (simp_all add: entry_active_def)
  have "su_email (?f se) = su_email se" for se by simp
  then show ?thesis by (simp only: set_update_where bex_simps act conj_left_commute)
qed

lemma Add_suppressed:
  assumes "Add E v d = Inr (sid, d')"
  shows "suppressed_address t d' a
    \<longleftrightarrow> (if pg_lower d a = pg_lower d (ad_Email v) then ad_ExpiresAt v = None \<or> null_gt (ad_ExpiresAt v) t else suppressed_address t d a)"
proof -
  let ?old = "update_where (\<lambda>se. entry_for d (ad_Email v) se \<and> su_released_at se = None)
      (\<lambda>se. se\<lparr>su_released_at := Some (clk E 2)\<rparr>) (suppressions d)"
  have "suppressed_address t d' a \<longleftrightarrow> (\<exists>se \<in> set ?old. pg_lower d (su_email se) = pg_lower d a \<and> entry_active t se)
      \<or> pg_lower d (ad_Email v) = pg_lower d a \<and> (ad_ExpiresAt v = None \<or> null_gt (ad_ExpiresAt v) t)"
    by (simp add: suppressed_address_def entry_for_def Add_Inr(5,6) [OF assms] bex_Un entry_active_def [of t "\<lparr>su_id = _, su_email = _, su_reason = _,
       su_source = _, su_created_at = _, su_expires_at = _, su_released_at = _, su_created_by = _, su_note = _\<rparr>"] disj_commute)
  then show ?thesis
    unfolding suppressed_address_retired [of "entry_for d (ad_Email v)" "clk E 2" "suppressions d" "\<lambda>e. pg_lower d e = pg_lower d a" t]
    by (auto simp: suppressed_address_def entry_for_def)
qed

lemma Release_suppressed:
  assumes "Release E sid actor reason d = Inr (u, d')"
  shows "suppressed_address t d' a \<longleftrightarrow> (\<exists>se \<in> set (suppressions d). su_id se \<noteq> sid \<and> entry_for d a se \<and> entry_active t se)"
  using suppressed_address_retired [of "\<lambda>se. su_id se = sid" "clk E 0" "suppressions d" "\<lambda>e. pg_lower d e = pg_lower d a" t]
  by (simp add: suppressed_address_def entry_for_def Release_Inr(2,3) [OF assms])

text \<open>
  C14: Adding an address suppresses exactly that address (in every spelling the server's lower() identifies) until the entry expires
  and leaves all others as they were; releasing the entry it returned frees the address again at once and
  changes no other. Both keep the uniqueness of the open entry for an address.
\<close>

theorem suppression_add_release:
  assumes "one_open_entry d" and "Add E v d = Inr (sid, d')"
  shows "(\<forall>t a. suppressed_address t d' a
       \<longleftrightarrow> (if pg_lower d a = pg_lower d (ad_Email v) then ad_ExpiresAt v = None \<or> null_gt (ad_ExpiresAt v) t else suppressed_address t d a))
    \<and> one_open_entry d'
    \<and> (\<forall>F actor reason d''. Release F sid actor reason d' = Inr ((), d'') \<longrightarrow>
         (\<forall>t a. suppressed_address t d'' a \<longleftrightarrow> pg_lower d a \<noteq> pg_lower d (ad_Email v) \<and> suppressed_address t d a) \<and> one_open_entry d'')"
proof (intro conjI allI impI)
  fix t a
  show "suppressed_address t d' a \<longleftrightarrow>
      (if pg_lower d a = pg_lower d (ad_Email v) then ad_ExpiresAt v = None \<or> null_gt (ad_ExpiresAt v) t else suppressed_address t d a)"
    by (rule Add_suppressed [OF assms(2)])
next
  show one: "one_open_entry d'" using assms by (rule Add_one_open)
  fix F actor reason d''
  assume rel: "Release F sid actor reason d' = Inr ((), d'')"
  with one show "one_open_entry d''" by (rule Release_one_open)
  note new = Add_Inr [OF assms(2)]
  fix t a
  have "su_id se \<noteq> sid" if "se \<in> set (update_where p (\<lambda>se. se\<lparr>su_released_at := x\<rparr>) (suppressions d))" for se p x
    using that new(4) by (auto simp: set_update_where)
  then have "(\<exists>se \<in> set (suppressions d'). su_id se \<noteq> sid \<and> entry_for d' a se \<and> entry_active t se)
     \<longleftrightarrow> (\<exists>se \<in> set (suppressions d). \<not> entry_for d (ad_Email v) se \<and> pg_lower d (su_email se) = pg_lower d a \<and> entry_active t se)"
    using suppressed_address_retired [of "entry_for d (ad_Email v)" "clk E 2" "suppressions d" "\<lambda>e. pg_lower d e = pg_lower d a" t]
    by (auto simp: new(5,6) entry_for_def)
  then show "suppressed_address t d'' a \<longleftrightarrow> pg_lower d a \<noteq> pg_lower d (ad_Email v) \<and> suppressed_address t d a"
    unfolding Release_suppressed [OF rel] by (auto simp: suppressed_address_def entry_for_def)
qed

theorem suppression_add_release_witness:
  "suppressed_address 50 (commit_tx (Add sample_env sample_add) (empty_db to_lower)) ''A@b''
   \<and> \<not> suppressed_address 150 (commit_tx (Add sample_env sample_add) (empty_db to_lower)) ''A@b''
   \<and> \<not> suppressed_address 50 (commit_tx (Add sample_env sample_add) (empty_db to_lower)) ''c@b''"
proof -
  have one: "one_open_entry (empty_db to_lower)" by (simp add: one_open_entry_def empty_db_def)
  have add: "Add sample_env sample_add (empty_db to_lower) = Inr (''s1'', commit_tx (Add sample_env sample_add) (empty_db to_lower))"
    by (simp add: Add_def Let_def sample_add_def sample_env_def empty_db_def validateEmail_def validateAudit_def bare_mailbox_def dot_atom_def
      atext_def valid_utf8.simps byte_eval contains_any_def CR_def LF_def NUL_def trim_space_printable suppressed_address_def)
  have low: "to_lower ''A@b'' = ''a@b''" "to_lower ''a@b'' = ''a@b''" "to_lower ''c@b'' = ''c@b''"
    by (simp_all add: to_lower_def lower_char_def byte_eval)
  from suppression_add_release [OF one add, THEN conjunct1] show ?thesis
    by (simp add: low sample_add_def empty_db_def suppressed_address_def)
qed

end
