(* ===== verification/Queue_Base.thy ===== *)
theory Queue_Base
  imports Suppression
begin

text \<open>
  What the operations of internal/queue share: the configuration and the job (repository.go), the events they write, the projection of
  a message's status from its recipients (decisions.go) and the expiry of its deadline (expiry.go), with the two sweeps
  that apply expiry and suppression to waiting messages (expiry.go, suppression.go). A statement reads clock_timestamp() once: the
  argument \<open>t\<close> of a helper, or an entry of the clock of the environment. Executions of one statement in a loop read the
  same entry. Times inside JSON documents are numbers.
\<close>

subsection \<open>Configuration, jobs and events\<close>

record repo =
  RetryEnabled :: bool
  FailoverEnabled :: bool
  HealthEnabled :: bool

record job =
  j_Stream :: string
  j_ID :: string
  j_Token :: string
  j_AttemptID :: string
  j_From :: string
  j_Path :: string
  j_SHA256 :: string
  j_Size :: int
  j_Provider :: provider
  j_Recipients :: "recipient list"

definition zero_provider :: provider where
  "zero_provider = \<lparr>p_ID = [], p_Name = [], p_Host = [], p_Security = [], p_Username = [], p_Port = 0, p_Priority = 0,
     p_MaxConnections = 0, p_HourlyLimit = 0, p_DailyLimit = 0, p_Timeout = 0, p_Ciphertext = [], p_Nonce = []\<rparr>"

text \<open>The literal \<^verbatim>\<open>Job{ID: id, Token: token, AttemptID: attempt}\<close> with the other fields zero.\<close>

definition bare_job :: "string \<Rightarrow> string \<Rightarrow> string \<Rightarrow> job" where
  "bare_job mid token attempt = \<lparr>j_Stream = [], j_ID = mid, j_Token = token, j_AttemptID = attempt, j_From = [], j_Path = [], j_SHA256 = [],
     j_Size = 0, j_Provider = zero_provider, j_Recipients = []\<rparr>"

definition optionalID :: "string \<Rightarrow> string option" where
  "optionalID i = (if i = [] then None else Some i)"

definition event :: "job \<Rightarrow> string \<Rightarrow> string \<Rightarrow> time \<Rightarrow> json \<Rightarrow> db \<Rightarrow> db" where
  "event j kind rid at data d =
     append_event \<lparr>e_message_id = j_ID j, e_attempt_id = optionalID (j_AttemptID j), e_recipient_id = optionalID rid, e_type = kind,
       e_time = at, e_source = ''worker'', e_data = data, e_sequence = None\<rparr> d"

fun status_text :: "status \<Rightarrow> string" where
  "status_text QUEUED = ''QUEUED''"
| "status_text SENDING = ''SENDING''"
| "status_text SMTP_ACCEPTED = ''SMTP_ACCEPTED''"
| "status_text PARTIAL_ACCEPTED = ''PARTIAL_ACCEPTED''"
| "status_text TEMP_FAILED = ''TEMP_FAILED''"
| "status_text PERM_FAILED = ''PERM_FAILED''"
| "status_text DELIVERY_UNKNOWN = ''DELIVERY_UNKNOWN''"
| "status_text BOUNCED = ''BOUNCED''"
| "status_text DELIVERED = ''DELIVERED''"
| "status_text SUPPRESSED = ''SUPPRESSED''"
| "status_text CANCELLED = ''CANCELLED''"
| "status_text EXPIRED = ''EXPIRED''"
| "status_text SANDBOX_STORED = ''SANDBOX_STORED''"
| "status_text IN_PROGRESS = ''IN_PROGRESS''"
| "status_text RCPT_ACCEPTED = ''RCPT_ACCEPTED''"
| "status_text READY = ''READY''"
| "status_text (OtherStatus s) = s"

definition policy_decision :: "int \<Rightarrow> action \<Rightarrow> string \<Rightarrow> bool \<Rightarrow> decision" where
  "policy_decision version action reason terminal = \<lparr>d_Version = version, d_Action = action, d_Reason = reason, d_Scope = ''policy'',
     d_RetryAfter = 0, d_MayHaveDelivered = False, d_FailoverAllowed = False, d_Terminal = terminal\<rparr>"

subsection \<open>The projection of a message\<close>

definition projection :: "rcpt list \<Rightarrow> status" where
  "projection rs =
     (let n = int (length rs);
          unknown = count_where (\<lambda>r. r_status r = DELIVERY_UNKNOWN) rs;
          queued = count_where (\<lambda>r. r_status r = QUEUED) rs;
          sending = count_where (\<lambda>r. r_status r = SENDING) rs;
          accepted = count_where (\<lambda>r. r_status r \<in> {SMTP_ACCEPTED, DELIVERED}) rs;
          suppressed = count_where (\<lambda>r. r_status r = SUPPRESSED) rs;
          expired = count_where (\<lambda>r. r_status r = EXPIRED) rs;
          delivered = count_where (\<lambda>r. r_status r = DELIVERED) rs;
          temporary = count_where (\<lambda>r. r_status r = TEMP_FAILED) rs
      in if unknown > 0 then DELIVERY_UNKNOWN
         else if sending > 0 then SENDING
         else if queued > 0 then QUEUED
         else if expired = n \<and> n > 0 then EXPIRED
         else if suppressed = n \<and> n > 0 then SUPPRESSED
         else if delivered = n \<and> n > 0 then DELIVERED
         else if accepted = n \<and> n > 0 then SMTP_ACCEPTED
         else if accepted > 0 then PARTIAL_ACCEPTED
         else if temporary > 0 then TEMP_FAILED
         else PERM_FAILED)"

definition refresh_message :: "env \<Rightarrow> rcpt list \<Rightarrow> message \<Rightarrow> message" where
  "refresh_message E rs m = m\<lparr>m_status := projection rs,
     m_next_attempt_at := (if projection rs = QUEUED then Some (now E) else min_of r_retry_at rs),
     m_completed_at := (if projection rs \<in> {SMTP_ACCEPTED, PERM_FAILED, DELIVERED, SUPPRESSED, EXPIRED}
                        then Some (coalesce (m_completed_at m) (now E)) else None)\<rparr>"

definition refresh :: "env \<Rightarrow> string \<Rightarrow> db \<Rightarrow> db" where
  "refresh E mid d = upd_messages (\<lambda>m. m_id m = mid) (refresh_message E (recipients_of d mid)) d"

subsection \<open>Expiry\<close>

definition expire_decision :: decision where
  "expire_decision = policy_decision 2 Expire ''MESSAGE_DEADLINE_ELAPSED'' True"

definition maybe_delivered :: "db \<Rightarrow> rcpt \<Rightarrow> bool" where
  "maybe_delivered d r =
     ((case r_decision r of None \<Rightarrow> False | Some j \<Rightarrow> json_is_bool j ''may_have_delivered'' True)
      \<or> (\<exists>ar \<in> set (attempt_recipients d). ar_recipient_id ar = r_id r \<and> ar_status ar = DELIVERY_UNKNOWN))"

definition expire_json :: "db \<Rightarrow> rcpt \<Rightarrow> json" where
  "expire_json d r = json_concat (decision_json expire_decision) [(''may_have_delivered'', JBool (maybe_delivered d r))]"

definition expire_recipient :: "time \<Rightarrow> db \<Rightarrow> rcpt \<Rightarrow> rcpt" where
  "expire_recipient t d r = r\<lparr>r_status := EXPIRED, r_retry_at := None, r_retry_automatic := False, r_completed_at := Some t,
     r_decision := Some (expire_json d r)\<rparr>"

definition expires_now :: "time \<Rightarrow> string \<Rightarrow> db \<Rightarrow> rcpt \<Rightarrow> bool" where
  "expires_now t mid d r \<longleftrightarrow> r_message_id r = mid \<and> r_status r \<in> {QUEUED, TEMP_FAILED}
     \<and> (\<exists>m \<in> set (messages d). m_id m = mid \<and> null_le (m_expires_at m) t)"

definition applyExpiry :: "env \<Rightarrow> job \<Rightarrow> db \<Rightarrow> db" where
  "applyExpiry E j d =
     (let t = clk E 30;
          changes = map (\<lambda>r. (r_id r, expire_json d r)) (filter (expires_now t (j_ID j) d) (recipients d));
          d' = upd_recipients (expires_now t (j_ID j) d) (expire_recipient t d) d
      in fold (\<lambda>(rid, decision). event j ''RECIPIENT_EXPIRED'' rid (host E) decision) changes d')"

definition SweepExpired :: "env \<Rightarrow> (db, unit) body" where
  "SweepExpired E d =
     (let t = clk E 0;
          ids = map m_id (order_limit (\<lambda>m. (coalesce (m_expires_at m) 0, m_id m)) 20
            (\<lambda>m. m_locked_by m = None \<and> m_status m \<in> {QUEUED, TEMP_FAILED, PARTIAL_ACCEPTED, DELIVERY_UNKNOWN}
               \<and> null_le (m_expires_at m) t \<and> \<not> locked_messages E (m_id m)
               \<and> (\<exists>r \<in> set (recipients d). r_message_id r = m_id m \<and> r_status r \<in> {QUEUED, TEMP_FAILED}))
            (messages d))
      in Inr ((), fold (\<lambda>mid d. refresh E mid (applyExpiry E (bare_job mid [] []) d)) ids d))"

subsection \<open>Suppression of waiting recipients\<close>

definition SweepSuppressed :: "env \<Rightarrow> (db, unit) body" where
  "SweepSuppressed E d =
     (let t = clk E 0;
          ids = map m_id (order_limit (\<lambda>m. (m_created_at m, m_id m)) 20
            (\<lambda>m. m_locked_by m = None \<and> \<not> locked_messages E (m_id m)
               \<and> (\<exists>r \<in> set (recipients d). r_message_id r = m_id m \<and> r_status r \<in> {QUEUED, TEMP_FAILED}
                    \<and> suppressed_address t d (r_address r)))
            (messages d))
      in Inr ((), fold (\<lambda>mid d. refresh E mid (snd (Apply E mid [] False d))) ids d))"

end
