(* ===== verification/Queue_Claim.thy ===== *)
theory Queue_Claim
  imports Queue_Base
begin

text \<open>
  Claiming work in internal/queue: which recipients, messages and providers are eligible (decisions.go, repository.go, controls.go,
  failover.go), the fair choice of an owner and a stream (fairness.go), and the claim itself (repository.go), which takes
  a lease on the message, opens an attempt and reserves quota in one transaction. Identifiers are compared as texts.
\<close>

subsection \<open>Eligibility\<close>

definition claimRecipient :: "repo \<Rightarrow> time \<Rightarrow> db \<Rightarrow> rcpt \<Rightarrow> bool" where
  "claimRecipient R t d r \<longleftrightarrow> r_status r = QUEUED
     \<and> (\<not> r_retry_automatic r \<or> (RetryEnabled R \<and> r_attempt_count r < 7 \<and> null_gt (r_retry_started_at r) (t - 24 * Hour)))
     \<and> \<not> suppressed_address t d (r_address r)"

text \<open>\<^verbatim>\<open>split_part(s,'@',2)\<close>.\<close>

definition domain_part :: "string \<Rightarrow> string" where
  "domain_part s = (case split_on CHR ''@'' s of _ # domain # _ \<Rightarrow> domain | _ \<Rightarrow> [])"

definition live_attempts :: "time \<Rightarrow> db \<Rightarrow> string \<Rightarrow> int" where
  "live_attempts t d pid = count_where (\<lambda>a. a_provider_id a = pid \<and> a_result a = IN_PROGRESS
     \<and> (\<exists>m \<in> set (messages d). m_id m = a_message_id a \<and> null_gt (m_lease_expires_at m) t)) (attempts d)"

definition providerRequirements :: "time \<Rightarrow> db \<Rightarrow> message \<Rightarrow> provider_row \<Rightarrow> bool" where
  "providerRequirements t d m p \<longleftrightarrow> pv_enabled p \<and> pv_security p \<in> {''starttls'', ''implicit_tls''}
     \<and> 1 \<le> pv_timeout_seconds p \<and> pv_timeout_seconds p \<le> 300 \<and> 1 \<le> pv_max_connections p \<and> pv_max_connections p \<le> 32
     \<and> pg_lower d (domain_part (m_envelope_from m)) \<in> set (pv_from_domains p)
     \<and> (case m_header_from m of None \<Rightarrow> False | Some h \<Rightarrow> pg_lower d (domain_part h) \<in> set (pv_from_domains p))
     \<and> live_attempts t d (pv_id p) < pv_max_connections p"

definition reserved_units :: "time \<Rightarrow> db \<Rightarrow> string \<Rightarrow> int" where
  "reserved_units after d pid = sum_where (\<lambda>q. q_provider_id q = pid \<and> q_reserved_at q > after) q_units (provider_quota d)"

definition quotaAvailable :: "time \<Rightarrow> db \<Rightarrow> provider_row \<Rightarrow> int" where
  "quotaAvailable t d p = min
     (case pv_hourly_limit p of None \<Rightarrow> 2147483647 | Some l \<Rightarrow> l - reserved_units (t - Hour) d (pv_id p))
     (case pv_daily_limit p of None \<Rightarrow> 2147483647 | Some l \<Rightarrow> l - reserved_units (t - 24 * Hour) d (pv_id p))"

text \<open>The columns hourly_reserved and daily_reserved of the view provider_quota_group_usage.\<close>

definition group_reserved :: "time \<Rightarrow> db \<Rightarrow> string \<Rightarrow> int" where
  "group_reserved after d gid = sum_where
     (\<lambda>q. (\<exists>p \<in> set (providers d). pv_id p = q_provider_id q \<and> pv_quota_group_id p = Some gid) \<and> q_reserved_at q > after)
     q_units (provider_quota d)"

definition sharedQuotaAvailable :: "time \<Rightarrow> db \<Rightarrow> provider_row \<Rightarrow> int" where
  "sharedQuotaAvailable t d p =
     (case find (\<lambda>g. pv_quota_group_id p = Some (g_id g)) (quota_groups d) of
        None \<Rightarrow> 2147483647
      | Some g \<Rightarrow> min (if g_hourly_limit g = 0 then 2147483647 else g_hourly_limit g - group_reserved (t - Hour) d (g_id g))
                      (if g_daily_limit g = 0 then 2147483647 else g_daily_limit g - group_reserved (t - 24 * Hour) d (g_id g)))"

definition circuitAvailable :: "time \<Rightarrow> db \<Rightarrow> provider_row \<Rightarrow> bool" where
  "circuitAvailable t d p \<longleftrightarrow> \<not> pv_health_check_enabled p
     \<or> \<not> (\<exists>h \<in> set (provider_health d). h_provider_id h = pv_id p \<and> h_circuit_state h \<noteq> CLOSED
            \<and> \<not> (h_circuit_state h = OPEN \<and> null_le (h_open_until h) t \<and> h_probe_attempt_id h = None))"

definition controlRequirements :: "repo \<Rightarrow> time \<Rightarrow> db \<Rightarrow> provider_row \<Rightarrow> bool" where
  "controlRequirements R t d p \<longleftrightarrow> min (quotaAvailable t d p) (sharedQuotaAvailable t d p) > 0
     \<and> (HealthEnabled R \<longrightarrow> circuitAvailable t d p)"

subsection \<open>Failover\<close>

definition attempts_with :: "db \<Rightarrow> string \<Rightarrow> attempt list" where
  "attempts_with d rid = filter (\<lambda>a. \<exists>ar \<in> set (attempt_recipients d). ar_attempt_id ar = a_id a \<and> ar_recipient_id ar = rid) (attempts d)"

definition failover_evidence :: "db \<Rightarrow> message \<Rightarrow> rcpt \<Rightarrow> bool" where
  "failover_evidence d m r \<longleftrightarrow>
     (\<exists>ar \<in> set (attempt_recipients d). \<exists>a \<in> set (attempts d). ar_attempt_id ar = a_id a \<and> ar_recipient_id ar = r_id r
        \<and> m_route_provider_id m = Some (a_provider_id a) \<and> a_result a = TEMP_FAILED
        \<and> (case ar_decision ar of None \<Rightarrow> False | Some j \<Rightarrow>
             json_is_int j ''version'' 2 \<and> json_is_text j ''action'' ''RETRY_SAME_PROVIDER''
             \<and> json_is_bool j ''failover_allowed'' True \<and> json_is_bool j ''may_have_delivered'' False)
        \<and> (\<forall>b \<in> set (attempts_with d (r_id r)). a_number b \<le> a_number a))"

definition finished_statuses :: "status set" where
  "finished_statuses = {SMTP_ACCEPTED, DELIVERED, PERM_FAILED, BOUNCED, SUPPRESSED, CANCELLED, EXPIRED}"

definition safeFailover :: "time \<Rightarrow> db \<Rightarrow> message \<Rightarrow> bool" where
  "safeFailover t d m \<longleftrightarrow> m_route_provider_id m \<noteq> None
     \<and> length (remdups (map a_provider_id (filter (\<lambda>a. a_message_id a = m_id m) (attempts d)))) < 3
     \<and> (\<forall>r \<in> set (recipients d). r_message_id r = m_id m \<and> r_status r \<notin> finished_statuses \<longrightarrow>
          r_status r = QUEUED \<and> r_retry_automatic r \<and> r_attempt_count r < 7 \<and> null_gt (r_retry_started_at r) (t - 24 * Hour)
          \<and> failover_evidence d m r)"

definition eligibleProvider :: "repo \<Rightarrow> time \<Rightarrow> db \<Rightarrow> message \<Rightarrow> provider_row \<Rightarrow> bool" where
  "eligibleProvider R t d m p \<longleftrightarrow> providerRequirements t d m p \<and> controlRequirements R t d p
     \<and> (m_route_provider_id m = None \<or> m_route_provider_id m = Some (pv_id p)
        \<or> RetryEnabled R \<and> FailoverEnabled R \<and> safeFailover t d m
          \<and> \<not> (\<exists>a \<in> set (attempts d). a_message_id a = m_id m \<and> a_provider_id a = pv_id p))"

subsection \<open>The fair choice\<close>

definition FairRecipientQuantum :: int where "FairRecipientQuantum = 16"

text \<open>The function queue_owner of migration 18.\<close>

definition queue_owner :: "message \<Rightarrow> string" where
  "queue_owner m = m_source_type m @ '':'' @
     (case m_api_key_id m of Some k \<Rightarrow> k | None \<Rightarrow> (case m_smtp_account_id m of Some s \<Rightarrow> s | None \<Rightarrow> ''legacy''))"

definition eligible :: "repo \<Rightarrow> env \<Rightarrow> time \<Rightarrow> db \<Rightarrow> message \<Rightarrow> bool" where
  "eligible R E t d m \<longleftrightarrow> (m_schedule_at m = None \<or> null_le (m_schedule_at m) t) \<and> (m_expires_at m = None \<or> null_gt (m_expires_at m) t)
     \<and> m_status m = QUEUED \<and> m_archive_state m = ''AVAILABLE'' \<and> null_le (m_next_attempt_at m) (now E)
     \<and> (\<exists>r \<in> set (recipients d). r_message_id r = m_id m \<and> claimRecipient R t d r)
     \<and> (\<exists>p \<in> set (providers d). eligibleProvider R t d m p)"

text \<open>The owner's key of a stream row: the second part of \<^verbatim>\<open>api:key\<close>, unless it is \<^verbatim>\<open>legacy\<close>.\<close>

definition owner_api_key :: "string \<Rightarrow> string option" where
  "owner_api_key owner = (case split_on CHR '':'' owner of
       source # key # _ \<Rightarrow> if source = ''api'' \<and> key \<noteq> ''legacy'' then Some key else None
     | _ \<Rightarrow> None)"

definition lane_names :: "string list" where
  "lane_names = [''normal'', ''otp'', ''receipt'', ''security'']"

definition lane_weight :: "db \<Rightarrow> string \<Rightarrow> string \<Rightarrow> int" where
  "lane_weight d owner name =
     (case find (\<lambda>s. Some (st_api_key_id s) = owner_api_key owner \<and> st_name s = name) (message_streams d) of
        None \<Rightarrow> 1 | Some s \<Rightarrow> st_weight s)"

text \<open>The lanes in the order of their names, each with its first turn and its weight.\<close>

fun lanes_from :: "int \<Rightarrow> (string \<times> int) list \<Rightarrow> (string \<times> int \<times> int) list" where
  "lanes_from first [] = []"
| "lanes_from first ((name, weight) # ws) = (name, first, weight) # lanes_from (first + weight) ws"

definition weights :: "db \<Rightarrow> string \<Rightarrow> (string \<times> int) list" where
  "weights d owner = map (\<lambda>name. (name, lane_weight d owner name)) lane_names"

definition lane_total :: "(string \<times> int) list \<Rightarrow> int" where
  "lane_total ws = sum_list (map snd ws)"

definition lane_distance :: "int \<Rightarrow> int \<Rightarrow> int \<times> int \<Rightarrow> int" where
  "lane_distance cursor tot = (\<lambda>(first, weight).
     if cursor mod tot \<ge> first \<and> cursor mod tot < first + weight then 0 else (first - cursor mod tot + tot) mod tot)"

definition turns :: "db \<Rightarrow> string \<Rightarrow> int \<Rightarrow> (string \<times> int) list" where
  "turns d owner cursor = map (\<lambda>(name, lane). (name, lane_distance cursor (lane_total (weights d owner)) lane)) (lanes_from 0 (weights d owner))"

definition select_owner :: "repo \<Rightarrow> env \<Rightarrow> db \<Rightarrow> owner_row list" where
  "select_owner R E d = order_limit (\<lambda>w. (ow_last_ticket w, ow_key w)) 1
     (\<lambda>w. (\<exists>m \<in> set (messages d). queue_owner m = ow_key w \<and> eligible R E (clk E 0) d m) \<and> \<not> locked_owners E (ow_key w)) (fair_owners d)"

definition select_message :: "repo \<Rightarrow> env \<Rightarrow> db \<Rightarrow> string \<Rightarrow> int \<Rightarrow> message list" where
  "select_message R E d owner cursor =
     (let ts = turns d owner cursor
      in order_limit (\<lambda>m. (coalesce (map_of ts (m_message_stream m)) 0, m_created_at m, m_id m)) 1
           (\<lambda>m. map_of ts (m_message_stream m) \<noteq> None \<and> queue_owner m = owner \<and> eligible R E (clk E 1) d m \<and> \<not> locked_messages E (m_id m))
           (messages d))"

definition selectFair :: "repo \<Rightarrow> env \<Rightarrow> db \<Rightarrow> err + (string \<times> int \<times> message)" where
  "selectFair R E d =
     (case select_owner R E d of [] \<Rightarrow> Inl ErrNoJob | w # _ \<Rightarrow>
      case select_message R E d (ow_key w) (ow_cursor w) of [] \<Rightarrow> Inl ErrNoJob | m # _ \<Rightarrow>
        Inr (ow_key w,
             (ow_cursor w + coalesce (map_of (turns d (ow_key w) (ow_cursor w)) (m_message_stream m)) 0 + 1) mod lane_total (weights d (ow_key w)),
             m))"

subsection \<open>The claim\<close>

definition select_provider :: "repo \<Rightarrow> env \<Rightarrow> db \<Rightarrow> message \<Rightarrow> provider_row list" where
  "select_provider R E d m = order_limit
     (\<lambda>p. ((if m_route_provider_id m = Some (pv_id p) then 1 else 0) :: int, pv_priority p, pv_id p)) 1
     (\<lambda>p. eligibleProvider R (clk E 2) d m p \<and> \<not> locked_providers E (pv_id p)) (providers d)"

definition job_provider :: "provider_row \<Rightarrow> provider" where
  "job_provider p = \<lparr>p_ID = pv_id p, p_Name = pv_name p, p_Host = pv_host p, p_Security = pv_security p, p_Username = pv_username p,
     p_Port = pv_port p, p_Priority = pv_priority p, p_MaxConnections = pv_max_connections p, p_HourlyLimit = 0, p_DailyLimit = 0,
     p_Timeout = pv_timeout_seconds p * Second, p_Ciphertext = pv_ciphertext p, p_Nonce = pv_nonce p\<rparr>"

text \<open>The method admission: what the provider and its quota group still admit, or no job.\<close>

definition admission :: "repo \<Rightarrow> env \<Rightarrow> string \<Rightarrow> db \<Rightarrow> err + int" where
  "admission R E pid d = (case find (\<lambda>p. pv_id p = pid \<and> controlRequirements R (clk E 4) d p) (providers d) of
       None \<Rightarrow> Inl ErrNoJob
     | Some p \<Rightarrow> Inr (min (quotaAvailable (clk E 4) d p) (sharedQuotaAvailable (clk E 4) d p)))"

definition reserveControls :: "repo \<Rightarrow> env \<Rightarrow> job \<Rightarrow> db \<Rightarrow> err + db" where
  "reserveControls R E j d =
     (let pid = p_ID (j_Provider j); units = int (length (j_Recipients j)) in
      bind_res (insert_quota \<lparr>q_attempt_id = j_AttemptID j, q_provider_id = pid, q_reserved_at = clk E 7, q_units = units\<rparr> d) (\<lambda>d.
      bind_res (query_row (\<lambda>p. pv_id p = pid) (providers d)) (\<lambda>p.
      let d = event j ''QUOTA_RESERVED'' [] (host E)
            (JObj ([(''provider_id'', JStr pid), (''units'', JInt units), (''unit'', JStr ''recipient_attempt'')]
              @ (case pv_quota_group_id p of None \<Rightarrow> [] | Some g \<Rightarrow> [(''quota_group_id'', JStr g)]))) d;
          opens = (\<lambda>h. h_provider_id h = pid \<and> pv_health_check_enabled p \<and> h_circuit_state h = OPEN
                     \<and> null_le (h_open_until h) (clk E 8) \<and> h_probe_attempt_id h = None)
      in if \<not> HealthEnabled R \<or> \<not> (\<exists>h \<in> set (provider_health d). opens h) then Inr d
         else Inr (event j ''PROVIDER_CIRCUIT_HALF_OPEN'' [] (host E)
                (JObj [(''provider_id'', JStr pid), (''probe_attempt_id'', JStr (j_AttemptID j))])
                (upd_health opens (\<lambda>h. h\<lparr>h_circuit_state := HALF_OPEN, h_probe_attempt_id := Some (j_AttemptID j), h_status := ''DEGRADED''\<rparr>) d)))))"

text \<open>The rows recordFailover reads: for each recipient being sent, its latest earlier attempt when it was on another provider.\<close>

definition failover_rows :: "job \<Rightarrow> db \<Rightarrow> (string \<times> attempt_rcpt \<times> attempt) list" where
  "failover_rows j d =
     [(r_id r, ar, a). r \<leftarrow> recipients d, ar \<leftarrow> attempt_recipients d, a \<leftarrow> attempts d,
        r_message_id r = j_ID j \<and> r_status r = SENDING \<and> ar_recipient_id ar = r_id r \<and> ar_attempt_id ar = a_id a
        \<and> a_provider_id a \<noteq> p_ID (j_Provider j)
        \<and> (\<forall>b \<in> set (attempts_with d (r_id r)). a_id b \<noteq> j_AttemptID j \<longrightarrow> a_number b \<le> a_number a)]"

definition recordFailover :: "env \<Rightarrow> job \<Rightarrow> string \<Rightarrow> db \<Rightarrow> err + db" where
  "recordFailover E j previous d =
     (let rows = failover_rows j d in
      if previous \<noteq> [] \<and> previous \<noteq> p_ID (j_Provider j) \<and> length rows \<noteq> length (j_Recipients j)
      then Inl (ErrNew ''incomplete failover evidence'')
      else Inr (fold (\<lambda>(rid, ar, a). event j ''PROVIDER_FAILOVER'' rid (host E)
             (JObj [(''from_provider_id'', JStr (a_provider_id a)), (''to_provider_id'', JStr (p_ID (j_Provider j))),
                    (''previous_attempt_id'', JStr (ar_attempt_id ar)), (''reason'', JStr ''SAFE_PRE_DATA_FAILURE''),
                    (''previous_decision'', coalesce (ar_decision ar) JNull), (''max_distinct_providers'', JInt 3)])) rows d))"

definition lease_message :: "env \<Rightarrow> string \<Rightarrow> provider_row \<Rightarrow> message \<Rightarrow> message" where
  "lease_message E token p m = m\<lparr>m_route_provider_id := Some (pv_id p), m_status := SENDING, m_locked_at := Some (now E), m_locked_by := Some token,
     m_lease_expires_at := Some (now E + (pv_timeout_seconds p + 30) * Second), m_attempt_count := m_attempt_count m + 1\<rparr>"

definition new_attempt :: "env \<Rightarrow> job \<Rightarrow> int \<Rightarrow> attempt" where
  "new_attempt E j number = \<lparr>a_id = j_AttemptID j, a_message_id = j_ID j, a_provider_id = p_ID (j_Provider j), a_number = number,
     a_started_at = now E, a_result = IN_PROGRESS, a_claim_token = j_Token j, a_data_armed_at = None, a_suppression_blocked_at = None,
     a_expiry_blocked_at = None, a_finished_at = None, a_error_class = None, a_evidence = None, a_health_outcome = None,
     a_health_observed_at = None\<rparr>"

definition new_attempt_rcpt :: "job \<Rightarrow> recipient \<Rightarrow> attempt_rcpt" where
  "new_attempt_rcpt j rc = \<lparr>ar_attempt_id = j_AttemptID j, ar_recipient_id = rc_ID rc, ar_status = SENDING, ar_smtp_code = None,
     ar_enhanced = None, ar_response = None, ar_decision = None, ar_protocol_stage = None\<rparr>"

definition claim_ids :: "repo \<Rightarrow> env \<Rightarrow> string \<Rightarrow> int \<Rightarrow> db \<Rightarrow> string list" where
  "claim_ids R E mid allowance d =
     map r_id (order_limit r_id (nat allowance) (\<lambda>r. r_message_id r = mid \<and> claimRecipient R (clk E 6) d r) (recipients d))"

definition send_recipient :: "env \<Rightarrow> string \<Rightarrow> rcpt \<Rightarrow> rcpt" where
  "send_recipient E pid r = r\<lparr>r_status := SENDING, r_provider_id := Some pid, r_attempt_count := r_attempt_count r + 1,
     r_retry_started_at := Some (coalesce (r_retry_started_at r) (now E)), r_retry_at := None\<rparr>"

definition claim_started :: "env \<Rightarrow> job \<Rightarrow> int \<Rightarrow> db \<Rightarrow> db" where
  "claim_started E j number = event j ''ATTEMPT_STARTED'' [] (host E)
     (JObj [(''provider_id'', JStr (p_ID (j_Provider j))), (''attempt_number'', JInt number), (''message_stream'', JStr (j_Stream j)),
            (''recipient_quantum'', JInt FairRecipientQuantum)])"

definition take_ticket :: "string \<Rightarrow> int \<Rightarrow> db \<Rightarrow> db" where
  "take_ticket owner cursor d = d\<lparr>fair_owners := update_where (\<lambda>w. ow_key w = owner)
       (\<lambda>w. w\<lparr>ow_last_ticket := next_ticket d, ow_cursor := cursor\<rparr>) (fair_owners d),
     next_ticket := next_ticket d + 1\<rparr>"

text \<open>The part of Claim after the choice of owner, message and provider.\<close>

definition claim_message :: "repo \<Rightarrow> env \<Rightarrow> message \<Rightarrow> provider_row \<Rightarrow> (db, job) body" where
  "claim_message R E m p d =
     bind_res (guard_res (live_attempts (clk E 3) d (pv_id p) < pv_max_connections p) ErrNoJob) (\<lambda>_.
     bind_res (admission R E (pv_id p) d) (\<lambda>remaining.
     let allowance = min remaining FairRecipientQuantum; previous = coalesce (m_route_provider_id m) [] in
     bind_res (guard_res ((m_schedule_at m = None \<or> null_le (m_schedule_at m) (clk E 5))
                        \<and> (m_expires_at m = None \<or> null_gt (m_expires_at m) (clk E 5))) ErrNoJob) (\<lambda>_.
     let number = m_attempt_count m + 1;
         d1 = upd_messages (\<lambda>x. m_id x = m_id m) (lease_message E (fresh_token E) p) d;
         ids = claim_ids R E (m_id m) allowance d1;
         j = \<lparr>j_Stream = m_message_stream m, j_ID = m_id m, j_Token = fresh_token E, j_AttemptID = fresh_id E, j_From = m_envelope_from m,
              j_Path = m_eml_path m, j_SHA256 = m_eml_sha256 m, j_Size = m_eml_size m, j_Provider = job_provider p,
              j_Recipients = map (\<lambda>r. \<lparr>rc_ID = r_id r, rc_Address = r_address r\<rparr>) (filter (\<lambda>r. r_id r \<in> set ids) (recipients d1))\<rparr> in
     bind_res (insert_attempt (new_attempt E j number) d1) (\<lambda>d2.
     let d3 = upd_recipients (\<lambda>r. r_id r \<in> set ids) (send_recipient E (pv_id p)) d2 in
     bind_res (guard_res (j_Recipients j \<noteq> []) ErrNoJob) (\<lambda>_.
     bind_res (fold_res (\<lambda>rc. insert_attempt_rcpt (new_attempt_rcpt j rc)) (j_Recipients j) d3) (\<lambda>d4.
     bind_res (reserveControls R E j d4) (\<lambda>d5.
     bind_res (recordFailover E j previous d5) (\<lambda>d6.
     Inr (j, claim_started E j number d6)))))))))"

definition claim_tx :: "repo \<Rightarrow> env \<Rightarrow> (db, job) body" where
  "claim_tx R E d =
     bind_res (selectFair R E d) (\<lambda>(owner, cursor, m).
     case select_provider R E d m of [] \<Rightarrow> Inl ErrNoJob | p # _ \<Rightarrow>
     bind_res (claim_message R E m p d) (\<lambda>(j, d). Inr (j, take_ticket owner cursor d)))"

text \<open>Claim runs the two sweeps in transactions of their own, then the claim.\<close>

definition Claim :: "repo \<Rightarrow> env \<Rightarrow> env \<Rightarrow> env \<Rightarrow> db \<Rightarrow> (err + job) \<times> db" where
  "Claim R E1 E2 E3 d =
     (case SweepExpired E1 d of Inl e \<Rightarrow> (Inl e, d) | Inr (_, d1) \<Rightarrow>
      case SweepSuppressed E2 d1 of Inl e \<Rightarrow> (Inl e, d1) | Inr (_, d2) \<Rightarrow>
      (run_tx (claim_tx R E3) d2, commit_tx (claim_tx R E3) d2))"

end
