(* ===== verification/Queue_Finish.thy ===== *)
theory Queue_Finish
  imports Queue_Base
begin

text \<open>
  What a worker writes while it holds a lease (internal/queue/repository.go, decisions.go, suppression.go, controls.go): the fence that
  checks the lease, the durable permission to send DATA, the record of an event, and the end of an attempt with the
  decision for each recipient and the provider's circuit breaker. The columns of an attempt that only keep evidence are the
  result it ended with, stored as a whole.
\<close>

subsection \<open>The fence and the permission to send DATA\<close>

definition fence :: "time option \<Rightarrow> job \<Rightarrow> db \<Rightarrow> err + unit" where
  "fence live j d = guard_res
     (\<exists>m \<in> set (messages d). m_id m = j_ID j \<and> m_environment m = ''production'' \<and> m_status m = SENDING \<and> m_locked_by m = Some (j_Token j)
        \<and> (case live of None \<Rightarrow> True | Some t \<Rightarrow> null_gt (m_lease_expires_at m) t)) ErrLeaseLost"

definition open_attempt :: "job \<Rightarrow> attempt \<Rightarrow> bool" where
  "open_attempt j a \<longleftrightarrow> a_id a = j_AttemptID j \<and> a_message_id a = j_ID j \<and> a_claim_token a = j_Token j \<and> a_result a = IN_PROGRESS"

text \<open>The triggers of migrations 19 and 28 on the column data_armed_at.\<close>

definition arm_triggers :: "time \<Rightarrow> time \<Rightarrow> message \<Rightarrow> bool" where
  "arm_triggers at t m \<longleftrightarrow> (m_expires_at m = None \<or> (null_gt (m_expires_at m) at \<and> null_gt (m_expires_at m) t))
     \<and> (m_schedule_at m = None \<or> (null_le (m_schedule_at m) at \<and> null_le (m_schedule_at m) t))"

definition block_suppression :: "time \<Rightarrow> attempt \<Rightarrow> attempt" where
  "block_suppression t a = a\<lparr>a_suppression_blocked_at := Some t\<rparr>"

definition arm_attempt :: "time \<Rightarrow> message \<Rightarrow> attempt \<Rightarrow> attempt" where
  "arm_attempt at m a = a\<lparr>a_data_armed_at := (if m_expires_at m = None \<or> null_gt (m_expires_at m) at then Some at else None),
     a_expiry_blocked_at := (if null_le (m_expires_at m) at then Some at else None)\<rparr>"

text \<open>
  ArmData commits in three ways: the suppression gate, the expiry gate (both return an error after the commit, the value
  of the body), and the permission itself.
\<close>

definition arm_permission :: "env \<Rightarrow> job \<Rightarrow> (db, err option) body" where
  "arm_permission E j d =
     bind_res (query_row (\<lambda>m. m_id m = j_ID j) (messages d)) (\<lambda>m.
     let armable = (\<lambda>a. a_id a = j_AttemptID j \<and> a_claim_token a = j_Token j \<and> a_result a = IN_PROGRESS
           \<and> a_data_armed_at a = None \<and> a_expiry_blocked_at a = None);
         d' = upd_attempts armable (arm_attempt (clk E 3) m) d
     in bind_res (guard_res (count_where armable (attempts d) = 1) ErrLeaseLost) (\<lambda>_.
        bind_res (guard_res (null_le (m_expires_at m) (clk E 3) \<or> arm_triggers (clk E 3) (clk E 4) m) ErrConstraint) (\<lambda>_.
        bind_res (query_row (\<lambda>a. a_id a = j_AttemptID j) (attempts d')) (\<lambda>a.
        if a_expiry_blocked_at a \<noteq> None
        then Inr (Some ErrExpired, event j ''EXPIRY_GATE_BLOCKED'' [] (host E) (JObj [(''data_authorized'', JBool False)]) d')
        else Inr (None, event j ''DATA_ARMED'' [] (host E) (JObj [(''reason'', JStr ''durable permission to transmit DATA'')]) d')))))"

definition ArmData :: "env \<Rightarrow> job \<Rightarrow> (db, err option) body" where
  "ArmData E j d =
     bind_res (fence (Some (clk E 0)) j d) (\<lambda>_.
     bind_res (query_row (open_attempt j) (attempts d)) (\<lambda>a.
     bind_res (guard_res (a_data_armed_at a = None) ErrLeaseLost) (\<lambda>_.
     bind_res (guard_res (a_expiry_blocked_at a = None) ErrExpired) (\<lambda>_.
     bind_res (guard_res (a_suppression_blocked_at a = None) ErrSuppressed) (\<lambda>_.
     let (hits, d') = Apply E (j_ID j) (j_AttemptID j) True d in
     if hits > 0 then
       Inr (Some ErrSuppressed, event j ''SUPPRESSION_GATE_BLOCKED'' [] (host E)
         (JObj [(''recipients'', JInt (int hits)), (''data_authorized'', JBool False)])
         (upd_attempts (\<lambda>a. a_id a = j_AttemptID j) (block_suppression (clk E 2)) d'))
     else arm_permission E j d')))))"

subsection \<open>Events of the conversation\<close>

definition recordEvent :: "job \<Rightarrow> smtp_event \<Rightarrow> db \<Rightarrow> err + db" where
  "recordEvent j e d =
     (if se_Sequence e \<le> 0 then Inl (ErrNew ''event sequence must be positive'')
      else if \<exists>x \<in> set (events d). e_attempt_id x = Some (j_AttemptID j) \<and> e_sequence x = Some (se_Sequence e) then Inr d
      else Inr (append_event \<lparr>e_message_id = j_ID j, e_attempt_id = Some (j_AttemptID j), e_recipient_id = optionalID (se_RecipientID e),
             e_type = se_Type e, e_time = se_At e, e_source = ''worker'',
             e_data = JObj [(''response'', JStr (se_Response e)), (''smtp_code'', JInt (se_Code e))], e_sequence = Some (se_Sequence e)\<rparr> d))"

definition Record :: "env \<Rightarrow> job \<Rightarrow> smtp_event \<Rightarrow> (db, unit) body" where
  "Record E j e d =
     bind_res (fence (Some (clk E 0)) j d) (\<lambda>_.
     bind_res (recordEvent j e d) (\<lambda>d'. Inr ((), d')))"

subsection \<open>The decision for a recipient\<close>

definition rcpt_evidence :: "result \<Rightarrow> recipient_result \<Rightarrow> evidence" where
  "rcpt_evidence out rc = \<lparr>ev_Stage = rr_Stage rc, ev_ErrorClass = o_ErrorClass out, ev_Status = rr_Status rc, ev_Code = rr_Code rc,
     ev_FinalCode = o_Code out, ev_FinalResponse = \<not> IsZero (o_FinalResponseAt out), ev_BodyStarted = \<not> IsZero (o_DataStartedAt out)\<rparr>"

definition rcpt_budget :: "job \<Rightarrow> result \<Rightarrow> string \<Rightarrow> int \<Rightarrow> time \<Rightarrow> budget" where
  "rcpt_budget j out rid count started = \<lparr>b_Attempts = count, b_StartedAt = started, b_Now = o_FinishedAt out, b_Seed = j_AttemptID j @ rid\<rparr>"

definition evidence_json :: "evidence \<Rightarrow> json" where
  "evidence_json e = JObj [(''stage'', JStr (ev_Stage e)), (''error_class'', JStr (ev_ErrorClass e)), (''status'', JStr (status_text (ev_Status e))),
     (''smtp_code'', JInt (ev_Code e)), (''final_code'', JInt (ev_FinalCode e)), (''final_response'', JBool (ev_FinalResponse e)),
     (''body_started'', JBool (ev_BodyStarted e))]"

definition budget_json :: "budget \<Rightarrow> json" where
  "budget_json b = JObj [(''Attempts'', JInt (b_Attempts b)), (''StartedAt'', JInt (b_StartedAt b)), (''Now'', JInt (b_Now b)), (''Seed'', JStr (b_Seed b))]"

definition retry_time :: "repo \<Rightarrow> result \<Rightarrow> decision \<Rightarrow> ts" where
  "retry_time R out dec = (if d_Action dec = Retry \<and> RetryEnabled R then Some (o_FinishedAt out + d_RetryAfter dec) else None)"

definition decided_recipient :: "repo \<Rightarrow> result \<Rightarrow> decision \<Rightarrow> rcpt \<Rightarrow> rcpt" where
  "decided_recipient R out dec r = r\<lparr>r_decision := Some (decision_json dec), r_retry_at := retry_time R out dec, r_retry_automatic := False,
     r_completed_at := (if d_Action dec \<in> {Manual, Unknown} then None else r_completed_at r),
     r_status := (if d_Action dec = Manual then TEMP_FAILED else if d_Action dec = Unknown then DELIVERY_UNKNOWN else r_status r)\<rparr>"

definition decided_attempt_rcpt :: "json \<Rightarrow> string \<Rightarrow> attempt_rcpt \<Rightarrow> attempt_rcpt" where
  "decided_attempt_rcpt raw stage ar = ar\<lparr>ar_decision := Some raw, ar_protocol_stage := Some stage\<rparr>"

definition decided_event :: "repo \<Rightarrow> job \<Rightarrow> result \<Rightarrow> recipient_result \<Rightarrow> budget \<Rightarrow> decision \<Rightarrow> db \<Rightarrow> db" where
  "decided_event R j out rc b dec = event j ''DELIVERY_DECIDED'' (rr_ID rc) (o_FinishedAt out)
     (JObj [(''budget'', budget_json b), (''evidence'', evidence_json (rcpt_evidence out rc)), (''decision'', decision_json dec),
            (''retry_at'', (case retry_time R out dec of None \<Rightarrow> JNull | Some t \<Rightarrow> JInt t)), (''automatic_retry_enabled'', JBool (RetryEnabled R))])"

text \<open>Reading a NULL retry_started_at into a time.Time is an error of database/sql.\<close>

definition scan_time :: "ts \<Rightarrow> err + time" where
  "scan_time x = (case x of None \<Rightarrow> Inl (ErrNew ''converting NULL to time.Time is unsupported'') | Some t \<Rightarrow> Inr t)"

definition decideRecipient :: "repo \<Rightarrow> job \<Rightarrow> result \<Rightarrow> recipient_result \<Rightarrow> db \<Rightarrow> err + db" where
  "decideRecipient R j out rc d =
     bind_res (query_row (\<lambda>r. r_id r = rr_ID rc) (recipients d)) (\<lambda>r.
     bind_res (scan_time (r_retry_started_at r)) (\<lambda>started.
     let b = rcpt_budget j out (rr_ID rc) (r_attempt_count r) started;
         dec = Decide (rcpt_evidence out rc) b;
         d1 = upd_recipients (\<lambda>r. r_id r = rr_ID rc) (decided_recipient R out dec) d;
         d2 = upd_attempt_rcpts (\<lambda>ar. ar_attempt_id ar = j_AttemptID j \<and> ar_recipient_id ar = rr_ID rc)
                (decided_attempt_rcpt (decision_json dec) (rr_Stage rc)) d1
     in Inr (decided_event R j out rc b dec d2)))"

subsection \<open>Recipients of an attempt stopped at the suppression gate\<close>

definition resume_decision :: "result \<Rightarrow> int \<Rightarrow> time \<Rightarrow> status \<times> decision" where
  "resume_decision out count started =
     (if count \<ge> MaxAttempts \<or> \<not> o_FinishedAt out < started + Window
      then (TEMP_FAILED, policy_decision 2 Manual ''RETRY_BUDGET_EXHAUSTED'' False)
      else (QUEUED, policy_decision 2 Resume ''ENVELOPE_ABORTED_BEFORE_DATA'' False))"

definition resumed_recipient :: "status \<Rightarrow> decision \<Rightarrow> rcpt \<Rightarrow> rcpt" where
  "resumed_recipient st dec r = r\<lparr>r_status := st, r_decision := Some (decision_json dec), r_retry_at := None, r_completed_at := None\<rparr>"

definition suppression_handled :: "job \<Rightarrow> result \<Rightarrow> recipient_result \<Rightarrow> json \<Rightarrow> db \<Rightarrow> db" where
  "suppression_handled j out rc raw d = event j ''DELIVERY_DECIDED'' (rr_ID rc) (o_FinishedAt out)
     (JObj [(''decision'', raw), (''suppression_fence'', JBool True), (''smtp_status'', JStr (status_text (rr_Status rc))),
            (''smtp_code'', JInt (rr_Code rc)), (''protocol_stage'', JStr (rr_Stage rc))])
     (upd_attempt_rcpts (\<lambda>ar. ar_attempt_id ar = j_AttemptID j \<and> ar_recipient_id ar = rr_ID rc) (decided_attempt_rcpt raw (rr_Stage rc)) d)"

text \<open>An empty decision of a suppressed recipient would be refused as a value of type jsonb.\<close>

definition finishSuppression :: "job \<Rightarrow> result \<Rightarrow> recipient_result \<Rightarrow> db \<Rightarrow> err + bool \<times> db" where
  "finishSuppression j out rc d =
     bind_res (guard_res (rr_Status rc \<noteq> SMTP_ACCEPTED \<and> rr_Status rc \<noteq> DELIVERY_UNKNOWN) (ErrNew ''acceptance contradicts suppression fence'')) (\<lambda>_.
     bind_res (query_row (\<lambda>r. r_id r = rr_ID rc) (recipients d)) (\<lambda>r.
     bind_res (scan_time (r_retry_started_at r)) (\<lambda>started.
     if r_status r = SUPPRESSED then
       (case r_decision r of None \<Rightarrow> Inl ErrConstraint | Some raw \<Rightarrow> Inr (True, suppression_handled j out rc raw d))
     else if rr_Stage rc \<noteq> ''SUPPRESSION_BLOCKED'' \<and> rr_Stage rc \<noteq> ''DATABASE_ERROR'' then Inr (False, d)
     else
       let (st, dec) = resume_decision out (r_attempt_count r) started
       in Inr (True, suppression_handled j out rc (decision_json dec) (upd_recipients (\<lambda>r. r_id r = rr_ID rc) (resumed_recipient st dec) d)))))"

subsection \<open>The circuit breaker\<close>

fun circuit_text :: "circuit \<Rightarrow> string" where
  "circuit_text CLOSED = ''CLOSED''"
| "circuit_text OPEN = ''OPEN''"
| "circuit_text HALF_OPEN = ''HALF_OPEN''"

fun outcome_text :: "outcome \<Rightarrow> string" where
  "outcome_text SUCCESS = ''SUCCESS''"
| "outcome_text FAILURE = ''FAILURE''"
| "outcome_text IGNORED = ''IGNORED''"

definition epoch :: time where "epoch = 62135596800 * Second"

definition new_health :: "string \<Rightarrow> health_row" where
  "new_health pid = \<lparr>h_provider_id = pid, h_status = ''HEALTHY'', h_circuit_state = CLOSED, h_open_until = None, h_probe_attempt_id = None,
     h_samples_since = epoch, h_last_success_at = None, h_last_failure_at = None, h_last_error = None\<rparr>"

definition ensure_health :: "string \<Rightarrow> db \<Rightarrow> db" where
  "ensure_health pid d = (if \<exists>h \<in> set (provider_health d). h_provider_id h = pid then d
     else d\<lparr>provider_health := provider_health d @ [new_health pid]\<rparr>)"

definition health_observed :: "time \<Rightarrow> outcome \<Rightarrow> string \<Rightarrow> health_row \<Rightarrow> health_row" where
  "health_observed t sample class h = h\<lparr>h_last_success_at := (if sample = SUCCESS then Some t else h_last_success_at h),
     h_last_failure_at := (if sample = FAILURE then Some t else h_last_failure_at h),
     h_last_error := (if sample = FAILURE then Some class else if sample = SUCCESS then None else h_last_error h)\<rparr>"

definition health_samples :: "time \<Rightarrow> string \<Rightarrow> db \<Rightarrow> attempt list" where
  "health_samples t pid d = filter (\<lambda>a. a_provider_id a = pid
     \<and> (\<exists>h \<in> set (provider_health d). h_provider_id h = pid \<and> a_started_at a \<ge> h_samples_since h)
     \<and> null_gt (a_health_observed_at a) (t - 10 * Minute) \<and> a_health_outcome a \<in> {Some SUCCESS, Some FAILURE}) (attempts d)"

definition next_circuit :: "bool \<Rightarrow> string \<Rightarrow> health_row \<Rightarrow> outcome \<Rightarrow> int \<Rightarrow> int \<Rightarrow> circuit" where
  "next_circuit watched attempt h sample samples failed =
     (if h_circuit_state h = HALF_OPEN \<and> coalesce (h_probe_attempt_id h) [] = attempt then (if sample = SUCCESS then CLOSED else OPEN)
      else if h_circuit_state h = CLOSED \<and> watched \<and> samples \<ge> 5 \<and> failed * 2 \<ge> samples then OPEN
      else h_circuit_state h)"

definition switch_circuit :: "time \<Rightarrow> circuit \<Rightarrow> health_row \<Rightarrow> health_row" where
  "switch_circuit t c h = h\<lparr>h_circuit_state := c, h_probe_attempt_id := None, h_open_until := (if c = OPEN then Some (t + Minute) else None),
     h_samples_since := (if c = CLOSED then t else h_samples_since h), h_status := (if c = OPEN then ''UNHEALTHY'' else ''HEALTHY'')\<rparr>"

definition attempt_evidence :: "result \<Rightarrow> evidence" where
  "attempt_evidence out = \<lparr>ev_Stage = o_Stage out, ev_ErrorClass = o_ErrorClass out, ev_Status = o_Status out, ev_Code = o_Code out,
     ev_FinalCode = o_Code out, ev_FinalResponse = \<not> IsZero (o_FinalResponseAt out), ev_BodyStarted = \<not> IsZero (o_DataStartedAt out)\<rparr>"

definition health_sampled :: "time \<Rightarrow> outcome \<Rightarrow> attempt \<Rightarrow> attempt" where
  "health_sampled t sample a = a\<lparr>a_health_outcome := Some sample, a_health_observed_at := Some t\<rparr>"

definition finishHealth :: "repo \<Rightarrow> env \<Rightarrow> job \<Rightarrow> result \<Rightarrow> db \<Rightarrow> err + db" where
  "finishHealth R E j out d =
     (let sample = ProviderOutcome (attempt_evidence out); pid = p_ID (j_Provider j) in
      bind_res (query_row (\<lambda>p. pv_id p = pid) (providers d)) (\<lambda>p.
      let d1 = ensure_health pid (upd_attempts (\<lambda>a. a_id a = j_AttemptID j) (health_sampled (clk E 10) sample) d) in
      bind_res (query_row (\<lambda>h. h_provider_id h = pid) (provider_health d1)) (\<lambda>h.
      let d2 = upd_health (\<lambda>h. h_provider_id h = pid) (health_observed (clk E 11) sample (o_ErrorClass out)) d1;
          samples = int (length (health_samples (clk E 12) pid d2));
          failed = count_where (\<lambda>a. a_health_outcome a = Some FAILURE) (health_samples (clk E 12) pid d2);
          state = h_circuit_state h;
          nxt = next_circuit (HealthEnabled R \<and> pv_health_check_enabled p) (j_AttemptID j) h sample samples failed;
          d3 = (if state = CLOSED \<and> nxt = state
                then upd_health (\<lambda>h. h_provider_id h = pid) (\<lambda>h. h\<lparr>h_status := (if failed > 0 then ''DEGRADED'' else ''HEALTHY'')\<rparr>) d2 else d2)
      in if nxt = state then Inr d3
         else Inr (event j (''PROVIDER_CIRCUIT_'' @ circuit_text nxt) [] (host E)
                (JObj [(''provider_id'', JStr pid), (''previous_state'', JStr (circuit_text state)), (''outcome'', JStr (outcome_text sample)),
                       (''window_seconds'', JInt 600), (''minimum_samples'', JInt 5), (''failure_ratio'', JStr ''0.5''), (''cooldown_seconds'', JInt 60)])
                (upd_health (\<lambda>h. h_provider_id h = pid) (switch_circuit (clk E 13) nxt) d3)))))"

subsection \<open>The end of an attempt\<close>

definition finished_attempt :: "result \<Rightarrow> attempt \<Rightarrow> attempt" where
  "finished_attempt out a = a\<lparr>a_result := o_Status out, a_finished_at := Some (o_FinishedAt out), a_error_class := Some (o_ErrorClass out),
     a_evidence := Some out\<rparr>"

definition reported_recipient :: "result \<Rightarrow> recipient_result \<Rightarrow> rcpt \<Rightarrow> rcpt" where
  "reported_recipient out rc r = r\<lparr>r_status := rr_Status rc, r_smtp_code := Some (rr_Code rc), r_smtp_response := Some (rr_Response rc),
     r_completed_at := (if rr_Status rc \<in> {SMTP_ACCEPTED, PERM_FAILED} then Some (o_FinishedAt out) else None)\<rparr>"

definition reported_attempt_rcpt :: "recipient_result \<Rightarrow> attempt_rcpt \<Rightarrow> attempt_rcpt" where
  "reported_attempt_rcpt rc ar = ar\<lparr>ar_status := rr_Status rc, ar_smtp_code := Some (rr_Code rc), ar_enhanced := Some (rr_Enhanced rc),
     ar_response := Some (rr_Response rc)\<rparr>"

definition report_rcpt :: "job \<Rightarrow> result \<Rightarrow> recipient_result \<Rightarrow> db \<Rightarrow> db" where
  "report_rcpt j out rc d =
     upd_attempt_rcpts (\<lambda>ar. ar_attempt_id ar = j_AttemptID j \<and> ar_recipient_id ar = rr_ID rc) (reported_attempt_rcpt rc)
       (upd_recipients (\<lambda>r. r_id r = rr_ID rc \<and> r_message_id r = j_ID j \<and> r_status r \<noteq> SUPPRESSED) (reported_recipient out rc) d)"

text \<open>One turn of the loop over the results; the set \<open>expected\<close> of the code is carried along.\<close>

definition finish_rcpt :: "repo \<Rightarrow> job \<Rightarrow> result \<Rightarrow> bool \<Rightarrow> bool \<Rightarrow> recipient_result \<Rightarrow> string set \<times> db \<Rightarrow> err + string set \<times> db" where
  "finish_rcpt R j out policy_blocked expiry_blocked rc = (\<lambda>(expected, d).
     bind_res (guard_res (rr_ID rc \<in> expected) (ErrNew ''unexpected recipient result'')) (\<lambda>_.
     bind_res (guard_res (rr_Status rc \<in> {SMTP_ACCEPTED, TEMP_FAILED, PERM_FAILED, DELIVERY_UNKNOWN}) (ErrNew ''invalid recipient result'')) (\<lambda>_.
     bind_res (guard_res (\<not> (expiry_blocked \<and> rr_Status rc \<in> {SMTP_ACCEPTED, DELIVERY_UNKNOWN})) (ErrNew ''acceptance contradicts expiry fence'')) (\<lambda>_.
     let d = report_rcpt j out rc d in
     bind_res (if policy_blocked then finishSuppression j out rc d else Inr (False, d)) (\<lambda>(handled, d).
     bind_res (if handled then Inr d else decideRecipient R j out rc d) (\<lambda>d.
     Inr (expected - {rr_ID rc}, d)))))))"

definition finish_kind :: "status \<Rightarrow> string" where
  "finish_kind st = (if st = DELIVERY_UNKNOWN then ''DELIVERY_UNKNOWN''
     else if st = TEMP_FAILED \<or> st = PERM_FAILED then ''ATTEMPT_FAILED'' else ''ATTEMPT_FINISHED'')"

definition release_lease :: "string \<Rightarrow> message \<Rightarrow> message" where
  "release_lease class m = m\<lparr>m_last_error := Some class, m_locked_at := None, m_locked_by := None, m_lease_expires_at := None\<rparr>"

definition finish_results :: "repo \<Rightarrow> job \<Rightarrow> result \<Rightarrow> bool \<Rightarrow> bool \<Rightarrow> db \<Rightarrow> err + db" where
  "finish_results R j out policy_blocked expiry_blocked d =
     bind_res (guard_res (length (o_Recipients out) = length (j_Recipients j)) (ErrNew ''incomplete recipient results'')) (\<lambda>_.
     bind_res (fold_res (finish_rcpt R j out policy_blocked expiry_blocked) (o_Recipients out) (rc_ID ` set (j_Recipients j), d)) (\<lambda>(_, d).
     Inr d))"

definition finish_close :: "repo \<Rightarrow> env \<Rightarrow> job \<Rightarrow> result \<Rightarrow> db \<Rightarrow> err + db" where
  "finish_close R E j out d =
     bind_res (fold_res (recordEvent j) (o_Events out) d) (\<lambda>d.
     let d = event j (finish_kind (o_Status out)) [] (o_FinishedAt out)
           (JObj [(''error_class'', JStr (o_ErrorClass out)), (''status'', JStr (status_text (o_Status out)))]) d;
         d = upd_messages (\<lambda>m. m_id m = j_ID j) (release_lease (o_ErrorClass out)) d;
         d = applyExpiry E j d
     in bind_res (finishHealth R E j out d) (\<lambda>d. Inr (refresh E (j_ID j) d)))"

definition Finish :: "repo \<Rightarrow> env \<Rightarrow> job \<Rightarrow> result \<Rightarrow> (db, unit) body" where
  "Finish R E j out d =
     bind_res (fence None j d) (\<lambda>_.
     bind_res (query_row (\<lambda>p. pv_id p = p_ID (j_Provider j)) (providers d)) (\<lambda>_.
     bind_res (query_row (open_attempt j) (attempts d)) (\<lambda>a.
     let policy_blocked = a_suppression_blocked_at a \<noteq> None; expiry_blocked = a_expiry_blocked_at a \<noteq> None in
     bind_res (guard_res (\<not> ((policy_blocked \<or> expiry_blocked)
         \<and> (\<not> IsZero (o_DataStartedAt out) \<or> \<not> IsZero (o_FinalResponseAt out) \<or> o_BytesSent out \<noteq> 0)))
       (ErrNew ''DATA evidence contradicts policy fence'')) (\<lambda>_.
     bind_res (finish_results R j out policy_blocked expiry_blocked (upd_attempts (\<lambda>a. a_id a = j_AttemptID j) (finished_attempt out) d)) (\<lambda>d.
     bind_res (finish_close R E j out d) (\<lambda>d. Inr ((), d)))))))"

end
