(* ===== verification/Queue_Recover.thy ===== *)
theory Queue_Recover
  imports Queue_Finish
begin

text \<open>
  The operations of internal/queue that need no lease: recovery of expired leases (repository.go), the scheduler of durable retries
  (decisions.go), and the resolution of uncertain deliveries by an operator (manual.go).
\<close>

subsection \<open>Recovery of expired leases\<close>

definition recoverProbe :: "env \<Rightarrow> job \<Rightarrow> db \<Rightarrow> db" where
  "recoverProbe E j d =
     (case find (\<lambda>h. h_probe_attempt_id h = Some (j_AttemptID j)) (provider_health d) of
        None \<Rightarrow> d
      | Some h \<Rightarrow> event j ''PROVIDER_CIRCUIT_OPEN'' [] (host E)
          (JObj [(''provider_id'', JStr (h_provider_id h)), (''reason'', JStr ''PROBE_LEASE_EXPIRED''), (''cooldown_seconds'', JInt 60)])
          (upd_health (\<lambda>h. h_probe_attempt_id h = Some (j_AttemptID j))
             (\<lambda>h. h\<lparr>h_circuit_state := OPEN, h_probe_attempt_id := None, h_open_until := Some (clk E 40 + Minute), h_status := ''UNHEALTHY''\<rparr>) d))"

definition exhausted :: "env \<Rightarrow> rcpt \<Rightarrow> bool" where
  "exhausted E r \<longleftrightarrow> r_attempt_count r \<ge> 7 \<or> null_le (r_retry_started_at r) (now E - 24 * Hour)"

definition exhaust_recipient :: "string \<Rightarrow> rcpt \<Rightarrow> rcpt" where
  "exhaust_recipient reason r = r\<lparr>r_status := TEMP_FAILED, r_retry_at := None, r_retry_automatic := False,
     r_decision := Some (decision_json (policy_decision 1 Manual reason False))\<rparr>"

definition expireRecovered :: "env \<Rightarrow> job \<Rightarrow> db \<Rightarrow> db" where
  "expireRecovered E j d =
     (let hit = (\<lambda>r. r_message_id r = j_ID j \<and> r_status r = QUEUED \<and> exhausted E r);
          ids = map r_id (filter hit (recipients d));
          d' = upd_recipients hit (exhaust_recipient ''RECOVERY_BUDGET_EXHAUSTED'') d
      in refresh E (j_ID j) (fold (\<lambda>rid. event j ''RETRY_EXHAUSTED'' rid (host E)
           (decision_json (policy_decision 1 Manual ''RECOVERY_BUDGET_EXHAUSTED'' False))) ids d'))"

definition lost_attempt :: "env \<Rightarrow> status \<Rightarrow> attempt \<Rightarrow> attempt" where
  "lost_attempt E st a = a\<lparr>a_result := st, a_finished_at := Some (now E), a_error_class := Some ''WORKER_LEASE_EXPIRED''\<rparr>"

definition recovered_message :: "status \<Rightarrow> ts \<Rightarrow> message \<Rightarrow> message" where
  "recovered_message st next m = m\<lparr>m_status := st, m_last_error := Some ''WORKER_LEASE_EXPIRED'', m_next_attempt_at := next,
     m_locked_at := None, m_locked_by := None, m_lease_expires_at := None\<rparr>"

text \<open>One expired lease: the statements of the loop up to the probe, then the rest.\<close>

definition recover_rows :: "env \<Rightarrow> job \<Rightarrow> bool \<Rightarrow> db \<Rightarrow> db" where
  "recover_rows E j armed d =
     (let st = (if armed then DELIVERY_UNKNOWN else QUEUED);
          attempt_st = (if armed then DELIVERY_UNKNOWN else TEMP_FAILED);
          next = (if armed then None else Some (host E));
          d = upd_attempts (\<lambda>a. a_id a = j_AttemptID j) (lost_attempt E attempt_st) d;
          d = upd_attempt_rcpts (\<lambda>ar. ar_attempt_id ar = j_AttemptID j) (\<lambda>ar. ar\<lparr>ar_status := attempt_st\<rparr>) d;
          d = upd_recipients (\<lambda>r. r_message_id r = j_ID j \<and> r_status r = SENDING) (\<lambda>r. r\<lparr>r_status := st\<rparr>) d
      in upd_messages (\<lambda>m. m_id m = j_ID j) (recovered_message st next) d)"

definition recover_one :: "env \<Rightarrow> job \<times> bool \<Rightarrow> db \<Rightarrow> db" where
  "recover_one E = (\<lambda>(j, armed) d.
     let d = recoverProbe E j (recover_rows E j armed d);
         d = (if armed then d else expireRecovered E j d);
         d = refresh E (j_ID j) (applyExpiry E j d)
     in event j (if armed then ''DELIVERY_UNKNOWN'' else ''LEASE_RECOVERED'') [] (host E) (JObj [(''data_may_have_started'', JBool armed)]) d)"

definition expired_leases :: "env \<Rightarrow> db \<Rightarrow> (message \<times> attempt) list" where
  "expired_leases E d = order_limit (\<lambda>(m, a). (a_provider_id a, coalesce (m_lease_expires_at m) 0)) 20
     (\<lambda>(m, a). a_message_id a = m_id m \<and> a_result a = IN_PROGRESS \<and> m_status m = SENDING \<and> null_le (m_lease_expires_at m) (clk E 0)
        \<and> \<not> locked_messages E (m_id m))
     (List.product (messages d) (attempts d))"

definition Recover :: "env \<Rightarrow> (db, unit) body" where
  "Recover E d = Inr ((), fold (recover_one E)
     (map (\<lambda>(m, a). (bare_job (m_id m) (coalesce (m_locked_by m) []) (a_id a), a_data_armed_at a \<noteq> None)) (expired_leases E d)) d)"

subsection \<open>The scheduler\<close>

definition retry_due :: "env \<Rightarrow> rcpt \<Rightarrow> bool" where
  "retry_due E r \<longleftrightarrow> null_le (r_retry_at r) (now E) \<or> (r_retry_automatic r \<and> r_status r = QUEUED \<and> exhausted E r)"

definition requeue_recipient :: "rcpt \<Rightarrow> rcpt" where
  "requeue_recipient r = r\<lparr>r_status := QUEUED, r_retry_at := None, r_retry_automatic := True\<rparr>"

definition schedule_rcpt :: "repo \<Rightarrow> env \<Rightarrow> string \<Rightarrow> string \<times> int \<times> time \<Rightarrow> db \<Rightarrow> db" where
  "schedule_rcpt R E mid = (\<lambda>(rid, count, started) d.
     if count \<ge> MaxAttempts \<or> \<not> host E < started + Window then
       event (bare_job mid [] []) ''RETRY_EXHAUSTED'' rid (host E) (decision_json (policy_decision 1 Manual ''RETRY_BUDGET_EXHAUSTED'' False))
         (upd_recipients (\<lambda>r. r_id r = rid) (exhaust_recipient ''RETRY_BUDGET_EXHAUSTED'') d)
     else if RetryEnabled R then
       event (bare_job mid [] []) ''RETRY_QUEUED'' rid (host E)
         (JObj [(''attempts'', JInt count), (''route_evaluated_at_claim'', JBool True), (''failover_enabled'', JBool (FailoverEnabled R))])
         (upd_recipients (\<lambda>r. r_id r = rid) requeue_recipient d)
     else d)"

text \<open>The candidates of a message, each with its count and start; a start that is NULL fails the scan.\<close>

definition schedule_candidates :: "env \<Rightarrow> string \<Rightarrow> db \<Rightarrow> rcpt list" where
  "schedule_candidates E mid d = sort_key r_id (filter (\<lambda>r. r_message_id r = mid \<and> retry_due E r) (recipients d))"

definition schedule_message :: "repo \<Rightarrow> env \<Rightarrow> string \<Rightarrow> db \<Rightarrow> err + db" where
  "schedule_message R E mid d =
     (let d = applyExpiry E (bare_job mid [] []) d; cs = schedule_candidates E mid d in
      if \<exists>r \<in> set cs. r_retry_started_at r = None then Inl (ErrNew ''converting NULL to time.Time is unsupported'')
      else Inr (refresh E mid (fold (schedule_rcpt R E mid)
             (map (\<lambda>r. (r_id r, r_attempt_count r, coalesce (r_retry_started_at r) 0)) cs) d)))"

definition schedule_ids :: "env \<Rightarrow> db \<Rightarrow> string list" where
  "schedule_ids E d = map m_id (order_limit (\<lambda>m. (m_created_at m, m_id m)) 20
     (\<lambda>m. m_locked_by m = None \<and> m_archive_state m = ''AVAILABLE'' \<and> m_status m \<in> {QUEUED, TEMP_FAILED, PARTIAL_ACCEPTED}
        \<and> \<not> locked_messages E (m_id m) \<and> (\<exists>r \<in> set (recipients d). r_message_id r = m_id m \<and> retry_due E r))
     (messages d))"

definition schedule_tx :: "repo \<Rightarrow> env \<Rightarrow> (db, unit) body" where
  "schedule_tx R E d = bind_res (fold_res (schedule_message R E) (schedule_ids E d) d) (\<lambda>d. Inr ((), d))"

definition Schedule :: "repo \<Rightarrow> env \<Rightarrow> env \<Rightarrow> db \<Rightarrow> (err + unit) \<times> db" where
  "Schedule R E1 E2 d =
     (case SweepExpired E1 d of Inl e \<Rightarrow> (Inl e, d) | Inr (_, d1) \<Rightarrow> (run_tx (schedule_tx R E2) d1, commit_tx (schedule_tx R E2) d1))"

subsection \<open>Resolution of uncertain deliveries\<close>

record resolution =
  rs_RecipientID :: string
  rs_ExpectedAttempt :: string
  rs_Action :: string
  rs_Actor :: string
  rs_Reason :: string
  rs_AcknowledgeDuplicate :: bool

definition resolution_json :: "resolution \<Rightarrow> json" where
  "resolution_json v = JObj [(''recipient_id'', JStr (rs_RecipientID v)), (''expected_attempt'', JStr (rs_ExpectedAttempt v)),
     (''action'', JStr (rs_Action v)), (''actor'', JStr (rs_Actor v)), (''reason'', JStr (rs_Reason v)),
     (''acknowledge_duplicate_risk'', JBool (rs_AcknowledgeDuplicate v))]"

definition resolution_status :: "resolution \<Rightarrow> err + status" where
  "resolution_status v =
     (if rs_Action v = ''retry'' then
        (if \<not> rs_AcknowledgeDuplicate v then Inl (ErrNew ''manual retry requires explicit acknowledgement of duplicate delivery risk'') else Inr QUEUED)
      else if rs_Action v = ''mark-delivered'' then Inr DELIVERED
      else if rs_Action v = ''mark-failed'' then Inr PERM_FAILED
      else Inl (ErrNew ''action must be retry, mark-delivered or mark-failed''))"

text \<open>The latest attempt of a recipient with its row in that attempt: ORDER BY a.attempt_number DESC LIMIT 1.\<close>

definition latest_attempt :: "db \<Rightarrow> string \<Rightarrow> (attempt_rcpt \<times> attempt) list" where
  "latest_attempt d rid = order_limit (\<lambda>(ar, a). - a_number a) 1
     (\<lambda>(ar, a). ar_recipient_id ar = rid \<and> ar_attempt_id ar = a_id a) (List.product (attempt_recipients d) (attempts d))"

definition resolved_recipient :: "env \<Rightarrow> resolution \<Rightarrow> status \<Rightarrow> rcpt \<Rightarrow> rcpt" where
  "resolved_recipient E v st r = r\<lparr>r_status := st, r_retry_at := None, r_retry_automatic := False,
     r_decision := Some (JObj [(''version'', JInt 1), (''action'', JStr ''MANUAL_RESOLUTION''), (''resolution'', resolution_json v)]),
     r_completed_at := (if st = QUEUED then None else Some (now E))\<rparr>"

definition resolve_checks :: "env \<Rightarrow> resolution \<Rightarrow> rcpt \<Rightarrow> message \<Rightarrow> db \<Rightarrow> err + attempt" where
  "resolve_checks E v r m d =
     bind_res (guard_res (m_locked_by m = None) ErrStaleResolution) (\<lambda>_.
     case latest_attempt d (rs_RecipientID v) of [] \<Rightarrow> Inl ErrNoRows | (ar, a) # _ \<Rightarrow>
     bind_res (guard_res (r_status r = DELIVERY_UNKNOWN \<and> ar_status ar = DELIVERY_UNKNOWN \<and> a_id a = rs_ExpectedAttempt v) ErrStaleResolution) (\<lambda>_.
     bind_res (guard_res (rs_Action v = ''retry'' \<longrightarrow> \<not> null_le (m_expires_at m) (clk E 0)) ErrExpired) (\<lambda>_.
     bind_res (guard_res (rs_Action v = ''retry'' \<longrightarrow> m_archive_state m = ''AVAILABLE'') (ErrNew ''original archive unavailable; cannot retry'')) (\<lambda>_.
     bind_res (guard_res (rs_Action v = ''retry'' \<longrightarrow> \<not> suppressed_address (clk E 1) d (r_address r)) ErrBlocked) (\<lambda>_.
     Inr a)))))"

definition resolve_valid :: "env \<Rightarrow> resolution \<Rightarrow> err + status" where
  "resolve_valid E v =
     bind_res (guard_res (uuid_valid E (rs_RecipientID v) \<and> uuid_valid E (rs_ExpectedAttempt v))
       (ErrNew ''valid recipient and expected attempt UUIDs required'')) (\<lambda>_.
     bind_res (guard_res (trim_space (rs_Actor v) \<noteq> [] \<and> trim_space (rs_Reason v) \<noteq> [] \<and> length (rs_Actor v) \<le> 128
         \<and> length (rs_Reason v) \<le> 2048 \<and> valid_utf8 (rs_Actor v @ rs_Reason v))
       (ErrNew ''actor (1..128 bytes) and reason (1..2048 bytes) required'')) (\<lambda>_.
     resolution_status v))"

definition resolve_write :: "env \<Rightarrow> resolution \<Rightarrow> status \<Rightarrow> message \<Rightarrow> attempt \<Rightarrow> (db, string) body" where
  "resolve_write E v st m a d =
     bind_res (guard_res (st \<noteq> QUEUED \<or> \<not> null_le (m_expires_at m) (clk E 2)) ErrExpired) (\<lambda>_.
     let d = upd_recipients (\<lambda>r. r_id r = rs_RecipientID v) (resolved_recipient E v st) d;
         d = (if rs_Action v = ''retry'' then upd_messages (\<lambda>x. m_id x = m_id m) (\<lambda>x. x\<lparr>m_route_provider_id := Some (a_provider_id a)\<rparr>) d else d);
         d = append_event \<lparr>e_message_id = m_id m, e_attempt_id = Some (a_id a), e_recipient_id = Some (rs_RecipientID v),
               e_type = ''UNKNOWN_RESOLVED'', e_time = now E, e_source = ''operator'', e_data = resolution_json v, e_sequence = None\<rparr> d;
         d = append_audit ''UNKNOWN_RESOLVED'' (rs_Actor v) (resolution_json v) d
     in Inr (fresh_id E, refresh E (m_id m) d))"

definition ResolveUnknown :: "env \<Rightarrow> resolution \<Rightarrow> (db, string) body" where
  "ResolveUnknown E v d =
     bind_res (resolve_valid E v) (\<lambda>st.
     bind_res (query_row (\<lambda>r. r_id r = rs_RecipientID v) (recipients d)) (\<lambda>r.
     bind_res (query_row (\<lambda>m. m_id m = r_message_id r) (messages d)) (\<lambda>m.
     bind_res (resolve_checks E v r m d) (\<lambda>a.
     resolve_write E v st m a d))))"

end
