(* ===== verification/Queue_Tables.thy ===== *)
theory Queue_Tables
  imports Queue_Claim Queue_Recover
begin

text \<open>
  What each operation of the queue does to each table. Most of what an operation writes are events, which no other
  table sees: the locale below collects what follows from that for one view of the database, and is
  interpreted for every table.
\<close>

subsection \<open>Views that ignore events\<close>

locale event_frame =
  fixes view :: "db \<Rightarrow> 'v"
  assumes frame_event [simp]: "view (append_event e d) = view d"
begin

lemma view_event [simp]: "view (event j kind rid at data d) = view d"
  by (simp add: event_def)

lemma view_fold: "(\<And>x d. view (h x d) = view d) \<Longrightarrow> view (fold h xs d) = view d"
  by (induction xs arbitrary: d) simp_all

lemma view_recordEvent:
  assumes "recordEvent j e d = Inr d'"
  shows "view d' = view d"
proof (cases "\<exists>x \<in> set (events d). e_attempt_id x = Some (j_AttemptID j) \<and> e_sequence x = Some (se_Sequence e)")
  case True
  with assms have "d' = d" unfolding recordEvent_def by (simp split: if_split_asm)
  then show ?thesis by simp
next
  case False
  with assms show ?thesis unfolding recordEvent_def if_not_P [OF False] by (auto split: if_split_asm)
qed

lemma view_recordEvents:
  assumes "fold_res (recordEvent j) es d = Inr d'"
  shows "view d' = view d"
  using assms by (rule fold_res_invariant [where P = "\<lambda>x. view x = view d"]) (simp_all add: view_recordEvent)

lemma view_claim_started [simp]: "view (claim_started E j n d) = view d"
  by (simp add: claim_started_def)

lemma view_recordFailover:
  assumes "recordFailover E j previous d = Inr d'"
  shows "view d' = view d"
  using assms by (auto simp: recordFailover_def Let_def split_beta intro!: view_fold split: if_split_asm)

end

interpretation messages_frame: event_frame messages by unfold_locales simp
interpretation recipients_frame: event_frame recipients by unfold_locales simp
interpretation attempts_frame: event_frame attempts by unfold_locales simp
interpretation attempt_recipients_frame: event_frame attempt_recipients by unfold_locales simp
interpretation providers_frame: event_frame providers by unfold_locales simp
interpretation health_frame: event_frame provider_health by unfold_locales simp
interpretation quota_frame: event_frame provider_quota by unfold_locales simp
interpretation groups_frame: event_frame quota_groups by unfold_locales simp
interpretation suppressions_frame: event_frame suppressions by unfold_locales simp
interpretation owners_frame: event_frame fair_owners by unfold_locales simp
interpretation streams_frame: event_frame message_streams by unfold_locales simp
interpretation ticket_frame: event_frame next_ticket by unfold_locales simp
interpretation lower_frame: event_frame pg_lower by unfold_locales simp

text \<open>Events are only added.\<close>

definition keeps_events :: "db \<Rightarrow> db \<Rightarrow> bool" where
  "keeps_events d d' \<longleftrightarrow> set (events d) \<subseteq> set (events d')"

lemma keeps_events_refl [simp, intro]: "keeps_events d d"
  by (simp add: keeps_events_def)

lemma keeps_events_trans: "keeps_events a b \<Longrightarrow> keeps_events b c \<Longrightarrow> keeps_events a c"
  by (auto simp: keeps_events_def)

lemma keeps_events_append [intro]: "keeps_events a d \<Longrightarrow> keeps_events a (append_event e d)"
  by (auto simp: keeps_events_def)

lemma keeps_events_event [intro]: "keeps_events a d \<Longrightarrow> keeps_events a (event j kind rid at data d)"
  by (auto simp: event_def)

lemma keeps_events_table [simp]:
  "keeps_events a (d\<lparr>messages := x1\<rparr>) = keeps_events a d" "keeps_events a (d\<lparr>recipients := x2\<rparr>) = keeps_events a d"
  "keeps_events a (d\<lparr>attempts := x3\<rparr>) = keeps_events a d" "keeps_events a (d\<lparr>attempt_recipients := x4\<rparr>) = keeps_events a d"
  "keeps_events a (d\<lparr>provider_health := x5\<rparr>) = keeps_events a d" "keeps_events a (d\<lparr>provider_quota := x6\<rparr>) = keeps_events a d"
  "keeps_events a (d\<lparr>fair_owners := x7\<rparr>) = keeps_events a d" "keeps_events a (d\<lparr>next_ticket := x8\<rparr>) = keeps_events a d"
  "keeps_events a (d\<lparr>audit := x9\<rparr>) = keeps_events a d"
  by (simp_all add: keeps_events_def)

lemma keeps_events_fold: "(\<And>x d. keeps_events d (h x d)) \<Longrightarrow> keeps_events d (fold h xs d)"
  by (induction xs arbitrary: d) (auto intro: keeps_events_trans)

lemma keeps_events_recordEvent: "recordEvent j e d = Inr d' \<Longrightarrow> keeps_events d d'"
  unfolding recordEvent_def by (auto split: if_split_asm)

lemma keeps_events_recordEvents: "fold_res (recordEvent j) es d = Inr d' \<Longrightarrow> keeps_events d d'"
  by (erule fold_res_invariant) (auto intro: keeps_events_trans keeps_events_recordEvent)

subsection \<open>The shared operations\<close>

lemma refresh_tables [simp]:
  "messages (refresh E mid d) = update_where (\<lambda>m. m_id m = mid) (refresh_message E (recipients_of d mid)) (messages d)"
  "recipients (refresh E mid d) = recipients d" "attempts (refresh E mid d) = attempts d"
  "attempt_recipients (refresh E mid d) = attempt_recipients d" "suppressions (refresh E mid d) = suppressions d"
  "pg_lower (refresh E mid d) = pg_lower d" "events (refresh E mid d) = events d" "fair_owners (refresh E mid d) = fair_owners d"
  "next_ticket (refresh E mid d) = next_ticket d" "providers (refresh E mid d) = providers d" "provider_quota (refresh E mid d) = provider_quota d"
  by (simp_all add: refresh_def)

lemma applyExpiry_tables [simp]:
  "recipients (applyExpiry E j d) = update_where (expires_now (clk E 30) (j_ID j) d) (expire_recipient (clk E 30) d) (recipients d)"
  "messages (applyExpiry E j d) = messages d" "attempts (applyExpiry E j d) = attempts d"
  "attempt_recipients (applyExpiry E j d) = attempt_recipients d" "suppressions (applyExpiry E j d) = suppressions d"
  "pg_lower (applyExpiry E j d) = pg_lower d" "fair_owners (applyExpiry E j d) = fair_owners d" "next_ticket (applyExpiry E j d) = next_ticket d"
  "providers (applyExpiry E j d) = providers d" "provider_quota (applyExpiry E j d) = provider_quota d"
  by (simp_all add: applyExpiry_def Let_def split_beta messages_frame.view_fold recipients_frame.view_fold attempts_frame.view_fold
      attempt_recipients_frame.view_fold suppressions_frame.view_fold lower_frame.view_fold owners_frame.view_fold ticket_frame.view_fold
      providers_frame.view_fold quota_frame.view_fold)

lemma keeps_events_refresh [intro]: "keeps_events a d \<Longrightarrow> keeps_events a (refresh E mid d)"
  by (simp add: refresh_def)

lemma keeps_events_applyExpiry: "keeps_events d (applyExpiry E j d)"
  unfolding applyExpiry_def Let_def by (rule keeps_events_trans [OF _ keeps_events_fold]) auto

lemma Apply_tables [simp]:
  "recipients (snd (Apply E mid attempt sending d)) = map (apply_rows (clk E 21) (apply_hits (clk E 20) mid sending d)) (recipients d)"
  "messages (snd (Apply E mid attempt sending d)) = messages d" "attempts (snd (Apply E mid attempt sending d)) = attempts d"
  "attempt_recipients (snd (Apply E mid attempt sending d)) = attempt_recipients d"
  "suppressions (snd (Apply E mid attempt sending d)) = suppressions d" "pg_lower (snd (Apply E mid attempt sending d)) = pg_lower d"
  "providers (snd (Apply E mid attempt sending d)) = providers d"
  "fst (Apply E mid attempt sending d) = length (apply_hits (clk E 20) mid sending d)"
  by (simp_all add: Apply_def Let_def apply_hit_fold apply_hit_frame)

lemma keeps_events_Apply: "keeps_events d (snd (Apply E mid attempt sending d))"
  unfolding Apply_def Let_def snd_conv by (rule keeps_events_fold) (auto simp: apply_hit_def split_beta)

lemma recoverProbe_tables [simp]:
  "messages (recoverProbe E j d) = messages d" "recipients (recoverProbe E j d) = recipients d" "attempts (recoverProbe E j d) = attempts d"
  "attempt_recipients (recoverProbe E j d) = attempt_recipients d"
  by (auto simp: recoverProbe_def split: option.split)

lemma keeps_events_recoverProbe: "keeps_events d (recoverProbe E j d)"
  by (auto simp: recoverProbe_def split: option.split)

end
