(* ===== verification/Queue_Invariant.thy ===== *)
theory Queue_Invariant
  imports Queue_Tables
begin

text \<open>
  The invariant of the queue's tables: keys and references, leases and attempts in progress, the recipients of
  an attempt in progress, the gates before DATA, and the evidence behind every recipient that may be sent again. The operations
  on messages without a lease are treated here; those of a lease holder, recovery and the claim follow in the next theories.
\<close>

subsection \<open>Keys\<close>

definition m_key :: "message \<Rightarrow> string \<times> int" where
  "m_key m = (m_id m, m_attempt_count m)"

definition r_key :: "rcpt \<Rightarrow> string \<times> string \<times> string" where
  "r_key r = (r_id r, r_message_id r, r_address r)"

definition a_key :: "attempt \<Rightarrow> string \<times> string \<times> int \<times> string \<times> string" where
  "a_key a = (a_id a, a_message_id a, a_number a, a_claim_token a, a_provider_id a)"

definition ar_key :: "attempt_rcpt \<Rightarrow> string \<times> string" where
  "ar_key ar = (ar_attempt_id ar, ar_recipient_id ar)"

abbreviation ar_keys :: "db \<Rightarrow> (string \<times> string) set" where
  "ar_keys d \<equiv> ar_key ` set (attempt_recipients d)"

lemmas key_defs = m_key_def r_key_def a_key_def ar_key_def

text \<open>An operation that changes no key and adds or removes no row of the four tables.\<close>

definition keeps_keys :: "db \<Rightarrow> db \<Rightarrow> bool" where
  "keeps_keys d d' \<longleftrightarrow> map m_key (messages d') = map m_key (messages d) \<and> map r_key (recipients d') = map r_key (recipients d)
     \<and> map a_key (attempts d') = map a_key (attempts d) \<and> map ar_key (attempt_recipients d') = map ar_key (attempt_recipients d)"

lemma keeps_keys_refl [simp]: "keeps_keys d d"
  by (simp add: keeps_keys_def)

lemma keeps_keys_trans: "keeps_keys a b \<Longrightarrow> keeps_keys b c \<Longrightarrow> keeps_keys a c"
  by (simp add: keeps_keys_def)

lemma keeps_keysI:
  assumes "messages d' = update_where pm fm (messages d)" "recipients d' = update_where pr fr (recipients d)"
    "attempts d' = update_where pa fa (attempts d)" "attempt_recipients d' = update_where pt ft (attempt_recipients d)"
    and "\<And>m. m_key (fm m) = m_key m" "\<And>r. r_key (fr r) = r_key r" "\<And>a. a_key (fa a) = a_key a" "\<And>ar. ar_key (ft ar) = ar_key ar"
  shows "keeps_keys d d'"
  using assms by (simp add: keeps_keys_def map_update_where)

definition inv_keys :: "db \<Rightarrow> bool" where
  "inv_keys d \<longleftrightarrow> distinct (map m_id (messages d)) \<and> distinct (map r_id (recipients d)) \<and> distinct (map a_id (attempts d))
     \<and> distinct (map (\<lambda>a. (a_message_id a, a_number a)) (attempts d))
     \<and> (\<forall>a \<in> set (attempts d). \<exists>m \<in> set (messages d). m_id m = a_message_id a \<and> a_number a \<le> m_attempt_count m)
     \<and> (\<forall>r \<in> set (recipients d). \<exists>m \<in> set (messages d). m_id m = r_message_id r)
     \<and> (\<forall>(aid, rid) \<in> ar_keys d. \<exists>a \<in> set (attempts d). \<exists>r \<in> set (recipients d). a_id a = aid \<and> r_id r = rid \<and> a_message_id a = r_message_id r)"

text \<open>The same in terms of the keys alone, so that an operation that keeps the keys keeps it.\<close>

definition keys_ok :: "(string \<times> int) list \<Rightarrow> (string \<times> string \<times> string) list \<Rightarrow> (string \<times> string \<times> int \<times> string \<times> string) list
    \<Rightarrow> (string \<times> string) list \<Rightarrow> bool" where
  "keys_ok ms rs as ars \<longleftrightarrow> distinct (map fst ms) \<and> distinct (map fst rs) \<and> distinct (map fst as)
     \<and> distinct (map (\<lambda>(_, mid, n, _). (mid, n)) as)
     \<and> (\<forall>(_, mid, n, _) \<in> set as. \<exists>(i, c) \<in> set ms. i = mid \<and> n \<le> c) \<and> (\<forall>(_, mid, _) \<in> set rs. \<exists>(i, _) \<in> set ms. i = mid)
     \<and> (\<forall>(aid, rid) \<in> set ars. \<exists>(i, am, _) \<in> set as. \<exists>(k, rm, _) \<in> set rs. i = aid \<and> k = rid \<and> am = rm)"

lemma inv_keys_iff:
  "inv_keys d \<longleftrightarrow> keys_ok (map m_key (messages d)) (map r_key (recipients d)) (map a_key (attempts d)) (map ar_key (attempt_recipients d))"
  by (simp add: inv_keys_def keys_ok_def key_defs comp_def split_beta)

lemma inv_keys_keep: "keeps_keys d d' \<Longrightarrow> inv_keys d \<Longrightarrow> inv_keys d'"
  by (simp add: inv_keys_iff keeps_keys_def)

lemma keeps_keys_ar_keys: "keeps_keys d d' \<Longrightarrow> ar_keys d' = ar_keys d"
  by (metis keeps_keys_def list.set_map)

lemma inv_keysD:
  assumes "inv_keys d"
  shows "m \<in> set (messages d) \<Longrightarrow> m' \<in> set (messages d) \<Longrightarrow> m_id m = m_id m' \<Longrightarrow> m = m'"
    and "r \<in> set (recipients d) \<Longrightarrow> r' \<in> set (recipients d) \<Longrightarrow> r_id r = r_id r' \<Longrightarrow> r = r'"
    and "a \<in> set (attempts d) \<Longrightarrow> a' \<in> set (attempts d) \<Longrightarrow> a_id a = a_id a' \<Longrightarrow> a = a'"
    and "a \<in> set (attempts d) \<Longrightarrow> m \<in> set (messages d) \<Longrightarrow> m_id m = a_message_id a \<Longrightarrow> a_number a \<le> m_attempt_count m"
    and "a \<in> set (attempts d) \<Longrightarrow> r \<in> set (recipients d) \<Longrightarrow> (a_id a, r_id r) \<in> ar_keys d \<Longrightarrow> a_message_id a = r_message_id r"
    and "a \<in> set (attempts d) \<Longrightarrow> \<exists>m \<in> set (messages d). m_id m = a_message_id a"
    and "r \<in> set (recipients d) \<Longrightarrow> \<exists>m \<in> set (messages d). m_id m = r_message_id r"
    and "a \<in> set (attempts d) \<Longrightarrow> a' \<in> set (attempts d) \<Longrightarrow> a_message_id a = a_message_id a' \<Longrightarrow> a_number a = a_number a' \<Longrightarrow> a = a'"
proof -
  have d: "inj_on m_id (set (messages d))" "inj_on r_id (set (recipients d))" "inj_on a_id (set (attempts d))"
    "inj_on (\<lambda>a. (a_message_id a, a_number a)) (set (attempts d))"
    using assms by (simp_all add: inv_keys_def distinct_map)
  show "a \<in> set (attempts d) \<Longrightarrow> a' \<in> set (attempts d) \<Longrightarrow> a_message_id a = a_message_id a' \<Longrightarrow> a_number a = a_number a' \<Longrightarrow> a = a'" for a a'
    using inj_onD [OF d(4), of a a'] by simp
  show 1: "m \<in> set (messages d) \<Longrightarrow> m' \<in> set (messages d) \<Longrightarrow> m_id m = m_id m' \<Longrightarrow> m = m'" for m m'
    using inj_onD [OF d(1)] by blast
  show 2: "r \<in> set (recipients d) \<Longrightarrow> r' \<in> set (recipients d) \<Longrightarrow> r_id r = r_id r' \<Longrightarrow> r = r'" for r r'
    using inj_onD [OF d(2)] by blast
  show 3: "a \<in> set (attempts d) \<Longrightarrow> a' \<in> set (attempts d) \<Longrightarrow> a_id a = a_id a' \<Longrightarrow> a = a'" for a a'
    using inj_onD [OF d(3)] by blast
  show 4: "a \<in> set (attempts d) \<Longrightarrow> \<exists>m \<in> set (messages d). m_id m = a_message_id a"
    using assms by (auto simp: inv_keys_def)
  show "a \<in> set (attempts d) \<Longrightarrow> m \<in> set (messages d) \<Longrightarrow> m_id m = a_message_id a \<Longrightarrow> a_number a \<le> m_attempt_count m"
    using assms 1 unfolding inv_keys_def by metis
  show "a \<in> set (attempts d) \<Longrightarrow> r \<in> set (recipients d) \<Longrightarrow> (a_id a, r_id r) \<in> ar_keys d \<Longrightarrow> a_message_id a = r_message_id r"
    using assms 2 3 unfolding inv_keys_def by fastforce
  show "r \<in> set (recipients d) \<Longrightarrow> \<exists>m \<in> set (messages d). m_id m = r_message_id r"
    using assms by (auto simp: inv_keys_def)
qed

subsection \<open>The invariant\<close>

text \<open>A message is being sent exactly while it is locked, and exactly while one attempt, its latest, is in progress.\<close>

definition inv_lease :: "db \<Rightarrow> bool" where
  "inv_lease d \<longleftrightarrow> (\<forall>m \<in> set (messages d).
     (m_status m = SENDING \<longleftrightarrow> m_locked_by m \<noteq> None)
     \<and> (m_locked_by m \<noteq> None \<longrightarrow> (\<exists>a \<in> set (attempts d). a_message_id a = m_id m \<and> a_result a = IN_PROGRESS))
     \<and> (\<forall>a \<in> set (attempts d). a_message_id a = m_id m \<and> a_result a = IN_PROGRESS \<longrightarrow>
          m_locked_by m = Some (a_claim_token a) \<and> a_number a = m_attempt_count m))"

definition inv_one :: "db \<Rightarrow> bool" where
  "inv_one d \<longleftrightarrow> (\<forall>a \<in> set (attempts d). \<forall>b \<in> set (attempts d).
     a_result a = IN_PROGRESS \<and> a_result b = IN_PROGRESS \<and> a_message_id a = a_message_id b \<longrightarrow> a_id a = a_id b)"

text \<open>The recipients of an attempt in progress are being sent, or were suppressed at its gate; nobody else is being sent.\<close>

definition sending_ok :: "db \<Rightarrow> rcpt \<Rightarrow> bool" where
  "sending_ok d r \<longleftrightarrow>
     (r_status r = SENDING \<longrightarrow> r_retry_started_at r \<noteq> None
        \<and> (\<exists>a \<in> set (attempts d). a_result a = IN_PROGRESS \<and> (a_id a, r_id r) \<in> ar_keys d))
     \<and> (\<forall>a \<in> set (attempts d). a_result a = IN_PROGRESS \<and> (a_id a, r_id r) \<in> ar_keys d \<longrightarrow>
          r_retry_started_at r \<noteq> None
          \<and> (r_status r = SENDING \<or> (r_status r = SUPPRESSED \<and> r_decision r \<noteq> None \<and> a_suppression_blocked_at a \<noteq> None)))
     \<and> (r_retry_at r \<noteq> None \<longrightarrow> r_status r = TEMP_FAILED \<and> r_retry_started_at r \<noteq> None)
     \<and> (r_retry_automatic r \<longrightarrow> r_retry_started_at r \<noteq> None)"

definition inv_rcpt :: "db \<Rightarrow> bool" where
  "inv_rcpt d \<longleftrightarrow> (\<forall>r \<in> set (recipients d). sending_ok d r)"

text \<open>At most one of: permission to send DATA, stopped by suppression, stopped by expiry. The rows of an attempt in progress are undecided.\<close>

definition inv_gate :: "db \<Rightarrow> bool" where
  "inv_gate d \<longleftrightarrow> (\<forall>a \<in> set (attempts d).
     (a_suppression_blocked_at a \<noteq> None \<longrightarrow> a_data_armed_at a = None) \<and> (a_expiry_blocked_at a \<noteq> None \<longrightarrow> a_data_armed_at a = None)
     \<and> (a_result a = IN_PROGRESS \<longrightarrow>
         (\<forall>ar \<in> set (attempt_recipients d). ar_attempt_id ar = a_id a \<longrightarrow> ar_status ar = SENDING \<and> ar_decision ar = None)))"

text \<open>
  The evidence of one attempt for one recipient leaves open that it was delivered; an operator took the risk of
  a duplicate for exactly this evidence.
\<close>

definition uncertain :: "attempt_rcpt \<Rightarrow> bool" where
  "uncertain ar \<longleftrightarrow> ar_status ar \<in> {SMTP_ACCEPTED, DELIVERY_UNKNOWN}
     \<or> (case ar_decision ar of None \<Rightarrow> False | Some j \<Rightarrow> json_is_bool j ''may_have_delivered'' True)"

definition acknowledged :: "db \<Rightarrow> string \<times> string \<Rightarrow> bool" where
  "acknowledged d k \<longleftrightarrow> (\<exists>e \<in> set (events d). e_type e = ''UNKNOWN_RESOLVED'' \<and> e_source e = ''operator''
     \<and> e_attempt_id e = Some (fst k) \<and> e_recipient_id e = Some (snd k)
     \<and> json_is_text (e_data e) ''action'' ''retry'' \<and> json_is_bool (e_data e) ''acknowledge_duplicate_risk'' True)"

definition settled :: "db \<Rightarrow> attempt_rcpt \<Rightarrow> bool" where
  "settled d ar \<longleftrightarrow> uncertain ar \<longrightarrow> acknowledged d (ar_key ar)"

definition claimable :: "rcpt \<Rightarrow> bool" where
  "claimable r \<longleftrightarrow> r_status r = QUEUED \<or> r_retry_at r \<noteq> None"

text \<open>The attempt of the row is not the latest one of its recipient.\<close>

definition superseded :: "db \<Rightarrow> attempt_rcpt \<Rightarrow> bool" where
  "superseded d ar \<longleftrightarrow> (\<exists>a \<in> set (attempts d). \<exists>b \<in> set (attempts d). a_id a = ar_attempt_id ar \<and> (a_id b, ar_recipient_id ar) \<in> ar_keys d
     \<and> a_number a < a_number b)"

definition inv_sure :: "db \<Rightarrow> bool" where
  "inv_sure d \<longleftrightarrow> (\<forall>ar \<in> set (attempt_recipients d).
     (superseded d ar \<longrightarrow> settled d ar) \<and> (\<forall>r \<in> set (recipients d). r_id r = ar_recipient_id ar \<and> claimable r \<longrightarrow> settled d ar))"

definition queue_inv :: "db \<Rightarrow> bool" where
  "queue_inv d \<longleftrightarrow> inv_keys d \<and> inv_lease d \<and> inv_one d \<and> inv_rcpt d \<and> inv_gate d \<and> inv_sure d"

lemma queue_invD:
  assumes "queue_inv d"
  shows "inv_keys d" "inv_lease d" "inv_one d" "inv_rcpt d" "inv_gate d" "inv_sure d"
  using assms by (simp_all add: queue_inv_def)

lemma keeps_acknowledged: "keeps_events d d' \<Longrightarrow> acknowledged d k \<Longrightarrow> acknowledged d' k"
  by (auto simp: keeps_events_def acknowledged_def)

lemma keeps_settled: "keeps_events d d' \<Longrightarrow> settled d ar \<Longrightarrow> settled d' ar"
  by (auto simp: settled_def intro: keeps_acknowledged)

subsection \<open>The projection\<close>

lemma projection_SENDING: "projection rs = SENDING \<Longrightarrow> \<exists>r \<in> set rs. r_status r = SENDING"
  by (auto simp: projection_def Let_def count_where_pos_iff split: if_split_asm)

lemma projection_QUEUED: "projection rs = QUEUED \<Longrightarrow> \<exists>r \<in> set rs. r_status r = QUEUED"
  by (auto simp: projection_def Let_def count_where_pos_iff split: if_split_asm)

lemma projection_UNKNOWN_iff: "projection rs = DELIVERY_UNKNOWN \<longleftrightarrow> (\<exists>r \<in> set rs. r_status r = DELIVERY_UNKNOWN)"
  by (auto simp: projection_def Let_def count_where_pos_iff split: if_split_asm)

lemma refresh_message_simps [simp]:
  "m_key (refresh_message E rs m) = m_key m" "m_id (refresh_message E rs m) = m_id m" "m_locked_by (refresh_message E rs m) = m_locked_by m"
  "m_status (refresh_message E rs m) = projection rs" "m_attempt_count (refresh_message E rs m) = m_attempt_count m"
  by (simp_all add: refresh_message_def m_key_def)

subsection \<open>Operations on a message without a lease\<close>

definition unlocked :: "db \<Rightarrow> string \<Rightarrow> bool" where
  "unlocked d mid \<longleftrightarrow> (\<forall>m \<in> set (messages d). m_id m = mid \<longrightarrow> m_locked_by m = None)"

lemma unlocked_no_active:
  assumes "queue_inv d" and "unlocked d mid" and "a \<in> set (attempts d)" and "a_message_id a = mid"
  shows "a_result a \<noteq> IN_PROGRESS"
proof
  assume "a_result a = IN_PROGRESS"
  obtain m where "m \<in> set (messages d)" "m_id m = mid" using inv_keysD(6) [OF queue_invD(1)] assms by metis
  then have "m_locked_by m \<noteq> None" "m_locked_by m = None"
    using queue_invD(2) [OF assms(1)] assms \<open>a_result a = IN_PROGRESS\<close> unfolding inv_lease_def unlocked_def by auto
  then show False by simp
qed

lemma unlocked_not_sending:
  assumes "queue_inv d" and "unlocked d mid" and "r \<in> set (recipients d)" and "r_message_id r = mid"
  shows "r_status r \<noteq> SENDING" and "a \<in> set (attempts d) \<Longrightarrow> (a_id a, r_id r) \<in> ar_keys d \<Longrightarrow> a_result a \<noteq> IN_PROGRESS"
proof -
  show 1: "a_result a \<noteq> IN_PROGRESS" if "a \<in> set (attempts d)" "(a_id a, r_id r) \<in> ar_keys d" for a
    using that inv_keysD(5) [OF queue_invD(1) [OF assms(1)] that(1) assms(3) that(2)] unlocked_no_active [OF assms(1,2)] assms(4) by simp
  show "r_status r \<noteq> SENDING"
    using queue_invD(4) [OF assms(1)] assms(3) 1 unfolding inv_rcpt_def sending_ok_def by blast
qed

text \<open>What must be shown of an operation that rewrites the recipients of one unlocked message and its status.\<close>

lemma unlocked_step:
  assumes inv: "queue_inv d" and un: "unlocked d mid"
    and att: "attempts d' = attempts d" and ars: "attempt_recipients d' = attempt_recipients d"
    and msg: "messages d' = update_where (\<lambda>m. m_id m = mid) u (messages d)" and rec: "recipients d' = map g (recipients d)"
    and ukey: "\<And>m. m_key (u m) = m_key m" "\<And>m. m_locked_by (u m) = m_locked_by m"
    and ust: "\<And>m. m \<in> set (messages d) \<Longrightarrow> m_id m = mid \<Longrightarrow> m_status (u m) \<noteq> SENDING"
    and gkey: "\<And>r. r_key (g r) = r_key r" and other: "\<And>r. r \<in> set (recipients d) \<Longrightarrow> r_message_id r \<noteq> mid \<Longrightarrow> g r = r"
    and own: "\<And>r. r \<in> set (recipients d) \<Longrightarrow> r_message_id r = mid \<Longrightarrow> r_status (g r) \<noteq> SENDING
        \<and> (r_retry_at (g r) \<noteq> None \<longrightarrow> r_status (g r) = TEMP_FAILED \<and> r_retry_started_at (g r) \<noteq> None)
        \<and> (r_retry_automatic (g r) \<longrightarrow> r_retry_started_at (g r) \<noteq> None)"
    and sure: "\<And>r ar. r \<in> set (recipients d) \<Longrightarrow> r_message_id r = mid \<Longrightarrow> claimable (g r) \<Longrightarrow> ar \<in> set (attempt_recipients d)
        \<Longrightarrow> ar_recipient_id ar = r_id r \<Longrightarrow> settled d' ar"
    and ev: "keeps_events d d'"
  shows "queue_inv d'" and "keeps_keys d d'" and "\<And>x. unlocked d x \<Longrightarrow> unlocked d' x"
proof -
  have gid: "r_id (g r) = r_id r" for r using gkey [of r] by (simp add: r_key_def)
  have uid: "m_id (u m) = m_id m" "m_attempt_count (u m) = m_attempt_count m" for m using ukey(1) [of m] by (simp_all add: m_key_def)
  show keys: "keeps_keys d d'"
    by (simp add: keeps_keys_def att ars msg rec gkey comp_def map_update_where ukey)
  show "unlocked d' x" if "unlocked d x" for x
    using that by (auto simp: unlocked_def msg set_update_where ukey uid)
  have ak: "ar_keys d' = ar_keys d" by (simp add: ars)
  have mem: "\<exists>m0 \<in> set (messages d). m_id m = m_id m0 \<and> m_locked_by m = m_locked_by m0 \<and> m_attempt_count m = m_attempt_count m0
      \<and> (m = m0 \<or> m_id m0 = mid \<and> m_status m \<noteq> SENDING)" if "m \<in> set (messages d')" for m
  proof -
    from that obtain m0 where "m0 \<in> set (messages d)" "m = (if m_id m0 = mid then u m0 else m0)"
      unfolding msg by (rule update_where_memE)
    with ust ukey uid show ?thesis by (intro bexI [of _ m0]) auto
  qed
  have "inv_lease d'" unfolding inv_lease_def att
  proof
    fix m assume "m \<in> set (messages d')"
    then obtain m0 where m0: "m0 \<in> set (messages d)" "m_id m = m_id m0" "m_locked_by m = m_locked_by m0"
      "m_attempt_count m = m_attempt_count m0" "m = m0 \<or> m_id m0 = mid \<and> m_status m \<noteq> SENDING" using mem by blast
    have *: "m_locked_by m0 = None" if "m_id m0 = mid" using un m0(1) that by (auto simp: unlocked_def)
    have l: "(m_status m0 = SENDING \<longleftrightarrow> m_locked_by m0 \<noteq> None)
      \<and> (m_locked_by m0 \<noteq> None \<longrightarrow> (\<exists>a \<in> set (attempts d). a_message_id a = m_id m0 \<and> a_result a = IN_PROGRESS))
      \<and> (\<forall>a \<in> set (attempts d). a_message_id a = m_id m0 \<and> a_result a = IN_PROGRESS \<longrightarrow>
          m_locked_by m0 = Some (a_claim_token a) \<and> a_number a = m_attempt_count m0)"
      using queue_invD(2) [OF inv] m0(1) unfolding inv_lease_def by blast
    then show "(m_status m = SENDING \<longleftrightarrow> m_locked_by m \<noteq> None)
      \<and> (m_locked_by m \<noteq> None \<longrightarrow> (\<exists>a \<in> set (attempts d). a_message_id a = m_id m \<and> a_result a = IN_PROGRESS))
      \<and> (\<forall>a \<in> set (attempts d). a_message_id a = m_id m \<and> a_result a = IN_PROGRESS \<longrightarrow>
          m_locked_by m = Some (a_claim_token a) \<and> a_number a = m_attempt_count m)"
      unfolding m0(2,3,4) using m0(5) * by auto
  qed
  moreover have "inv_rcpt d'" unfolding inv_rcpt_def rec
  proof clarsimp
    fix r assume r: "r \<in> set (recipients d)"
    have ok: "sending_ok d r" using queue_invD(4) [OF inv] r by (simp add: inv_rcpt_def)
    show "sending_ok d' (g r)"
    proof (cases "r_message_id r = mid")
      case True
      note u = unlocked_not_sending [OF inv un r True]
      show ?thesis using own [OF r True] u(2) unfolding sending_ok_def att ak gid by blast
    next
      case False
      with other [OF r] ok show ?thesis by (simp add: sending_ok_def att ak)
    qed
  qed
  moreover have "inv_sure d'" unfolding inv_sure_def ars rec
  proof (intro ballI conjI impI)
    fix ar assume ar: "ar \<in> set (attempt_recipients d)"
    show "settled d' ar" if "superseded d' ar"
      using that queue_invD(6) [OF inv] ar unfolding inv_sure_def superseded_def att ak by (blast intro: keeps_settled [OF ev])
    fix r' assume "r' \<in> set (map g (recipients d))" "r_id r' = ar_recipient_id ar \<and> claimable r'"
    then obtain r where r: "r \<in> set (recipients d)" "r' = g r" "r_id r = ar_recipient_id ar" "claimable (g r)" by (auto simp: gid)
    show "settled d' ar"
    proof (cases "r_message_id r = mid")
      case True
      with sure r ar show ?thesis by simp
    next
      case False
      with other r have "claimable r" by simp
      with queue_invD(6) [OF inv] ar r show ?thesis unfolding inv_sure_def by (blast intro: keeps_settled [OF ev])
    qed
  qed
  moreover have "inv_one d'" using queue_invD(3) [OF inv] unfolding inv_one_def att .
  moreover have "inv_gate d'" using queue_invD(5) [OF inv] unfolding inv_gate_def att ars .
  ultimately show "queue_inv d'" using inv_keys_keep [OF keys queue_invD(1) [OF inv]] by (simp add: queue_inv_def)
qed

end
