(* ===== verification/Queue_Unlocked.thy ===== *)
theory Queue_Unlocked
  imports Queue_Invariant
begin

text \<open>
  The operations on messages nobody holds keep the invariant and never rewrite a settled fact: the two sweeps, the scheduler and the
  resolution of uncertain deliveries.
\<close>

subsection \<open>Relations between the rows before and after\<close>

locale row_relation =
  fixes R :: "rcpt \<Rightarrow> rcpt \<Rightarrow> bool"
  assumes row_refl: "R r r" and row_trans: "R r s \<Longrightarrow> R s t \<Longrightarrow> R r t"
begin

lemma rows_refl: "list_all2 R rows rows"
  by (simp add: list_all2_refl row_refl)

lemma rows_trans: "list_all2 R xs ys \<Longrightarrow> list_all2 R ys zs \<Longrightarrow> list_all2 R xs zs"
  by (rule list_all2_trans [of R R R]) (auto intro: row_trans)

lemma rows_map: "(\<And>r. r \<in> set rows \<Longrightarrow> R r (g r)) \<Longrightarrow> list_all2 R rows (map g rows)"
  by (simp add: list.rel_map list.rel_refl_strong)

lemma rows_update: "(\<And>r. r \<in> set rows \<Longrightarrow> p r \<Longrightarrow> R r (f r)) \<Longrightarrow> list_all2 R rows (update_where p f rows)"
  unfolding update_where_def by (rule rows_map) (simp add: row_refl)

end

text \<open>
  Rows whose identity stays and whose settled facts stay: a final status, and the uncertainty of a delivery, are
  only changed by an operator.
\<close>

definition keeps_facts :: "rcpt \<Rightarrow> rcpt \<Rightarrow> bool" where
  "keeps_facts r r' \<longleftrightarrow> r_key r' = r_key r \<and> r_attempt_count r \<le> r_attempt_count r'
     \<and> (r_status r \<in> finished_statuses \<union> {DELIVERY_UNKNOWN} \<longrightarrow> r_status r' = r_status r)"

interpretation facts: row_relation keeps_facts
  by unfold_locales (auto simp: keeps_facts_def)

definition good_step :: "db \<Rightarrow> db \<Rightarrow> bool" where
  "good_step d d' \<longleftrightarrow> queue_inv d' \<and> keeps_keys d d' \<and> (\<forall>mid. unlocked d mid \<longrightarrow> unlocked d' mid) \<and> keeps_events d d'
     \<and> list_all2 keeps_facts (recipients d) (recipients d')"

lemma good_step_refl: "queue_inv d \<Longrightarrow> good_step d d"
  by (simp add: good_step_def facts.rows_refl)

lemma good_step_trans: "good_step a b \<Longrightarrow> good_step b c \<Longrightarrow> good_step a c"
  unfolding good_step_def by (blast intro: keeps_keys_trans keeps_events_trans facts.rows_trans)

lemma good_step_fold:
  assumes "queue_inv d" and "\<forall>mid \<in> set ids. unlocked d mid"
    and "\<And>mid d. queue_inv d \<Longrightarrow> unlocked d mid \<Longrightarrow> good_step d (h mid d)"
  shows "good_step d (fold h ids d)"
  using assms(1,2)
proof (induction ids arbitrary: d)
  case Nil
  then show ?case by (simp add: good_step_refl)
next
  case (Cons mid ids)
  then have step: "good_step d (h mid d)" using assms(3) by simp
  with Cons have "good_step (h mid d) (fold h ids (h mid d))" by (simp add: good_step_def)
  with step show ?case by (auto intro: good_step_trans)
qed

text \<open>The rows after the operation, where each row of an unlocked message is kept or becomes a row with a status of its own.\<close>

lemma unlocked_good:
  assumes inv: "queue_inv d" and un: "unlocked d mid"
    and att: "attempts d' = attempts d" and ars: "attempt_recipients d' = attempt_recipients d"
    and msg: "messages d' = update_where (\<lambda>m. m_id m = mid) u (messages d)"
    and rec: "recipients d' = map g (recipients d)" and ev: "keeps_events d d'"
    and ukey: "\<And>m. m_key (u m) = m_key m" "\<And>m. m_locked_by (u m) = m_locked_by m"
    and ust: "\<And>m. m \<in> set (messages d) \<Longrightarrow> m_id m = mid \<Longrightarrow> (\<forall>r \<in> set (recipients d'). r_message_id r = mid \<longrightarrow> r_status r \<noteq> SENDING) \<Longrightarrow> m_status (u m) \<noteq> SENDING"
    and gkey: "\<And>r. r_key (g r) = r_key r"
    and g: "\<And>r. r \<in> set (recipients d) \<Longrightarrow> g r = r \<or> r_message_id r = mid \<and> keeps_facts r (g r) \<and> r_retry_at (g r) = None
        \<and> r_status (g r) \<noteq> SENDING \<and> (r_retry_automatic (g r) \<longrightarrow> r_retry_started_at (g r) \<noteq> None)
        \<and> (r_status (g r) = QUEUED \<longrightarrow> claimable r)"
  shows "good_step d d'"
proof -
  have ok: "sending_ok d r" if "r \<in> set (recipients d)" for r using queue_invD(4) [OF inv] that by (simp add: inv_rcpt_def)
  have own: "r_status (g r) \<noteq> SENDING \<and> (r_retry_at (g r) \<noteq> None \<longrightarrow> r_status (g r) = TEMP_FAILED \<and> r_retry_started_at (g r) \<noteq> None)
      \<and> (r_retry_automatic (g r) \<longrightarrow> r_retry_started_at (g r) \<noteq> None)" if "r \<in> set (recipients d)" "r_message_id r = mid" for r
    using g [OF that(1)] ok [OF that(1)] unlocked_not_sending(1) [OF inv un that] unfolding sending_ok_def by auto
  have sure: "settled d' ar" if r: "r \<in> set (recipients d)" and c: "claimable (g r)" and ar: "ar \<in> set (attempt_recipients d)" "ar_recipient_id ar = r_id r" for r ar
  proof -
    have "claimable r" using g [OF r] c by (auto simp: claimable_def)
    with queue_invD(6) [OF inv] r ar show ?thesis unfolding inv_sure_def by (metis keeps_settled [OF ev])
  qed
  have gm: "r_message_id (g r) = r_message_id r" for r using gkey [of r] by (simp add: r_key_def)
  have none: "\<forall>r \<in> set (recipients d'). r_message_id r = mid \<longrightarrow> r_status r \<noteq> SENDING" unfolding rec using own gm by auto
  note step = unlocked_step [OF inv un att ars msg rec]
  have "queue_inv d'" "keeps_keys d d'" "\<And>x. unlocked d x \<Longrightarrow> unlocked d' x"
    by (rule step; (use g ust [OF _ _ none] ukey own sure gkey ev in \<open>auto\<close>))+
  moreover have "list_all2 keeps_facts (recipients d) (recipients d')"
    unfolding rec using g by (intro facts.rows_map) (metis facts.row_refl)
  ultimately show ?thesis using ev by (simp add: good_step_def)
qed

text \<open>The usual case: the message takes the status its recipients give it.\<close>

lemma unlocked_good_step:
  assumes inv: "queue_inv d" and un: "unlocked d mid"
    and att: "attempts d' = attempts d" and ars: "attempt_recipients d' = attempt_recipients d"
    and msg: "messages d' = update_where (\<lambda>m. m_id m = mid) (refresh_message E (recipients_of d' mid)) (messages d)"
    and rec: "recipients d' = map g (recipients d)" and ev: "keeps_events d d'"
    and gkey: "\<And>r. r_key (g r) = r_key r"
    and g: "\<And>r. r \<in> set (recipients d) \<Longrightarrow> g r = r \<or> r_message_id r = mid \<and> keeps_facts r (g r) \<and> r_retry_at (g r) = None
        \<and> r_status (g r) \<noteq> SENDING \<and> (r_retry_automatic (g r) \<longrightarrow> r_retry_started_at (g r) \<noteq> None)
        \<and> (r_status (g r) = QUEUED \<longrightarrow> claimable r)"
  shows "good_step d d'"
proof (rule unlocked_good [OF inv un att ars msg rec ev _ _ _ gkey g])
  fix m assume "\<forall>r \<in> set (recipients d'). r_message_id r = mid \<longrightarrow> r_status r \<noteq> SENDING"
  then have "projection (recipients_of d' mid) \<noteq> SENDING" using projection_SENDING by (force simp: recipients_of_def)
  then show "m_status (refresh_message E (recipients_of d' mid) m) \<noteq> SENDING" by simp
qed simp_all

subsection \<open>The sweeps\<close>

lemma expire_recipient_simps [simp]:
  "r_key (expire_recipient t d r) = r_key r" "r_status (expire_recipient t d r) = EXPIRED" "r_retry_at (expire_recipient t d r) = None"
  "r_retry_automatic (expire_recipient t d r) = False" "r_attempt_count (expire_recipient t d r) = r_attempt_count r"
  "r_id (expire_recipient t d r) = r_id r" "r_message_id (expire_recipient t d r) = r_message_id r"
  "r_retry_started_at (expire_recipient t d r) = r_retry_started_at r"
  by (simp_all add: expire_recipient_def r_key_def)

lemma expire_step:
  assumes "queue_inv d" and "unlocked d (j_ID j)"
  shows "good_step d (refresh E (j_ID j) (applyExpiry E j d))"
proof (rule unlocked_good_step [OF assms])
  let ?g = "\<lambda>r. if expires_now (clk E 30) (j_ID j) d r then expire_recipient (clk E 30) d r else r"
  show "recipients (refresh E (j_ID j) (applyExpiry E j d)) = map ?g (recipients d)" by (simp add: update_where_def)
  show "r_key (?g r) = r_key r" for r by simp
  show "?g r = r \<or> r_message_id r = j_ID j \<and> keeps_facts r (?g r) \<and> r_retry_at (?g r) = None \<and> r_status (?g r) \<noteq> SENDING
      \<and> (r_retry_automatic (?g r) \<longrightarrow> r_retry_started_at (?g r) \<noteq> None) \<and> (r_status (?g r) = QUEUED \<longrightarrow> claimable r)" for r
    by (auto simp: expires_now_def keeps_facts_def finished_statuses_def)
qed (auto simp: recipients_of_def intro: keeps_events_applyExpiry)

lemma SweepExpired_good:
  assumes "queue_inv d" and "SweepExpired E d = Inr (u, d')"
  shows "good_step d d'"
proof -
  let ?p = "\<lambda>m. m_locked_by m = None \<and> m_status m \<in> {QUEUED, TEMP_FAILED, PARTIAL_ACCEPTED, DELIVERY_UNKNOWN}
     \<and> null_le (m_expires_at m) (clk E 0) \<and> \<not> locked_messages E (m_id m)
     \<and> (\<exists>r \<in> set (recipients d). r_message_id r = m_id m \<and> r_status r \<in> {QUEUED, TEMP_FAILED})"
  let ?ids = "map m_id (order_limit (\<lambda>m. (coalesce (m_expires_at m) 0, m_id m)) 20 ?p (messages d))"
  have un: "\<forall>mid \<in> set ?ids. unlocked d mid"
    by (auto simp: unlocked_def dest!: order_limit_mem dest: inv_keysD(1) [OF queue_invD(1) [OF assms(1)]])
  have one: "good_step d (refresh E mid (applyExpiry E (bare_job mid [] []) d))" if "queue_inv d" "unlocked d mid" for d mid
    using expire_step [of d "bare_job mid [] []"] that by (simp add: bare_job_def)
  have "good_step d (fold (\<lambda>mid d. refresh E mid (applyExpiry E (bare_job mid [] []) d)) ?ids d)"
    by (rule good_step_fold [OF assms(1) un]) (rule one)
  then show ?thesis using assms(2) unfolding SweepExpired_def Let_def by simp
qed

lemma suppress_step:
  assumes inv: "queue_inv d" and un: "unlocked d mid"
  shows "good_step d (refresh E mid (snd (Apply E mid attempt False d)))"
proof (rule unlocked_good_step [OF assms])
  let ?hits = "apply_hits (clk E 20) mid False d"
  let ?g = "apply_rows (clk E 21) ?hits"
  show "recipients (refresh E mid (snd (Apply E mid attempt False d))) = map ?g (recipients d)" by simp
  have supp: "r_key (suppress_recipient t sid r) = r_key r" "r_retry_automatic (suppress_recipient t sid r) = False" for t sid r
    by (simp_all add: suppress_recipient_def r_key_def)
  show "r_key (?g r) = r_key r" for r using apply_rows_cases [of "clk E 21" ?hits r] supp by auto
  fix r assume r: "r \<in> set (recipients d)"
  show "?g r = r \<or> r_message_id r = mid \<and> keeps_facts r (?g r) \<and> r_retry_at (?g r) = None \<and> r_status (?g r) \<noteq> SENDING
      \<and> (r_retry_automatic (?g r) \<longrightarrow> r_retry_started_at (?g r) \<noteq> None) \<and> (r_status (?g r) = QUEUED \<longrightarrow> claimable r)"
  proof (cases "r_id r \<in> fst ` set ?hits")
    case True
    then obtain sid where sid: "?g r = suppress_recipient (clk E 21) sid r" using apply_rows_cases [of "clk E 21" ?hits r] by blast
    from True obtain r' where r': "r' \<in> set (recipients d)" "r_id r' = r_id r" "r_message_id r' = mid" "r_status r' \<in> set (apply_states False)"
      by (auto dest!: apply_hits_mem)
    then have "r' = r" using inv_keysD(2) [OF queue_invD(1) [OF inv]] r by blast
    with r' sid supp show ?thesis by (auto simp: keeps_facts_def finished_statuses_def apply_states_def)
  next
    case False
    then show ?thesis using apply_rows_cases [of "clk E 21" ?hits r] by blast
  qed
qed (auto simp: recipients_of_def intro: keeps_events_Apply)

lemma SweepSuppressed_good:
  assumes "queue_inv d" and "SweepSuppressed E d = Inr (u, d')"
  shows "good_step d d'"
proof -
  let ?p = "\<lambda>m. m_locked_by m = None \<and> \<not> locked_messages E (m_id m)
     \<and> (\<exists>r \<in> set (recipients d). r_message_id r = m_id m \<and> r_status r \<in> {QUEUED, TEMP_FAILED} \<and> suppressed_address (clk E 0) d (r_address r))"
  let ?ids = "map m_id (order_limit (\<lambda>m. (m_created_at m, m_id m)) 20 ?p (messages d))"
  have un: "\<forall>mid \<in> set ?ids. unlocked d mid"
    by (auto simp: unlocked_def dest!: order_limit_mem dest: inv_keysD(1) [OF queue_invD(1) [OF assms(1)]])
  have "good_step d (fold (\<lambda>mid d. refresh E mid (snd (Apply E mid [] False d))) ?ids d)"
    by (rule good_step_fold [OF assms(1) un]) (rule suppress_step)
  then show ?thesis using assms(2) unfolding SweepSuppressed_def Let_def by simp
qed

subsection \<open>The scheduler\<close>

text \<open>What the loop over the candidates does to one row.\<close>

definition schedule_row :: "repo \<Rightarrow> env \<Rightarrow> string \<times> int \<times> time \<Rightarrow> rcpt \<Rightarrow> rcpt" where
  "schedule_row R E c r =
     (if r_id r \<noteq> fst c then r
      else if fst (snd c) \<ge> MaxAttempts \<or> \<not> host E < snd (snd c) + Window then exhaust_recipient ''RETRY_BUDGET_EXHAUSTED'' r
      else if RetryEnabled R then requeue_recipient r else r)"

lemma schedule_rcpt_tables:
  "recipients (schedule_rcpt R E mid c d) = map (schedule_row R E c) (recipients d)" "messages (schedule_rcpt R E mid c d) = messages d"
  "attempts (schedule_rcpt R E mid c d) = attempts d" "attempt_recipients (schedule_rcpt R E mid c d) = attempt_recipients d"
  "keeps_events d (schedule_rcpt R E mid c d)"
  by (auto simp: schedule_rcpt_def schedule_row_def split_beta update_where_def map_idI)

lemma schedule_fold_tables:
  "recipients (fold (schedule_rcpt R E mid) cs d) = map (fold (schedule_row R E) cs) (recipients d)"
  "messages (fold (schedule_rcpt R E mid) cs d) = messages d" "attempts (fold (schedule_rcpt R E mid) cs d) = attempts d"
  "attempt_recipients (fold (schedule_rcpt R E mid) cs d) = attempt_recipients d"
  by (induction cs arbitrary: d) (auto simp: schedule_rcpt_tables comp_def)

lemma keeps_events_schedule: "keeps_events d (fold (schedule_rcpt R E mid) cs d)"
  by (rule keeps_events_fold) (rule schedule_rcpt_tables)

lemma schedule_row_simps [simp]:
  "r_key (schedule_row R E c r) = r_key r" "r_id (schedule_row R E c r) = r_id r" "r_attempt_count (schedule_row R E c r) = r_attempt_count r"
  "r_retry_started_at (schedule_row R E c r) = r_retry_started_at r"
  by (simp_all add: schedule_row_def exhaust_recipient_def requeue_recipient_def r_key_def)

lemma schedule_rows_cases:
  "fold (schedule_row R E) cs r = r
   \<or> r_id r \<in> fst ` set cs \<and> r_key (fold (schedule_row R E) cs r) = r_key r \<and> r_status (fold (schedule_row R E) cs r) \<in> {QUEUED, TEMP_FAILED}
     \<and> r_retry_at (fold (schedule_row R E) cs r) = None \<and> r_attempt_count (fold (schedule_row R E) cs r) = r_attempt_count r
     \<and> r_retry_started_at (fold (schedule_row R E) cs r) = r_retry_started_at r"
proof (induction cs arbitrary: r)
  case Nil
  show ?case by simp
next
  case (Cons c cs)
  have "schedule_row R E c r = r \<or> r_id r = fst c \<and> r_status (schedule_row R E c r) \<in> {QUEUED, TEMP_FAILED} \<and> r_retry_at (schedule_row R E c r) = None"
    by (simp add: schedule_row_def exhaust_recipient_def requeue_recipient_def)
  with Cons [of "schedule_row R E c r"] show ?case by auto
qed

lemma retry_due_claimable:
  assumes "sending_ok d r" and "retry_due E r"
  shows "claimable r \<and> r_status r \<in> {QUEUED, TEMP_FAILED} \<and> r_retry_started_at r \<noteq> None"
  using assms by (cases "r_retry_at r") (auto simp: retry_due_def sending_ok_def claimable_def)

text \<open>The candidates of a message and their rows before the deadline was applied.\<close>

lemma schedule_candidates_mem:
  assumes "r \<in> set (schedule_candidates E mid (applyExpiry E j d))" and "queue_inv d"
  shows "r \<in> set (recipients d) \<and> r_message_id r = mid \<and> claimable r \<and> r_status r \<in> {QUEUED, TEMP_FAILED} \<and> r_retry_started_at r \<noteq> None"
proof -
  from assms(1) obtain r0 where r0: "r0 \<in> set (recipients d)" "r = (if expires_now (clk E 30) (j_ID j) d r0 then expire_recipient (clk E 30) d r0 else r0)"
    and due: "r_message_id r = mid" "retry_due E r" by (auto simp: schedule_candidates_def)
  have "\<not> retry_due E (expire_recipient (clk E 30) d r0)" by (simp add: retry_due_def)
  with r0 due have "r = r0" by (auto split: if_split_asm)
  with r0 due retry_due_claimable queue_invD(4) [OF assms(2)] show ?thesis by (auto simp: inv_rcpt_def)
qed

lemma schedule_message_good:
  assumes inv: "queue_inv d" and un: "unlocked d mid"
  obtains d' where "schedule_message R E mid d = Inr d'" and "good_step d d'"
proof -
  let ?j = "bare_job mid [] []"
  let ?d1 = "applyExpiry E ?j d"
  let ?cs = "map (\<lambda>r. (r_id r, r_attempt_count r, coalesce (r_retry_started_at r) 0)) (schedule_candidates E mid ?d1)"
  let ?d' = "refresh E mid (fold (schedule_rcpt R E mid) ?cs ?d1)"
  let ?e = "\<lambda>r. if expires_now (clk E 30) mid d r then expire_recipient (clk E 30) d r else r"
  let ?g = "\<lambda>r. fold (schedule_row R E) ?cs (?e r)"
  have jid: "j_ID ?j = mid" by (simp add: bare_job_def)
  note cand = schedule_candidates_mem [OF _ inv, of _ E mid ?j]
  have "schedule_message R E mid d = Inr ?d'" using cand by (fastforce simp: schedule_message_def Let_def)
  moreover have "good_step d ?d'"
  proof (rule unlocked_good_step [OF inv un])
    show "recipients ?d' = map ?g (recipients d)" by (simp add: schedule_fold_tables jid update_where_def comp_def)
    show "r_key (?g r) = r_key r" for r using schedule_rows_cases [of R E ?cs "?e r"] by auto
    show "keeps_events d ?d'" using keeps_events_trans [OF keeps_events_applyExpiry keeps_events_schedule] by auto
    fix r assume r: "r \<in> set (recipients d)"
    show "?g r = r \<or> r_message_id r = mid \<and> keeps_facts r (?g r) \<and> r_retry_at (?g r) = None \<and> r_status (?g r) \<noteq> SENDING
      \<and> (r_retry_automatic (?g r) \<longrightarrow> r_retry_started_at (?g r) \<noteq> None) \<and> (r_status (?g r) = QUEUED \<longrightarrow> claimable r)"
    proof (cases "r_id r \<in> fst ` set ?cs")
      case True
      then obtain c where c: "c \<in> set (schedule_candidates E mid ?d1)" "r_id c = r_id r" by auto
      then have "c = r" using cand [OF c(1)] inv_keysD(2) [OF queue_invD(1) [OF inv]] r by blast
      with cand [OF c(1)] have r1: "r_message_id r = mid" "claimable r" "r_status r \<in> {QUEUED, TEMP_FAILED}" "r_retry_started_at r \<noteq> None" by auto
      define x where "x = ?e r"
      have x: "r_key x = r_key r" "r_attempt_count x = r_attempt_count r" "r_retry_started_at x = r_retry_started_at r"
        "x = r \<or> r_status x = EXPIRED \<and> r_retry_at x = None" by (simp_all add: x_def)
      define y where "y = fold (schedule_row R E) ?cs x"
      have "y = r \<or> r_message_id r = mid \<and> keeps_facts r y \<and> r_retry_at y = None \<and> r_status y \<noteq> SENDING
          \<and> (r_retry_automatic y \<longrightarrow> r_retry_started_at y \<noteq> None) \<and> (r_status y = QUEUED \<longrightarrow> claimable r)"
        using schedule_rows_cases [of R E ?cs x] x r1 unfolding y_def [symmetric] by (auto simp: keeps_facts_def finished_statuses_def)
      then show ?thesis unfolding y_def x_def .
    next
      case False
      have "r_id (?e r) = r_id r" by simp
      with False have "r_id (?e r) \<notin> fst ` set ?cs" by metis
      with schedule_rows_cases [of R E ?cs "?e r"] have "?g r = ?e r" by blast
      then show ?thesis by (auto simp: expires_now_def keeps_facts_def finished_statuses_def)
    qed
  qed (auto simp: schedule_fold_tables recipients_of_def)
  ultimately show thesis by (rule that)
qed

text \<open>The scheduler never fails: every candidate has a start, and no candidate holds a settled fact.\<close>

lemma schedule_tx_good:
  assumes "queue_inv d"
  obtains d' where "schedule_tx R E d = Inr ((), d')" and "good_step d d'"
proof -
  have "\<exists>d'. fold_res (schedule_message R E) ids d = Inr d' \<and> good_step d d'" if "queue_inv d" "\<forall>mid \<in> set ids. unlocked d mid" for ids d
    using that
  proof (induction ids arbitrary: d)
    case Nil
    then show ?case by (simp add: good_step_refl)
  next
    case (Cons mid ids)
    then obtain d1 where d1: "schedule_message R E mid d = Inr d1" "good_step d d1" by (metis list.set_intros(1) schedule_message_good)
    with Cons have "queue_inv d1" "\<forall>mid \<in> set ids. unlocked d1 mid" by (auto simp: good_step_def)
    from Cons.IH [OF this] obtain d' where "fold_res (schedule_message R E) ids d1 = Inr d'" "good_step d1 d'" by blast
    with d1 show ?case by (auto intro: good_step_trans)
  qed
  moreover have "\<forall>mid \<in> set (schedule_ids E d). unlocked d mid"
    by (auto simp: unlocked_def schedule_ids_def dest!: order_limit_mem dest: inv_keysD(1) [OF queue_invD(1) [OF assms]])
  ultimately obtain d' where "fold_res (schedule_message R E) (schedule_ids E d) d = Inr d'" "good_step d d'" using assms by blast
  then show thesis by (intro that) (simp_all add: schedule_tx_def)
qed

subsection \<open>Resolution by an operator\<close>

lemma latest_attempt_head:
  assumes "latest_attempt d rid = (ar, a) # rest"
  shows "ar \<in> set (attempt_recipients d)" "a \<in> set (attempts d)" "ar_recipient_id ar = rid" "ar_attempt_id ar = a_id a"
    and "\<And>b. b \<in> set (attempts d) \<Longrightarrow> (a_id b, rid) \<in> ar_keys d \<Longrightarrow> a_number b \<le> a_number a"
proof -
  have "(ar, a) \<in> set (latest_attempt d rid)" using assms by simp
  from order_limit_mem [OF this [unfolded latest_attempt_def]]
  show "ar \<in> set (attempt_recipients d)" "a \<in> set (attempts d)" "ar_recipient_id ar = rid" "ar_attempt_id ar = a_id a" by auto
  fix b assume b: "b \<in> set (attempts d)" "(a_id b, rid) \<in> ar_keys d"
  then obtain x where "x \<in> set (attempt_recipients d)" "ar_attempt_id x = a_id b" "ar_recipient_id x = rid" by (auto simp: ar_key_def)
  with b order_limit_least [OF assms [unfolded latest_attempt_def], of "(x, b)"] show "a_number b \<le> a_number a" by simp
qed

text \<open>What a resolution that commits has found and written.\<close>

lemma ResolveUnknown_Inr:
  assumes "ResolveUnknown E v d = Inr (i, d')"
  obtains st r m ar a rest where "resolve_valid E v = Inr st" "r \<in> set (recipients d)" "r_id r = rs_RecipientID v"
    "m \<in> set (messages d)" "m_id m = r_message_id r" "m_locked_by m = None"
    "latest_attempt d (rs_RecipientID v) = (ar, a) # rest" "r_status r = DELIVERY_UNKNOWN" "ar_status ar = DELIVERY_UNKNOWN"
    "a_id a = rs_ExpectedAttempt v" "resolve_write E v st m a d = Inr (i, d')"
proof -
  from assms obtain st r m a where 1: "resolve_valid E v = Inr st" "query_row (\<lambda>r. r_id r = rs_RecipientID v) (recipients d) = Inr r"
    "query_row (\<lambda>m. m_id m = r_message_id r) (messages d) = Inr m" "resolve_checks E v r m d = Inr a" "resolve_write E v st m a d = Inr (i, d')"
    unfolding ResolveUnknown_def bind_res_Inr_iff by blast
  from 1(4) have locked: "m_locked_by m = None" by (simp add: resolve_checks_def bind_res_Inr_iff)
  with 1(4) obtain ar rest where 2: "latest_attempt d (rs_RecipientID v) = (ar, a) # rest"
    "r_status r = DELIVERY_UNKNOWN" "ar_status ar = DELIVERY_UNKNOWN" "a_id a = rs_ExpectedAttempt v"
    by (simp add: resolve_checks_def split: list.split_asm prod.split_asm) (auto simp: bind_res_Inr_iff)
  from query_row_Inr [OF 1(2)] query_row_Inr [OF 1(3)] that 1 2 locked show thesis by blast
qed

lemma resolved_recipient_simps [simp]:
  "r_key (resolved_recipient E v st r) = r_key r" "r_status (resolved_recipient E v st r) = st" "r_retry_at (resolved_recipient E v st r) = None"
  "r_retry_automatic (resolved_recipient E v st r) = False" "r_attempt_count (resolved_recipient E v st r) = r_attempt_count r"
  "r_id (resolved_recipient E v st r) = r_id r" "r_message_id (resolved_recipient E v st r) = r_message_id r"
  by (simp_all add: resolved_recipient_def r_key_def)

lemma resolution_status_cases:
  assumes "resolve_valid E v = Inr st"
  shows "st = QUEUED \<and> rs_Action v = ''retry'' \<and> rs_AcknowledgeDuplicate v \<or> st = DELIVERED \<and> rs_Action v = ''mark-delivered''
    \<or> st = PERM_FAILED \<and> rs_Action v = ''mark-failed''"
  using assms by (auto simp: resolve_valid_def bind_res_Inr_iff resolution_status_def split: if_split_asm)

lemma resolve_write_tables:
  assumes "resolve_write E v st m a d = Inr (i, d')"
  shows "recipients d' = map (\<lambda>r. if r_id r = rs_RecipientID v then resolved_recipient E v st r else r) (recipients d)"
    and "attempts d' = attempts d" and "attempt_recipients d' = attempt_recipients d" and "keeps_events d d'"
    and "rs_Action v = ''retry'' \<Longrightarrow> rs_AcknowledgeDuplicate v \<Longrightarrow> acknowledged d' (a_id a, rs_RecipientID v)"
    and "\<exists>u. messages d' = update_where (\<lambda>x. m_id x = m_id m) u (messages d)
          \<and> (\<forall>x. m_key (u x) = m_key x \<and> m_locked_by (u x) = m_locked_by x \<and> m_status (u x) = projection (recipients_of d' (m_id m)))"
proof -
  let ?rs = "map (\<lambda>r. if r_id r = rs_RecipientID v then resolved_recipient E v st r else r) (recipients d)"
  let ?route = "\<lambda>x. if rs_Action v = ''retry'' then x\<lparr>m_route_provider_id := Some (a_provider_id a)\<rparr> else x"
  show rec: "recipients d' = ?rs" "attempts d' = attempts d" "attempt_recipients d' = attempt_recipients d"
    using assms by (auto simp: resolve_write_def bind_res_Inr_iff Let_def append_audit_def update_where_def)
  have ev: "events d' = events d @ [\<lparr>e_message_id = m_id m, e_attempt_id = Some (a_id a), e_recipient_id = Some (rs_RecipientID v),
      e_type = ''UNKNOWN_RESOLVED'', e_time = now E, e_source = ''operator'', e_data = resolution_json v, e_sequence = None\<rparr>]"
    using assms by (auto simp: resolve_write_def bind_res_Inr_iff Let_def append_audit_def)
  show "keeps_events d d'" by (auto simp: keeps_events_def ev)
  show "acknowledged d' (a_id a, rs_RecipientID v)" if "rs_Action v = ''retry''" "rs_AcknowledgeDuplicate v"
    using that by (auto simp: acknowledged_def ev resolution_json_def json_is_text_def json_is_bool_def)
  have "messages d' = update_where (\<lambda>x. m_id x = m_id m) (\<lambda>x. refresh_message E (recipients_of d' (m_id m)) (?route x)) (messages d)"
    using assms by (auto simp: resolve_write_def bind_res_Inr_iff Let_def append_audit_def update_where_def recipients_of_def comp_def)
  then show "\<exists>u. messages d' = update_where (\<lambda>x. m_id x = m_id m) u (messages d)
          \<and> (\<forall>x. m_key (u x) = m_key x \<and> m_locked_by (u x) = m_locked_by x \<and> m_status (u x) = projection (recipients_of d' (m_id m)))"
    by (rule exI [of _ "\<lambda>x. refresh_message E (recipients_of d' (m_id m)) (?route x)", OF conjI]) (simp add: m_key_def)
qed

lemma ResolveUnknown_inv:
  assumes inv: "queue_inv d" and res: "ResolveUnknown E v d = Inr (i, d')"
  shows "queue_inv d'" and "keeps_keys d d'" and "keeps_events d d'"
proof -
  obtain st r m ar a rest where 1: "resolve_valid E v = Inr st" "r \<in> set (recipients d)" "r_id r = rs_RecipientID v"
    "m \<in> set (messages d)" "m_id m = r_message_id r" "m_locked_by m = None"
    "latest_attempt d (rs_RecipientID v) = (ar, a) # rest" "a_id a = rs_ExpectedAttempt v" and w: "resolve_write E v st m a d = Inr (i, d')"
    using ResolveUnknown_Inr [OF res] by metis
  note t = resolve_write_tables [OF w] and keys = queue_invD(1) [OF inv] and la = latest_attempt_head [OF 1(7)]
  let ?g = "\<lambda>r. if r_id r = rs_RecipientID v then resolved_recipient E v st r else r"
  obtain u where u: "messages d' = update_where (\<lambda>x. m_id x = m_id m) u (messages d)" "\<And>x. m_key (u x) = m_key x"
    "\<And>x. m_locked_by (u x) = m_locked_by x" "\<And>x. m_status (u x) = projection (recipients_of d' (m_id m))" using t(6) by blast
  have un: "unlocked d (m_id m)" unfolding unlocked_def using 1(4,6) inv_keysD(1) [OF keys] by metis
  have mine: "x = r" if "x \<in> set (recipients d)" "r_id x = rs_RecipientID v" for x using that 1 inv_keysD(2) [OF keys] by metis
  have st: "st \<noteq> SENDING" using resolution_status_cases [OF 1(1)] by auto
  have own: "r_status (?g x) \<noteq> SENDING" if "x \<in> set (recipients d)" "r_message_id x = m_id m" for x
    using unlocked_not_sending(1) [OF inv un that] st by simp
  have ns: "projection (recipients_of d' (m_id m)) \<noteq> SENDING"
  proof
    assume "projection (recipients_of d' (m_id m)) = SENDING"
    from projection_SENDING [OF this] obtain x where "x \<in> set (recipients d)" "r_message_id (?g x) = m_id m" "r_status (?g x) = SENDING"
      by (auto simp: recipients_of_def t(1))
    with own show False by (metis resolved_recipient_simps(7))
  qed
  have ok: "sending_ok d x" if "x \<in> set (recipients d)" for x using queue_invD(4) [OF inv] that by (simp add: inv_rcpt_def)
  have sure: "settled d' y" if x: "x \<in> set (recipients d)" "claimable (?g x)" and y: "y \<in> set (attempt_recipients d)" "ar_recipient_id y = r_id x" for x y
  proof (cases "superseded d y \<or> claimable x")
    case True
    then show ?thesis using queue_invD(6) [OF inv] x y unfolding inv_sure_def by (metis keeps_settled [OF t(4)])
  next
    case False
    with x mine have xr: "x = r" and q: "st = QUEUED" using 1(3) by (auto simp: claimable_def split: if_split_asm)
    have "(ar_attempt_id y, r_id r) \<in> ar_keys d" using y xr by (force simp: ar_key_def)
    then obtain b where b: "b \<in> set (attempts d)" "a_id b = ar_attempt_id y" "a_message_id b = r_message_id r"
      using keys 1(2) inv_keysD(2) [OF keys] unfolding inv_keys_def by fastforce
    have am: "a_message_id a = r_message_id r" using inv_keysD(5) [OF keys la(2) 1(2)] la(1,3,4) 1(3) by (force simp: ar_key_def)
    have "a_number b \<le> a_number a" using la(5) b y xr 1(3) by (force simp: ar_key_def)
    moreover have "\<not> a_number b < a_number a" using False b la(1-4) y xr 1(3) by (force simp: superseded_def ar_key_def)
    ultimately have "b = a" using inv_keysD(8) [OF keys b(1) la(2)] b am by simp
    then have "ar_key y = (a_id a, rs_RecipientID v)" using b y xr 1(3) by (simp add: ar_key_def)
    with t(5) resolution_status_cases [OF 1(1)] q show ?thesis by (auto simp: settled_def)
  qed
  note step = unlocked_step [OF inv un t(2,3) u(1) t(1)]
  have other: "?g x = x" if "x \<in> set (recipients d)" "r_message_id x \<noteq> m_id m" for x using mine [OF that(1)] that(2) 1 by auto
  have mine: "r_status (?g x) \<noteq> SENDING \<and> (r_retry_at (?g x) \<noteq> None \<longrightarrow> r_status (?g x) = TEMP_FAILED \<and> r_retry_started_at (?g x) \<noteq> None)
      \<and> (r_retry_automatic (?g x) \<longrightarrow> r_retry_started_at (?g x) \<noteq> None)" if "x \<in> set (recipients d)" "r_message_id x = m_id m" for x
    using own [OF that] ok [OF that(1)] by (auto simp: sending_ok_def)
  have gkey: "r_key (?g x) = r_key x" for x by simp
  show "queue_inv d'" by (rule step(1) [OF u(2,3) _ gkey other mine sure t(4)]) (use u(4) ns in auto)
  show "keeps_keys d d'" by (rule step(2) [OF u(2,3) _ gkey other mine sure t(4)]) (use u(4) ns in auto)
  show "keeps_events d d'" by (rule t(4))
qed

end
