(* ===== verification/Queue_Leased.thy ===== *)
theory Queue_Leased
  imports Queue_Unlocked
begin

text \<open>
  The operations of a lease holder keep the invariant: the permission to send DATA, the record of events, and the end
  of an attempt, by its worker or by recovery.
\<close>

subsection \<open>The attempt in progress\<close>

lemma active_latest:
  assumes inv: "queue_inv d" and a: "a \<in> set (attempts d)" "a_result a = IN_PROGRESS" and b: "b \<in> set (attempts d)" "a_message_id b = a_message_id a"
  shows "a_number b \<le> a_number a"
proof -
  obtain m where m: "m \<in> set (messages d)" "m_id m = a_message_id a" using inv_keysD(6) [OF queue_invD(1) [OF inv] a(1)] by blast
  have "a_number a = m_attempt_count m" using queue_invD(2) [OF inv] m a unfolding inv_lease_def by metis
  moreover have "a_number b \<le> m_attempt_count m" using inv_keysD(4) [OF queue_invD(1) [OF inv] b(1) m(1)] m b by simp
  ultimately show ?thesis by simp
qed

lemma active_unique:
  assumes "queue_inv d" and "a \<in> set (attempts d)" "a_result a = IN_PROGRESS" and "b \<in> set (attempts d)" "a_result b = IN_PROGRESS" "a_message_id a = a_message_id b"
  shows "a = b"
  using queue_invD(3) [OF assms(1)] inv_keysD(3) [OF queue_invD(1) [OF assms(1)]] assms unfolding inv_one_def by metis

lemma active_not_superseded:
  assumes inv: "queue_inv d" and a: "a \<in> set (attempts d)" "a_result a = IN_PROGRESS" and ar: "ar \<in> set (attempt_recipients d)" "ar_attempt_id ar = a_id a"
  shows "\<not> superseded d ar"
proof
  note keys = queue_invD(1) [OF inv]
  assume "superseded d ar"
  then obtain a' b where b: "a' \<in> set (attempts d)" "b \<in> set (attempts d)" "a_id a' = a_id a" "(a_id b, ar_recipient_id ar) \<in> ar_keys d" "a_number a' < a_number b"
    by (auto simp: superseded_def ar)
  have "a' = a" using inv_keysD(3) [OF keys b(1) a(1) b(3)] .
  have "(a_id a, ar_recipient_id ar) \<in> ar_keys d" using ar by (force simp: ar_key_def)
  then obtain r where r: "r \<in> set (recipients d)" "r_id r = ar_recipient_id ar" using keys unfolding inv_keys_def by blast
  have "a_message_id a = r_message_id r" using inv_keysD(5) [OF keys a(1) r(1)] \<open>(a_id a, ar_recipient_id ar) \<in> ar_keys d\<close> r(2) by simp
  moreover have "a_message_id b = r_message_id r" using inv_keysD(5) [OF keys b(2) r(1)] b(4) r(2) by simp
  ultimately have "a_number b \<le> a_number a" using active_latest [OF inv a b(2)] by simp
  with b(5) \<open>a' = a\<close> show False by simp
qed

text \<open>Every other row of a recipient of the attempt in progress is settled.\<close>

lemma active_others_settled:
  assumes inv: "queue_inv d" and a: "a \<in> set (attempts d)" "a_result a = IN_PROGRESS" and r: "(a_id a, ar_recipient_id ar) \<in> ar_keys d"
    and ar: "ar \<in> set (attempt_recipients d)" "ar_attempt_id ar \<noteq> a_id a"
  shows "settled d ar"
proof -
  note keys = queue_invD(1) [OF inv]
  have "ar_key ar \<in> ar_keys d" using ar by simp
  then obtain b x where b: "b \<in> set (attempts d)" "a_id b = ar_attempt_id ar" and x: "x \<in> set (recipients d)" "r_id x = ar_recipient_id ar" "a_message_id b = r_message_id x"
    using keys unfolding inv_keys_def ar_key_def by fastforce
  have am: "a_message_id a = r_message_id x" using inv_keysD(5) [OF keys a(1) x(1)] r x(2) by simp
  have "a_number b \<le> a_number a" using active_latest [OF inv a b(1)] am x(3) by simp
  moreover have "a_number b \<noteq> a_number a" using inv_keysD(8) [OF keys b(1) a(1)] am x(3) b(2) ar(2) by auto
  ultimately have "superseded d ar" using a b r by (force simp: superseded_def)
  with queue_invD(6) [OF inv] ar(1) show ?thesis unfolding inv_sure_def by blast
qed

subsection \<open>Steps within an attempt\<close>

lemma ball_map: "(\<forall>x \<in> set (map f xs). P x) = (\<forall>x \<in> set xs. P (f x))"
  by simp

lemma bex_map: "(\<exists>x \<in> set (map f xs). P x) = (\<exists>x \<in> set xs. P (f x))"
  by simp

lemma active_step:
  assumes inv: "queue_inv d" and msg: "messages d' = messages d" and ars: "attempt_recipients d' = attempt_recipients d"
    and att: "attempts d' = map h (attempts d)" and hkey: "\<And>a. a_key (h a) = a_key a" "\<And>a. a_result (h a) = a_result a"
    and rec: "recipients d' = map g (recipients d)" and gkey: "\<And>r. r_key (g r) = r_key r"
    and gate: "\<And>a. a \<in> set (attempts d) \<Longrightarrow> (a_suppression_blocked_at (h a) \<noteq> None \<longrightarrow> a_data_armed_at (h a) = None)
        \<and> (a_expiry_blocked_at (h a) \<noteq> None \<longrightarrow> a_data_armed_at (h a) = None) \<and> (a_suppression_blocked_at a \<noteq> None \<longrightarrow> a_suppression_blocked_at (h a) \<noteq> None)"
    and g: "\<And>r. r \<in> set (recipients d) \<Longrightarrow> g r = r \<or> r_status r = SENDING \<and> r_status (g r) = SUPPRESSED \<and> r_decision (g r) \<noteq> None \<and> r_retry_at (g r) = None
        \<and> r_retry_automatic (g r) = False \<and> r_retry_started_at (g r) = r_retry_started_at r \<and> r_attempt_count (g r) = r_attempt_count r
        \<and> (\<forall>a \<in> set (attempts d). a_result a = IN_PROGRESS \<and> (a_id a, r_id r) \<in> ar_keys d \<longrightarrow> a_suppression_blocked_at (h a) \<noteq> None)"
    and ev: "keeps_events d d'"
  shows "good_step d d'"
proof -
  have hid: "a_id (h a) = a_id a" "a_message_id (h a) = a_message_id a" "a_number (h a) = a_number a" "a_claim_token (h a) = a_claim_token a" for a
    using hkey(1) [of a] by (simp_all add: a_key_def)
  have gid: "r_id (g r) = r_id r" for r using gkey [of r] by (simp add: r_key_def)
  have keys: "keeps_keys d d'" by (simp add: keeps_keys_def msg ars att rec comp_def hkey gkey)
  have "inv_lease d'" using queue_invD(2) [OF inv] unfolding inv_lease_def msg att ball_map bex_map hid hkey(2) .
  moreover have "inv_one d'" using queue_invD(3) [OF inv] unfolding inv_one_def att ball_map hid hkey(2) .
  moreover have "inv_gate d'"
    unfolding inv_gate_def att ars
  proof clarsimp
    fix a assume a: "a \<in> set (attempts d)"
    have old: "a_result a = IN_PROGRESS \<longrightarrow> (\<forall>ar \<in> set (attempt_recipients d). ar_attempt_id ar = a_id a \<longrightarrow> ar_status ar = SENDING \<and> ar_decision ar = None)"
      using queue_invD(5) [OF inv] a unfolding inv_gate_def by blast
    show "((\<exists>y. a_suppression_blocked_at (h a) = Some y) \<longrightarrow> a_data_armed_at (h a) = None) \<and> ((\<exists>y. a_expiry_blocked_at (h a) = Some y) \<longrightarrow> a_data_armed_at (h a) = None)
        \<and> (a_result (h a) = IN_PROGRESS \<longrightarrow> (\<forall>ar \<in> set (attempt_recipients d). ar_attempt_id ar = a_id (h a) \<longrightarrow> ar_status ar = SENDING \<and> ar_decision ar = None))"
      unfolding hid hkey(2) using gate [OF a] old by simp
  qed
  moreover have "inv_rcpt d'"
    unfolding inv_rcpt_def rec
  proof clarsimp
    fix r assume r: "r \<in> set (recipients d)"
    have ok: "sending_ok d r" using queue_invD(4) [OF inv] r by (simp add: inv_rcpt_def)
    show "sending_ok d' (g r)"
    proof (cases "g r = r")
      case True
      with ok gate show ?thesis unfolding sending_ok_def att ars ball_map bex_map hid hkey(2) by metis
    next
      case False
      with g [OF r] ok show ?thesis unfolding sending_ok_def att ars ball_map bex_map hid hkey(2) gid by auto
    qed
  qed
  moreover have "inv_sure d'"
    unfolding inv_sure_def ars rec
  proof (intro ballI conjI impI)
    fix ar assume ar: "ar \<in> set (attempt_recipients d)"
    note old = queue_invD(6) [OF inv, unfolded inv_sure_def, THEN bspec, OF ar]
    show "settled d' ar" if "superseded d' ar"
      using that old by (auto simp: superseded_def att ars hid intro: keeps_settled [OF ev])
    fix r' assume "r' \<in> set (map g (recipients d))" "r_id r' = ar_recipient_id ar \<and> claimable r'"
    then obtain r where r: "r \<in> set (recipients d)" "r_id r = ar_recipient_id ar" "claimable (g r)" by (auto simp: gid)
    with g [OF r(1)] have "claimable r" by (auto simp: claimable_def)
    with old r show "settled d' ar" by (blast intro: keeps_settled [OF ev])
  qed
  ultimately have "queue_inv d'" using inv_keys_keep [OF keys queue_invD(1) [OF inv]] by (simp add: queue_inv_def)
  moreover have "list_all2 keeps_facts (recipients d) (recipients d')"
    unfolding rec
  proof (rule facts.rows_map)
    fix r assume "r \<in> set (recipients d)"
    from g [OF this] gkey [of r] show "keeps_facts r (g r)" by (auto simp: keeps_facts_def finished_statuses_def)
  qed
  ultimately show ?thesis using keys ev by (simp add: good_step_def unlocked_def msg)
qed

lemma Record_good:
  assumes "queue_inv d" and "Record E j e d = Inr (u, d')"
  shows "good_step d d'"
proof -
  from assms(2) have rec: "recordEvent j e d = Inr d'" by (auto simp: Record_def bind_res_Inr_iff)
  show ?thesis
    by (rule active_step [OF assms(1), where h = "\<lambda>a. a" and g = "\<lambda>r. r"])
      (use queue_invD(5) [OF assms(1)] in \<open>auto simp: inv_gate_def messages_frame.view_recordEvent [OF rec] recipients_frame.view_recordEvent [OF rec]
        attempts_frame.view_recordEvent [OF rec] attempt_recipients_frame.view_recordEvent [OF rec] keeps_events_recordEvent [OF rec]\<close>)
qed

text \<open>The attempt ArmData works on, and its two ways to commit.\<close>

lemma ArmData_Inr:
  assumes "ArmData E j d = Inr (res, d')"
  obtains a where "a \<in> set (attempts d)" "open_attempt j a" "a_data_armed_at a = None" "a_expiry_blocked_at a = None" "a_suppression_blocked_at a = None"
    and "fence (Some (clk E 0)) j d = Inr ()"
    and "apply_hits (clk E 20) (j_ID j) True d \<noteq> [] \<and> res = Some ErrSuppressed
          \<and> d' = event j ''SUPPRESSION_GATE_BLOCKED'' [] (host E)
               (JObj [(''recipients'', JInt (int (length (apply_hits (clk E 20) (j_ID j) True d)))), (''data_authorized'', JBool False)])
               (upd_attempts (\<lambda>a. a_id a = j_AttemptID j) (block_suppression (clk E 2)) (snd (Apply E (j_ID j) (j_AttemptID j) True d)))
       \<or> apply_hits (clk E 20) (j_ID j) True d = [] \<and> arm_permission E j (snd (Apply E (j_ID j) (j_AttemptID j) True d)) = Inr (res, d')"
proof -
  from assms obtain a where q: "query_row (open_attempt j) (attempts d) = Inr a" and f: "fence (Some (clk E 0)) j d = Inr ()"
    and g: "a_data_armed_at a = None" "a_expiry_blocked_at a = None" "a_suppression_blocked_at a = None"
    and rest: "(let (hits, d') = Apply E (j_ID j) (j_AttemptID j) True d in
     if hits > 0 then
       Inr (Some ErrSuppressed, event j ''SUPPRESSION_GATE_BLOCKED'' [] (host E)
         (JObj [(''recipients'', JInt (int hits)), (''data_authorized'', JBool False)])
         (upd_attempts (\<lambda>a. a_id a = j_AttemptID j) (block_suppression (clk E 2)) d'))
     else arm_permission E j d') = Inr (res, d')"
    by (auto simp: ArmData_def bind_res_Inr_iff)
  from query_row_Inr [OF q] have a: "a \<in> set (attempts d)" "open_attempt j a" by auto
  show thesis by (rule that [OF a g f]) (use rest in \<open>auto simp: Let_def split_beta split: if_split_asm\<close>)
qed

lemma arm_permission_Inr:
  assumes "arm_permission E j d = Inr (res, d')"
  obtains m where "m \<in> set (messages d)" "m_id m = j_ID j"
    and "attempts d' = update_where (\<lambda>a. a_id a = j_AttemptID j \<and> a_claim_token a = j_Token j \<and> a_result a = IN_PROGRESS
           \<and> a_data_armed_at a = None \<and> a_expiry_blocked_at a = None) (arm_attempt (clk E 3) m) (attempts d)"
    and "messages d' = messages d" "recipients d' = recipients d" "attempt_recipients d' = attempt_recipients d" "keeps_events d d'"
    and "null_le (m_expires_at m) (clk E 3) \<or> arm_triggers (clk E 3) (clk E 4) m"
    and "\<exists>a \<in> set (attempts d'). a_id a = j_AttemptID j \<and> (res = (if a_expiry_blocked_at a \<noteq> None then Some ErrExpired else None))"
proof -
  let ?armable = "\<lambda>a. a_id a = j_AttemptID j \<and> a_claim_token a = j_Token j \<and> a_result a = IN_PROGRESS \<and> a_data_armed_at a = None \<and> a_expiry_blocked_at a = None"
  from assms obtain m a where m: "query_row (\<lambda>m. m_id m = j_ID j) (messages d) = Inr m"
    and a: "query_row (\<lambda>a. a_id a = j_AttemptID j) (update_where ?armable (arm_attempt (clk E 3) m) (attempts d)) = Inr a"
    and g: "null_le (m_expires_at m) (clk E 3) \<or> arm_triggers (clk E 3) (clk E 4) m"
    and rest: "(if a_expiry_blocked_at a \<noteq> None
        then Inr (Some ErrExpired, event j ''EXPIRY_GATE_BLOCKED'' [] (host E) (JObj [(''data_authorized'', JBool False)]) (upd_attempts ?armable (arm_attempt (clk E 3) m) d))
        else Inr (None, event j ''DATA_ARMED'' [] (host E) (JObj [(''reason'', JStr ''durable permission to transmit DATA'')]) (upd_attempts ?armable (arm_attempt (clk E 3) m) d)))
       = (Inr (res, d') :: err + err option \<times> db)"
    by (auto simp: arm_permission_def bind_res_Inr_iff Let_def)
  have t: "attempts d' = update_where ?armable (arm_attempt (clk E 3) m) (attempts d)" "messages d' = messages d" "recipients d' = recipients d"
    "attempt_recipients d' = attempt_recipients d" "keeps_events d d'" using rest by (auto split: if_split_asm)
  have m': "m \<in> set (messages d)" "m_id m = j_ID j" using query_row_Inr [OF m] by auto
  have "a \<in> set (attempts d')" "a_id a = j_AttemptID j" using query_row_Inr [OF a] by (auto simp: t(1))
  moreover have "res = (if a_expiry_blocked_at a \<noteq> None then Some ErrExpired else None)" using rest by (auto split: if_split_asm)
  ultimately show thesis using that [OF m' t g] by blast
qed

lemma ArmData_good:
  assumes inv: "queue_inv d" and arm: "ArmData E j d = Inr (res, d')"
  shows "good_step d d'"
proof -
  obtain a where a: "a \<in> set (attempts d)" "open_attempt j a" "a_data_armed_at a = None" "a_expiry_blocked_at a = None" "a_suppression_blocked_at a = None"
    and cases: "apply_hits (clk E 20) (j_ID j) True d \<noteq> [] \<and> res = Some ErrSuppressed
          \<and> d' = event j ''SUPPRESSION_GATE_BLOCKED'' [] (host E)
               (JObj [(''recipients'', JInt (int (length (apply_hits (clk E 20) (j_ID j) True d)))), (''data_authorized'', JBool False)])
               (upd_attempts (\<lambda>a. a_id a = j_AttemptID j) (block_suppression (clk E 2)) (snd (Apply E (j_ID j) (j_AttemptID j) True d)))
       \<or> apply_hits (clk E 20) (j_ID j) True d = [] \<and> arm_permission E j (snd (Apply E (j_ID j) (j_AttemptID j) True d)) = Inr (res, d')"
    using ArmData_Inr [OF arm] by metis
  note keys = queue_invD(1) [OF inv]
  have this_one: "b = a" if "b \<in> set (attempts d)" "a_id b = j_AttemptID j" for b
    using inv_keysD(3) [OF keys that(1) a(1)] that(2) a(2) by (simp add: open_attempt_def)
  have gate: "(a_suppression_blocked_at b \<noteq> None \<longrightarrow> a_data_armed_at b = None) \<and> (a_expiry_blocked_at b \<noteq> None \<longrightarrow> a_data_armed_at b = None)"
    if "b \<in> set (attempts d)" for b using queue_invD(5) [OF inv] that unfolding inv_gate_def by blast
  from cases show ?thesis
  proof
    let ?hits = "apply_hits (clk E 20) (j_ID j) True d"
    let ?g = "apply_rows (clk E 21) ?hits"
    let ?h = "\<lambda>b. if a_id b = j_AttemptID j then block_suppression (clk E 2) b else b"
    assume "?hits \<noteq> [] \<and> res = Some ErrSuppressed
          \<and> d' = event j ''SUPPRESSION_GATE_BLOCKED'' [] (host E)
               (JObj [(''recipients'', JInt (int (length ?hits))), (''data_authorized'', JBool False)])
               (upd_attempts (\<lambda>a. a_id a = j_AttemptID j) (block_suppression (clk E 2)) (snd (Apply E (j_ID j) (j_AttemptID j) True d)))"
    then have d': "d' = event j ''SUPPRESSION_GATE_BLOCKED'' [] (host E)
               (JObj [(''recipients'', JInt (int (length ?hits))), (''data_authorized'', JBool False)])
               (upd_attempts (\<lambda>a. a_id a = j_AttemptID j) (block_suppression (clk E 2)) (snd (Apply E (j_ID j) (j_AttemptID j) True d)))" by blast
    show ?thesis
    proof (rule active_step [OF inv])
      show "attempts d' = map ?h (attempts d)" "recipients d' = map ?g (recipients d)" "messages d' = messages d"
        "attempt_recipients d' = attempt_recipients d" by (simp_all add: d' update_where_def)
      show "a_key (?h b) = a_key b" "a_result (?h b) = a_result b" for b by (simp_all add: block_suppression_def a_key_def)
      show "r_key (?g r) = r_key r" for r using apply_rows_cases [of "clk E 21" ?hits r] by (auto simp: suppress_recipient_def r_key_def)
      show "keeps_events d d'" unfolding d' using keeps_events_Apply by (intro keeps_events_event) simp
      show "(a_suppression_blocked_at (?h b) \<noteq> None \<longrightarrow> a_data_armed_at (?h b) = None) \<and> (a_expiry_blocked_at (?h b) \<noteq> None \<longrightarrow> a_data_armed_at (?h b) = None)
          \<and> (a_suppression_blocked_at b \<noteq> None \<longrightarrow> a_suppression_blocked_at (?h b) \<noteq> None)" if "b \<in> set (attempts d)" for b
        using gate [OF that] this_one [OF that] a(3,4) by (auto simp: block_suppression_def)
      fix r assume r: "r \<in> set (recipients d)"
      show "?g r = r \<or> r_status r = SENDING \<and> r_status (?g r) = SUPPRESSED \<and> r_decision (?g r) \<noteq> None \<and> r_retry_at (?g r) = None
        \<and> r_retry_automatic (?g r) = False \<and> r_retry_started_at (?g r) = r_retry_started_at r \<and> r_attempt_count (?g r) = r_attempt_count r
        \<and> (\<forall>b \<in> set (attempts d). a_result b = IN_PROGRESS \<and> (a_id b, r_id r) \<in> ar_keys d \<longrightarrow> a_suppression_blocked_at (?h b) \<noteq> None)"
      proof (cases "r_id r \<in> fst ` set ?hits")
        case True
        then obtain sid where sid: "?g r = suppress_recipient (clk E 21) sid r" using apply_rows_cases [of "clk E 21" ?hits r] by blast
        from True obtain r' where r': "r' \<in> set (recipients d)" "r_id r' = r_id r" "r_message_id r' = j_ID j" "r_status r' \<in> set (apply_states True)"
          by (auto dest!: apply_hits_mem)
        then have rr: "r_message_id r = j_ID j" "r_status r = SENDING" using inv_keysD(2) [OF keys] r by (auto simp: apply_states_def)
        have "a_suppression_blocked_at (?h b) \<noteq> None" if b: "b \<in> set (attempts d)" "a_result b = IN_PROGRESS" "(a_id b, r_id r) \<in> ar_keys d" for b
        proof -
          have "a_message_id b = j_ID j" using inv_keysD(5) [OF keys b(1) r b(3)] rr by simp
          then have "b = a" using active_unique [OF inv b(1,2) a(1)] a(2) by (simp add: open_attempt_def)
          with a(2) show ?thesis by (simp add: open_attempt_def block_suppression_def)
        qed
        with sid rr show ?thesis by (simp add: suppress_recipient_def)
      next
        case False
        then show ?thesis using apply_rows_cases [of "clk E 21" ?hits r] by blast
      qed
    qed
  next
    assume *: "apply_hits (clk E 20) (j_ID j) True d = [] \<and> arm_permission E j (snd (Apply E (j_ID j) (j_AttemptID j) True d)) = Inr (res, d')"
    then have same: "snd (Apply E (j_ID j) (j_AttemptID j) True d) = d" by (simp add: Apply_def)
    let ?armable = "\<lambda>b. a_id b = j_AttemptID j \<and> a_claim_token b = j_Token j \<and> a_result b = IN_PROGRESS \<and> a_data_armed_at b = None \<and> a_expiry_blocked_at b = None"
    from * obtain m where t: "attempts d' = update_where ?armable (arm_attempt (clk E 3) m) (attempts d)" "messages d' = messages d" "recipients d' = recipients d"
      "attempt_recipients d' = attempt_recipients d" "keeps_events d d'"
      unfolding same by (elim conjE arm_permission_Inr)
    let ?h = "\<lambda>b. if ?armable b then arm_attempt (clk E 3) m b else b"
    show ?thesis
    proof (rule active_step [OF inv t(2) t(4), where g = "\<lambda>r. r" and h = ?h])
      fix b assume b: "b \<in> set (attempts d)"
      have "a_suppression_blocked_at b = None" if "?armable b" using this_one [OF b] that a(5) by simp
      then show "(a_suppression_blocked_at (?h b) \<noteq> None \<longrightarrow> a_data_armed_at (?h b) = None) \<and> (a_expiry_blocked_at (?h b) \<noteq> None \<longrightarrow> a_data_armed_at (?h b) = None)
          \<and> (a_suppression_blocked_at b \<noteq> None \<longrightarrow> a_suppression_blocked_at (?h b) \<noteq> None)"
        using gate [OF b] by (cases "m_expires_at m") (auto simp: arm_attempt_def)
    qed (simp_all add: t update_where_def arm_attempt_def a_key_def)
  qed
qed

subsection \<open>The end of an attempt\<close>

text \<open>What must be shown of an operation that ends the attempt \<open>a0\<close> and unlocks its message.\<close>

lemma closing_step:
  assumes inv: "queue_inv d" and a0: "a0 \<in> set (attempts d)" "a_result a0 = IN_PROGRESS" "a_message_id a0 = mid"
    and att: "attempts d' = map h (attempts d)" and hkey: "\<And>a. a_key (h a) = a_key a" and hother: "\<And>a. a_id a \<noteq> a_id a0 \<Longrightarrow> h a = a"
    and closed: "a_result (h a0) \<noteq> IN_PROGRESS"
    and gates: "\<And>a. a_data_armed_at (h a) = a_data_armed_at a \<and> a_suppression_blocked_at (h a) = a_suppression_blocked_at a \<and> a_expiry_blocked_at (h a) = a_expiry_blocked_at a"
    and ars: "attempt_recipients d' = map k (attempt_recipients d)" and kkey: "\<And>ar. ar_key (k ar) = ar_key ar"
    and kother: "\<And>ar. ar_attempt_id ar \<noteq> a_id a0 \<Longrightarrow> k ar = ar"
    and msg: "messages d' = update_where (\<lambda>m. m_id m = mid) u (messages d)" and ukey: "\<And>m. m_key (u m) = m_key m"
    and un: "\<And>m. m_locked_by (u m) = None" and ust: "\<And>m. m_status (u m) \<noteq> SENDING"
    and rec: "recipients d' = map g (recipients d)" and gkey: "\<And>r. r_key (g r) = r_key r"
    and gother: "\<And>r. r \<in> set (recipients d) \<Longrightarrow> r_message_id r \<noteq> mid \<Longrightarrow> g r = r"
    and own: "\<And>r. r \<in> set (recipients d) \<Longrightarrow> r_message_id r = mid \<Longrightarrow> r_status (g r) \<noteq> SENDING
        \<and> (r_retry_at (g r) \<noteq> None \<longrightarrow> r_status (g r) = TEMP_FAILED \<and> r_retry_started_at (g r) \<noteq> None)
        \<and> (r_retry_automatic (g r) \<longrightarrow> r_retry_started_at (g r) \<noteq> None) \<and> (claimable (g r) \<longrightarrow> claimable r \<or> (a_id a0, r_id r) \<in> ar_keys d)"
    and sure: "\<And>r ar. r \<in> set (recipients d) \<Longrightarrow> r_message_id r = mid \<Longrightarrow> claimable (g r) \<Longrightarrow> ar \<in> set (attempt_recipients d) \<Longrightarrow> ar_recipient_id ar = r_id r
        \<Longrightarrow> ar_attempt_id ar = a_id a0 \<Longrightarrow> settled d' (k ar)"
    and ev: "keeps_events d d'"
  shows "queue_inv d'" and "keeps_keys d d'" and "\<And>x. unlocked d x \<Longrightarrow> unlocked d' x"
proof -
  note keys0 = queue_invD(1) [OF inv]
  have hid: "a_id (h a) = a_id a" "a_message_id (h a) = a_message_id a" "a_number (h a) = a_number a" "a_claim_token (h a) = a_claim_token a" for a
    using hkey [of a] by (simp_all add: a_key_def)
  have kid: "ar_attempt_id (k ar) = ar_attempt_id ar" "ar_recipient_id (k ar) = ar_recipient_id ar" for ar using kkey [of ar] by (simp_all add: ar_key_def)
  have gid: "r_id (g r) = r_id r" "r_message_id (g r) = r_message_id r" for r using gkey [of r] by (simp_all add: r_key_def)
  have uid: "m_id (u m) = m_id m" "m_attempt_count (u m) = m_attempt_count m" for m using ukey [of m] by (simp_all add: m_key_def)
  show keys: "keeps_keys d d'" by (simp add: keeps_keys_def msg ars att rec comp_def hkey gkey kkey map_update_where ukey)
  have ak: "ar_keys d' = ar_keys d" by (rule keeps_keys_ar_keys [OF keys])
  show "unlocked d' x" if "unlocked d x" for x using that by (auto simp: unlocked_def msg set_update_where un uid)
  have act: "a_result (h a) = IN_PROGRESS \<longleftrightarrow> a_result a = IN_PROGRESS \<and> a_message_id a \<noteq> mid" if "a \<in> set (attempts d)" for a
  proof (cases "a_id a = a_id a0")
    case True
    then have "a = a0" using inv_keysD(3) [OF keys0 that a0(1)] by simp
    with closed a0 show ?thesis by simp
  next
    case False
    with hother active_unique [OF inv that _ a0(1,2)] a0(3) show ?thesis by auto
  qed
  have "inv_lease d'" unfolding inv_lease_def att bex_map ball_map hid
  proof
    fix m assume "m \<in> set (messages d')"
    then obtain m0 where m0: "m0 \<in> set (messages d)" "m = (if m_id m0 = mid then u m0 else m0)" unfolding msg by (rule update_where_memE)
    have l: "(m_status m0 = SENDING \<longleftrightarrow> m_locked_by m0 \<noteq> None)
      \<and> (m_locked_by m0 \<noteq> None \<longrightarrow> (\<exists>a \<in> set (attempts d). a_message_id a = m_id m0 \<and> a_result a = IN_PROGRESS))
      \<and> (\<forall>a \<in> set (attempts d). a_message_id a = m_id m0 \<and> a_result a = IN_PROGRESS \<longrightarrow>
          m_locked_by m0 = Some (a_claim_token a) \<and> a_number a = m_attempt_count m0)"
      using queue_invD(2) [OF inv] m0(1) unfolding inv_lease_def by blast
    show "(m_status m = SENDING \<longleftrightarrow> m_locked_by m \<noteq> None)
      \<and> (m_locked_by m \<noteq> None \<longrightarrow> (\<exists>a \<in> set (attempts d). a_message_id a = m_id m \<and> a_result (h a) = IN_PROGRESS))
      \<and> (\<forall>a \<in> set (attempts d). a_message_id a = m_id m \<and> a_result (h a) = IN_PROGRESS \<longrightarrow>
          m_locked_by m = Some (a_claim_token a) \<and> a_number a = m_attempt_count m)"
    proof (cases "m_id m0 = mid")
      case True
      then have "m_locked_by m = None" "m_status m \<noteq> SENDING" "m_id m = mid" using m0(2) un ust uid by simp_all
      with act show ?thesis by auto
    next
      case False
      then have "m = m0" using m0(2) by simp
      with l act False show ?thesis by metis
    qed
  qed
  moreover have "inv_one d'" using queue_invD(3) [OF inv] act unfolding inv_one_def att ball_map hid by blast
  moreover have "inv_gate d'" unfolding inv_gate_def att ars ball_map hid kid
  proof
    fix a assume a: "a \<in> set (attempts d)"
    have old: "(a_suppression_blocked_at a \<noteq> None \<longrightarrow> a_data_armed_at a = None) \<and> (a_expiry_blocked_at a \<noteq> None \<longrightarrow> a_data_armed_at a = None)
      \<and> (a_result a = IN_PROGRESS \<longrightarrow> (\<forall>ar \<in> set (attempt_recipients d). ar_attempt_id ar = a_id a \<longrightarrow> ar_status ar = SENDING \<and> ar_decision ar = None))"
      using queue_invD(5) [OF inv] a unfolding inv_gate_def by blast
    have "k ar = ar" if "a_result (h a) = IN_PROGRESS" "ar_attempt_id ar = a_id a" for ar
      using kother [of ar] that act [OF a] a0(3) inv_keysD(3) [OF keys0 a a0(1)] by auto
    with old act [OF a] gates [of a] show "(a_suppression_blocked_at (h a) \<noteq> None \<longrightarrow> a_data_armed_at (h a) = None) \<and> (a_expiry_blocked_at (h a) \<noteq> None \<longrightarrow> a_data_armed_at (h a) = None)
      \<and> (a_result (h a) = IN_PROGRESS \<longrightarrow> (\<forall>ar \<in> set (attempt_recipients d). ar_attempt_id ar = a_id a \<longrightarrow> ar_status (k ar) = SENDING \<and> ar_decision (k ar) = None))"
      by auto
  qed
  moreover have "inv_rcpt d'" unfolding inv_rcpt_def rec ball_map
  proof
    fix r assume r: "r \<in> set (recipients d)"
    have ok: "sending_ok d r" using queue_invD(4) [OF inv] r by (simp add: inv_rcpt_def)
    have msg_of: "a_message_id a = r_message_id r" if "a \<in> set (attempts d)" "(a_id a, r_id r) \<in> ar_keys d" for a
      using inv_keysD(5) [OF keys0 that(1) r that(2)] .
    show "sending_ok d' (g r)"
    proof (cases "r_message_id r = mid")
      case True
      with own [OF r True] msg_of act show ?thesis unfolding sending_ok_def att ak bex_map ball_map hid gid by auto
    next
      case False
      then have g: "g r = r" using gother [OF r] by simp
      have sup: "a_suppression_blocked_at (h a) = a_suppression_blocked_at a" for a using gates [of a] by simp
      have "a_result (h a) = IN_PROGRESS \<longleftrightarrow> a_result a = IN_PROGRESS" if "a \<in> set (attempts d)" "(a_id a, r_id r) \<in> ar_keys d" for a
        using act [OF that(1)] msg_of [OF that] False by simp
      with ok show ?thesis unfolding sending_ok_def att ak bex_map ball_map hid g sup by meson
    qed
  qed
  moreover have "inv_sure d'" unfolding inv_sure_def ars rec ball_map
  proof (intro ballI conjI impI)
    fix ar assume ar: "ar \<in> set (attempt_recipients d)"
    note old = queue_invD(6) [OF inv, unfolded inv_sure_def, THEN bspec, OF ar]
    have sup: "superseded d' (k ar) \<longleftrightarrow> superseded d ar" unfolding superseded_def att bex_map ak hid kid ..
    show "settled d' (k ar)" if "superseded d' (k ar)"
    proof -
      have "superseded d ar" using that sup by simp
      then have "ar_attempt_id ar \<noteq> a_id a0" using active_not_superseded [OF inv a0(1,2) ar] by blast
      with kother old \<open>superseded d ar\<close> show ?thesis by (metis keeps_settled [OF ev])
    qed
    fix r assume r: "r \<in> set (recipients d)" and "r_id (g r) = ar_recipient_id (k ar) \<and> claimable (g r)"
    then have r1: "r_id r = ar_recipient_id ar" "claimable (g r)" by (simp_all add: gid kid)
    show "settled d' (k ar)"
    proof (cases "ar_attempt_id ar = a_id a0")
      case True
      have "(a_id a0, r_id r) \<in> ar_keys d" using ar True r1 by (force simp: ar_key_def)
      then have "r_message_id r = mid" using inv_keysD(5) [OF keys0 a0(1) r] a0(3) by simp
      with sure [OF r _ r1(2) ar] r1 True show ?thesis by simp
    next
      case False
      then have k: "k ar = ar" by (rule kother)
      have "settled d ar"
      proof (cases "claimable r")
        case True
        with old r r1 show ?thesis by blast
      next
        case nc: False
        have "r_message_id r = mid" using gother [OF r] nc r1(2) by metis
        with own [OF r] nc r1 have "(a_id a0, ar_recipient_id ar) \<in> ar_keys d" by simp
        with active_others_settled [OF inv a0(1,2) _ ar False] show ?thesis by simp
      qed
      with k show ?thesis by (simp add: keeps_settled [OF ev])
    qed
  qed
  ultimately show "queue_inv d'" using inv_keys_keep [OF keys keys0] by (simp add: queue_inv_def)
qed

end
