(* ===== verification/Queue_Closing.thy ===== *)
theory Queue_Closing
  imports Queue_Leased
begin

text \<open>
  Recovery of expired leases and the end of an attempt by its worker: both close the attempt in progress, unlock the
  message and leave every recipient with a status its evidence supports.
\<close>

subsection \<open>Waiting recipients that stop waiting\<close>

definition stops_waiting :: "rcpt \<Rightarrow> rcpt \<Rightarrow> bool" where
  "stops_waiting r s \<longleftrightarrow> s = r \<or> r_status r \<in> {QUEUED, TEMP_FAILED} \<and> r_status s \<in> {TEMP_FAILED, EXPIRED} \<and> r_retry_at s = None
     \<and> \<not> r_retry_automatic s \<and> r_key s = r_key r \<and> r_attempt_count s = r_attempt_count r \<and> r_retry_started_at s = r_retry_started_at r"

interpretation waiting: row_relation stops_waiting
  by unfold_locales (auto simp: stops_waiting_def)

lemma stops_waiting_expire: "expires_now t mid d r \<Longrightarrow> stops_waiting r (expire_recipient t d' r)"
  by (auto simp: stops_waiting_def expires_now_def)

lemma stops_waiting_exhaust: "r_status r \<in> {QUEUED, TEMP_FAILED} \<Longrightarrow> stops_waiting r (exhaust_recipient reason r)"
  by (auto simp: stops_waiting_def exhaust_recipient_def r_key_def)

lemma stops_waitingD:
  assumes "stops_waiting r s"
  shows "r_key s = r_key r" "keeps_facts r s" "r_status r \<noteq> SENDING \<Longrightarrow> r_status s \<noteq> SENDING" "claimable s \<Longrightarrow> s = r"
    "r_retry_started_at s = r_retry_started_at r" "r_retry_automatic s \<Longrightarrow> r_retry_automatic r" "r_retry_at s \<noteq> None \<Longrightarrow> s = r"
    "r_status r \<in> {QUEUED, TEMP_FAILED} \<Longrightarrow> r_status s \<in> {QUEUED, TEMP_FAILED, EXPIRED}" "r_status r \<notin> {QUEUED, TEMP_FAILED} \<Longrightarrow> s = r"
  using assms by (auto simp: stops_waiting_def keeps_facts_def finished_statuses_def claimable_def)

lemma update_where_update_where:
  assumes "\<And>x. p x \<Longrightarrow> p (f x)"
  shows "update_where p g (update_where p f xs) = update_where p (\<lambda>x. g (f x)) xs"
  using assms by (simp add: update_where_def)

subsection \<open>One expired lease\<close>

definition recovered_recipient :: "string \<Rightarrow> status \<Rightarrow> rcpt \<Rightarrow> rcpt" where
  "recovered_recipient mid st r = (if r_message_id r = mid \<and> r_status r = SENDING then r\<lparr>r_status := st\<rparr> else r)"

lemma recovered_recipient_simps [simp]:
  "r_key (recovered_recipient mid st r) = r_key r" "r_attempt_count (recovered_recipient mid st r) = r_attempt_count r"
  "r_retry_started_at (recovered_recipient mid st r) = r_retry_started_at r" "r_retry_at (recovered_recipient mid st r) = r_retry_at r"
  "r_retry_automatic (recovered_recipient mid st r) = r_retry_automatic r" "r_message_id (recovered_recipient mid st r) = r_message_id r"
  "r_id (recovered_recipient mid st r) = r_id r"
  by (simp_all add: recovered_recipient_def r_key_def)

lemma expireRecovered_tables [simp]:
  "recipients (expireRecovered E j d) = update_where (\<lambda>r. r_message_id r = j_ID j \<and> r_status r = QUEUED \<and> exhausted E r)
     (exhaust_recipient ''RECOVERY_BUDGET_EXHAUSTED'') (recipients d)"
  "messages (expireRecovered E j d) = update_where (\<lambda>m. m_id m = j_ID j) (refresh_message E (recipients_of (expireRecovered E j d) (j_ID j))) (messages d)"
  "attempts (expireRecovered E j d) = attempts d" "attempt_recipients (expireRecovered E j d) = attempt_recipients d"
  by (simp_all add: expireRecovered_def Let_def recipients_of_def messages_frame.view_fold recipients_frame.view_fold attempts_frame.view_fold
      attempt_recipients_frame.view_fold)

lemma keeps_events_expireRecovered: "keeps_events d (expireRecovered E j d)"
  unfolding expireRecovered_def Let_def by (intro keeps_events_refresh keeps_events_trans [OF _ keeps_events_fold]) auto

lemma recover_rows_tables [simp]:
  "recipients (recover_rows E j armed d) = map (recovered_recipient (j_ID j) (if armed then DELIVERY_UNKNOWN else QUEUED)) (recipients d)"
  "attempts (recover_rows E j armed d) = update_where (\<lambda>a. a_id a = j_AttemptID j) (lost_attempt E (if armed then DELIVERY_UNKNOWN else TEMP_FAILED)) (attempts d)"
  "attempt_recipients (recover_rows E j armed d) = update_where (\<lambda>ar. ar_attempt_id ar = j_AttemptID j)
     (\<lambda>ar. ar\<lparr>ar_status := if armed then DELIVERY_UNKNOWN else TEMP_FAILED\<rparr>) (attempt_recipients d)"
  "messages (recover_rows E j armed d) = update_where (\<lambda>m. m_id m = j_ID j)
     (recovered_message (if armed then DELIVERY_UNKNOWN else QUEUED) (if armed then None else Some (host E))) (messages d)"
  "keeps_events d (recover_rows E j armed d)"
  by (simp_all add: recover_rows_def Let_def update_where_def recovered_recipient_def)

text \<open>The recipients after the whole step, the message's row, and the other tables.\<close>

lemma recover_one_rows:
  assumes "d' = recover_one E (j, armed) d"
  obtains g where "recipients d' = map g (recipients d)"
    and "\<And>r. r_message_id r \<noteq> j_ID j \<Longrightarrow> g r = r"
    and "\<And>r. stops_waiting (recovered_recipient (j_ID j) (if armed then DELIVERY_UNKNOWN else QUEUED) r) (g r)"
proof -
  let ?st = "if armed then DELIVERY_UNKNOWN else QUEUED"
  let ?d2 = "recoverProbe E j (recover_rows E j armed d)"
  let ?d3 = "if armed then ?d2 else expireRecovered E j ?d2"
  let ?e1 = "recovered_recipient (j_ID j) ?st"
  let ?p2 = "\<lambda>r. \<not> armed \<and> r_message_id r = j_ID j \<and> r_status r = QUEUED \<and> exhausted E r"
  let ?e2 = "\<lambda>r. if ?p2 r then exhaust_recipient ''RECOVERY_BUDGET_EXHAUSTED'' r else r"
  let ?e3 = "\<lambda>r. if expires_now (clk E 30) (j_ID j) ?d3 r then expire_recipient (clk E 30) ?d3 r else r"
  have "recipients ?d3 = map (\<lambda>r. ?e2 (?e1 r)) (recipients d)" by (simp add: update_where_def)
  then have "recipients d' = map (\<lambda>r. ?e3 (?e2 (?e1 r))) (recipients d)"
    by (simp add: assms recover_one_def Let_def update_where_def)
  moreover have "?e3 (?e2 (?e1 r)) = r" if "r_message_id r \<noteq> j_ID j" for r
    using that by (simp add: recovered_recipient_def expires_now_def)
  moreover have "stops_waiting (?e1 r) (?e3 (?e2 (?e1 r)))" for r
  proof (rule waiting.row_trans)
    show "stops_waiting (?e1 r) (?e2 (?e1 r))" by (simp add: stops_waiting_exhaust waiting.row_refl)
    show "stops_waiting (?e2 (?e1 r)) (?e3 (?e2 (?e1 r)))" using stops_waiting_expire waiting.row_refl by simp
  qed
  ultimately show thesis by (rule that)
qed

lemma recover_one_tables:
  assumes "d' = recover_one E (j, armed) d"
  shows "attempts d' = update_where (\<lambda>a. a_id a = j_AttemptID j) (lost_attempt E (if armed then DELIVERY_UNKNOWN else TEMP_FAILED)) (attempts d)"
    and "attempt_recipients d' = update_where (\<lambda>ar. ar_attempt_id ar = j_AttemptID j) (\<lambda>ar. ar\<lparr>ar_status := if armed then DELIVERY_UNKNOWN else TEMP_FAILED\<rparr>) (attempt_recipients d)"
    and "keeps_events d d'"
    and "\<exists>u. messages d' = update_where (\<lambda>m. m_id m = j_ID j) u (messages d)
          \<and> (\<forall>m. m_key (u m) = m_key m \<and> m_locked_by (u m) = None \<and> m_status (u m) = projection (recipients_of d' (j_ID j)))"
proof -
  let ?d2 = "recoverProbe E j (recover_rows E j armed d)"
  let ?d3 = "if armed then ?d2 else expireRecovered E j ?d2"
  show "attempts d' = update_where (\<lambda>a. a_id a = j_AttemptID j) (lost_attempt E (if armed then DELIVERY_UNKNOWN else TEMP_FAILED)) (attempts d)"
    "attempt_recipients d' = update_where (\<lambda>ar. ar_attempt_id ar = j_AttemptID j) (\<lambda>ar. ar\<lparr>ar_status := if armed then DELIVERY_UNKNOWN else TEMP_FAILED\<rparr>) (attempt_recipients d)"
    by (simp_all add: assms recover_one_def Let_def)
  have "keeps_events d ?d2" by (rule keeps_events_trans [OF recover_rows_tables(5) keeps_events_recoverProbe])
  then have "keeps_events d ?d3" using keeps_events_trans keeps_events_expireRecovered by auto
  then show "keeps_events d d'"
    using keeps_events_trans keeps_events_applyExpiry unfolding assms recover_one_def Let_def by (auto intro!: keeps_events_event keeps_events_refresh)
  let ?m1 = "recovered_message (if armed then DELIVERY_UNKNOWN else QUEUED) (if armed then None else Some (host E))"
  let ?m2 = "\<lambda>m. if armed then m else refresh_message E (recipients_of (expireRecovered E j ?d2) (j_ID j)) m"
  let ?u = "\<lambda>m. refresh_message E (recipients_of d' (j_ID j)) (?m2 (?m1 m))"
  have id: "m_id (recovered_message st nx m) = m_id m" "m_key (recovered_message st nx m) = m_key m" "m_locked_by (recovered_message st nx m) = None" for st nx m
    by (simp_all add: recovered_message_def m_key_def)
  have "messages ?d3 = update_where (\<lambda>m. m_id m = j_ID j) (\<lambda>m. ?m2 (?m1 m)) (messages d)"
    by (simp add: update_where_update_where id)
  then have "messages d' = update_where (\<lambda>m. m_id m = j_ID j) ?u (messages d)"
    by (simp add: assms recover_one_def Let_def update_where_update_where id recipients_of_def)
  then show "\<exists>u. messages d' = update_where (\<lambda>m. m_id m = j_ID j) u (messages d)
          \<and> (\<forall>m. m_key (u m) = m_key m \<and> m_locked_by (u m) = None \<and> m_status (u m) = projection (recipients_of d' (j_ID j)))"
    by (rule exI [of _ ?u, OF conjI]) (simp add: id)
qed

definition lease_of :: "db \<Rightarrow> job \<times> bool \<Rightarrow> bool" where
  "lease_of d = (\<lambda>(j, armed). \<exists>a \<in> set (attempts d). a_id a = j_AttemptID j \<and> a_message_id a = j_ID j \<and> a_result a = IN_PROGRESS
     \<and> armed = (a_data_armed_at a \<noteq> None))"

lemma recover_one_good:
  assumes inv: "queue_inv d" and lease: "lease_of d (j, armed)" and d': "d' = recover_one E (j, armed) d"
  shows "good_step d d'" and "\<And>x. lease_of d x \<Longrightarrow> j_AttemptID (fst x) \<noteq> j_AttemptID j \<Longrightarrow> lease_of d' x"
proof -
  let ?st = "if armed then DELIVERY_UNKNOWN else QUEUED" and ?ast = "if armed then DELIVERY_UNKNOWN else TEMP_FAILED"
  let ?e = "recovered_recipient (j_ID j) ?st"
  let ?k = "\<lambda>ar. if ar_attempt_id ar = j_AttemptID j then ar\<lparr>ar_status := ?ast\<rparr> else ar"
  let ?h = "\<lambda>a. if a_id a = j_AttemptID j then lost_attempt E ?ast a else a"
  obtain a0 where a0: "a0 \<in> set (attempts d)" "a_id a0 = j_AttemptID j" "a_message_id a0 = j_ID j" "a_result a0 = IN_PROGRESS" "armed = (a_data_armed_at a0 \<noteq> None)"
    using lease by (auto simp: lease_of_def)
  obtain g where g: "recipients d' = map g (recipients d)" "\<And>r. r_message_id r \<noteq> j_ID j \<Longrightarrow> g r = r" "\<And>r. stops_waiting (?e r) (g r)"
    using recover_one_rows [OF d'] by blast
  note t = recover_one_tables [OF d'] and keys = queue_invD(1) [OF inv]
  obtain u where u: "messages d' = update_where (\<lambda>m. m_id m = j_ID j) u (messages d)" "\<And>m. m_key (u m) = m_key m" "\<And>m. m_locked_by (u m) = None"
    "\<And>m. m_status (u m) = projection (recipients_of d' (j_ID j))" using t(4) by blast
  have gkey: "r_key (g r) = r_key r" for r using stops_waitingD(1) [OF g(3) [of r]] by simp
  have ok: "sending_ok d r" if "r \<in> set (recipients d)" for r using queue_invD(4) [OF inv] that by (simp add: inv_rcpt_def)
  have ns: "r_status (g r) \<noteq> SENDING" if "r_message_id r = j_ID j" for r
    using stops_waitingD(3) [OF g(3) [of r]] that by (simp add: recovered_recipient_def split: if_split_asm)
  have pns: "projection (recipients_of d' (j_ID j)) \<noteq> SENDING"
  proof
    assume "projection (recipients_of d' (j_ID j)) = SENDING"
    from projection_SENDING [OF this] obtain r where "r_message_id (g r) = j_ID j" "r_status (g r) = SENDING" by (auto simp: recipients_of_def g(1))
    with ns gkey [of r] show False by (simp add: r_key_def)
  qed
  have active: "(a_id a0, r_id r) \<in> ar_keys d" if r: "r \<in> set (recipients d)" "r_message_id r = j_ID j" "r_status r = SENDING" for r
  proof -
    obtain a where a: "a \<in> set (attempts d)" "a_result a = IN_PROGRESS" "(a_id a, r_id r) \<in> ar_keys d" using ok [OF r(1)] r(3) by (auto simp: sending_ok_def)
    have "a_message_id a = a_message_id a0" using inv_keysD(5) [OF keys a(1) r(1) a(3)] r(2) a0(3) by simp
    with active_unique [OF inv a(1,2) a0(1,4)] a(3) show ?thesis by simp
  qed
  have claim: "g r = r \<and> claimable r \<or> r_status r = SENDING \<and> \<not> armed" if "claimable (g r)" "r \<in> set (recipients d)" for r
  proof -
    have "g r = ?e r" using stops_waitingD(4) [OF g(3) [of r]] that by blast
    with that ok [OF that(2)] show ?thesis by (auto simp: recovered_recipient_def claimable_def sending_ok_def split: if_split_asm)
  qed
  have own: "r_status (g r) \<noteq> SENDING \<and> (r_retry_at (g r) \<noteq> None \<longrightarrow> r_status (g r) = TEMP_FAILED \<and> r_retry_started_at (g r) \<noteq> None)
        \<and> (r_retry_automatic (g r) \<longrightarrow> r_retry_started_at (g r) \<noteq> None) \<and> (claimable (g r) \<longrightarrow> claimable r \<or> (a_id a0, r_id r) \<in> ar_keys d)"
    if r: "r \<in> set (recipients d)" "r_message_id r = j_ID j" for r
  proof -
    have "r_status (g r) = TEMP_FAILED \<and> r_retry_started_at (g r) \<noteq> None" if "r_retry_at (g r) \<noteq> None"
      using stops_waitingD(7) [OF g(3) [of r]] that ok [OF r(1)] by (auto simp: sending_ok_def recovered_recipient_def)
    moreover have "r_retry_started_at (g r) \<noteq> None" if "r_retry_automatic (g r)"
      using stops_waitingD(5,6) [OF g(3) [of r]] that ok [OF r(1)] by (auto simp: sending_ok_def)
    ultimately show ?thesis using ns r claim [OF _ r(1)] active [OF r] by blast
  qed
  have sure: "settled d' (?k ar)" if r: "r \<in> set (recipients d)" "r_message_id r = j_ID j" "claimable (g r)"
    and ar: "ar \<in> set (attempt_recipients d)" "ar_recipient_id ar = r_id r" "ar_attempt_id ar = a_id a0" for r ar
  proof -
    have "(a_id a0, r_id r) \<in> ar_keys d" using ar by (force simp: ar_key_def)
    then have "r_status r = SENDING \<or> r_status r = SUPPRESSED" using ok [OF r(1)] a0 by (auto simp: sending_ok_def)
    with claim [OF r(3,1)] ok [OF r(1)] have "\<not> armed" by (auto simp: claimable_def sending_ok_def)
    moreover have "ar_decision ar = None" using queue_invD(5) [OF inv] a0(1,4) ar unfolding inv_gate_def by blast
    ultimately show ?thesis using ar(3) a0(2) by (simp add: settled_def uncertain_def)
  qed
  have att: "attempts d' = map ?h (attempts d)" and ars: "attempt_recipients d' = map ?k (attempt_recipients d)" by (simp_all add: t(1,2) update_where_def)
  note step = closing_step [OF inv a0(1,4,3) att _ _ _ _ ars _ _ u(1,2,3) _ g(1) gkey _ own sure t(3)]
  have "queue_inv d'" "keeps_keys d d'" "\<And>x. unlocked d x \<Longrightarrow> unlocked d' x"
    by (rule step; (use a0(2) pns u(4) g(2) in \<open>auto simp: lost_attempt_def a_key_def ar_key_def\<close>))+
  moreover have "list_all2 keeps_facts (recipients d) (recipients d')" unfolding g(1)
  proof (rule facts.rows_map)
    fix r
    have "keeps_facts r (?e r)" by (auto simp: keeps_facts_def recovered_recipient_def r_key_def finished_statuses_def)
    from facts.row_trans [OF this stops_waitingD(2) [OF g(3) [of r]]] show "keeps_facts r (g r)" .
  qed
  ultimately show "good_step d d'" using t(3) by (simp add: good_step_def)
  show "lease_of d' x" if "lease_of d x" "j_AttemptID (fst x) \<noteq> j_AttemptID j" for x
    using that by (force simp: lease_of_def att split_beta)
qed

lemma recover_fold_good:
  assumes "queue_inv d" and "distinct (map (\<lambda>x. j_AttemptID (fst x)) js)" and "\<forall>x \<in> set js. lease_of d x"
  shows "good_step d (fold (recover_one E) js d)"
  using assms
proof (induction js arbitrary: d)
  case Nil
  then show ?case by (simp add: good_step_refl)
next
  case (Cons x js)
  obtain j armed where x: "x = (j, armed)" by fastforce
  have "lease_of d (j, armed)" using Cons.prems(3) x by simp
  note one = recover_one_good [OF Cons.prems(1) this, where E = E, OF refl]
  have "\<forall>y \<in> set js. lease_of (recover_one E x d) y"
  proof
    fix y assume y: "y \<in> set js"
    have "j_AttemptID (fst y) \<noteq> j_AttemptID j" using Cons.prems(2) y x by (auto simp: image_iff)
    with one(2) [of y] Cons.prems(3) y x show "lease_of (recover_one E x d) y" by simp
  qed
  with Cons one(1) x have "good_step (recover_one E x d) (fold (recover_one E) js (recover_one E x d))" by (simp add: good_step_def)
  with one(1) x show ?case by (auto intro: good_step_trans)
qed

lemma expired_leases_mem:
  assumes "(m, a) \<in> set (expired_leases E d)"
  shows "m \<in> set (messages d)" "a \<in> set (attempts d)" "a_message_id a = m_id m" "a_result a = IN_PROGRESS" "m_status m = SENDING" "null_le (m_lease_expires_at m) (clk E 0)"
  using order_limit_mem [OF assms [unfolded expired_leases_def]] by auto

lemma expired_leases_distinct:
  assumes "queue_inv d"
  shows "distinct (map (\<lambda>x. a_id (snd x)) (expired_leases E d))"
proof -
  note keys = queue_invD(1) [OF assms]
  have "distinct (messages d)" "distinct (attempts d)" using keys by (auto simp: inv_keys_def distinct_map)
  then have "distinct (expired_leases E d)" by (simp add: expired_leases_def order_limit_def distinct_product distinct_sort)
  moreover have "inj_on (\<lambda>x. a_id (snd x)) (set (expired_leases E d))"
  proof (rule inj_onI)
    fix x y assume xy: "x \<in> set (expired_leases E d)" "y \<in> set (expired_leases E d)" "a_id (snd x) = a_id (snd y)"
    note x = expired_leases_mem [of "fst x" "snd x", simplified, OF xy(1)] and y = expired_leases_mem [of "fst y" "snd y", simplified, OF xy(2)]
    have "snd x = snd y" using inv_keysD(3) [OF keys x(2) y(2) xy(3)] .
    moreover have "fst x = fst y" using inv_keysD(1) [OF keys x(1) y(1)] x(3) y(3) \<open>snd x = snd y\<close> by simp
    ultimately show "x = y" by (simp add: prod_eq_iff)
  qed
  ultimately show ?thesis by (simp add: distinct_map)
qed

lemma Recover_good:
  assumes "queue_inv d" and "Recover E d = Inr (u, d')"
  shows "good_step d d'"
proof -
  let ?js = "map (\<lambda>(m, a). (bare_job (m_id m) (coalesce (m_locked_by m) []) (a_id a), a_data_armed_at a \<noteq> None)) (expired_leases E d)"
  have "d' = fold (recover_one E) ?js d" using assms(2) by (simp add: Recover_def)
  moreover have "distinct (map (\<lambda>x. j_AttemptID (fst x)) ?js)"
    using expired_leases_distinct [OF assms(1)] by (simp add: comp_def split_beta bare_job_def)
  moreover have "\<forall>x \<in> set ?js. lease_of d x"
  proof
    fix x assume "x \<in> set ?js"
    then obtain m a where ma: "(m, a) \<in> set (expired_leases E d)" "x = (bare_job (m_id m) (coalesce (m_locked_by m) []) (a_id a), a_data_armed_at a \<noteq> None)" by auto
    with expired_leases_mem [OF ma(1)] show "lease_of d x" by (auto simp: lease_of_def bare_job_def)
  qed
  ultimately show ?thesis using recover_fold_good [OF assms(1)] by blast
qed

end
