(* ===== verification/Queue_Finishing.thy ===== *)
theory Queue_Finishing
  imports Queue_Closing
begin

text \<open>
  The end of an attempt by its worker keeps the invariant. The loop over the results touches the rows of each recipient once; what
  it leaves behind for one recipient is the predicate \<open>rcpt_done\<close>.
\<close>

subsection \<open>One result\<close>

text \<open>
  The row \<open>r\<close> of a recipient becomes \<open>r'\<close> with the recorded decision \<open>raw\<close>: it was suppressed at the gate, its envelope
  is resumed after the gate stopped the attempt, or the policy decided on its evidence.
\<close>

definition rcpt_done :: "repo \<Rightarrow> job \<Rightarrow> result \<Rightarrow> bool \<Rightarrow> recipient_result \<Rightarrow> rcpt \<Rightarrow> rcpt \<Rightarrow> json \<Rightarrow> bool" where
  "rcpt_done R j out policy rc r r' raw \<longleftrightarrow>
     (policy \<and> r_status r = SUPPRESSED \<and> r' = r \<and> r_decision r = Some raw)
   \<or> (policy \<and> r_status r \<noteq> SUPPRESSED \<and> rr_Status rc \<notin> {SMTP_ACCEPTED, DELIVERY_UNKNOWN} \<and>
      (\<exists>started. r_retry_started_at r = Some started \<and>
         r' = resumed_recipient (fst (resume_decision out (r_attempt_count r) started)) (snd (resume_decision out (r_attempt_count r) started))
               (reported_recipient out rc r)
         \<and> raw = decision_json (snd (resume_decision out (r_attempt_count r) started))))
   \<or> ((policy \<longrightarrow> r_status r \<noteq> SUPPRESSED) \<and> (\<exists>started. r_retry_started_at r = Some started \<and>
        (let dec = Decide (rcpt_evidence out rc) (rcpt_budget j out (rr_ID rc) (r_attempt_count r) started) in
         r' = decided_recipient R out dec (if r_status r = SUPPRESSED then r else reported_recipient out rc r) \<and> raw = decision_json dec)))"

lemma update_where_unique:
  assumes "\<And>x. x \<in> set rows \<Longrightarrow> p x \<Longrightarrow> x = r"
  shows "update_where p f rows = update_where p (\<lambda>_. f r) rows"
  unfolding update_where_def using assms by auto

lemma query_row_unique:
  assumes "query_row p rows = Inr x" and "\<And>y. y \<in> set rows \<Longrightarrow> p y \<Longrightarrow> y = r"
  shows "x = r"
  using query_row_Inr [OF assms(1)] assms(2) by blast

lemma scan_time_Inr [simp]: "scan_time x = Inr t \<longleftrightarrow> x = Some t"
  by (simp add: scan_time_def split: option.split)

lemma reported_recipient_simps [simp]:
  "r_key (reported_recipient out rc r) = r_key r" "r_id (reported_recipient out rc r) = r_id r" "r_status (reported_recipient out rc r) = rr_Status rc"
  "r_attempt_count (reported_recipient out rc r) = r_attempt_count r" "r_retry_started_at (reported_recipient out rc r) = r_retry_started_at r"
  "r_retry_automatic (reported_recipient out rc r) = r_retry_automatic r" "r_message_id (reported_recipient out rc r) = r_message_id r"
  by (simp_all add: reported_recipient_def r_key_def)

lemma decided_recipient_simps [simp]:
  "r_key (decided_recipient R out dec r) = r_key r" "r_id (decided_recipient R out dec r) = r_id r"
  "r_attempt_count (decided_recipient R out dec r) = r_attempt_count r" "r_retry_started_at (decided_recipient R out dec r) = r_retry_started_at r"
  "r_retry_automatic (decided_recipient R out dec r) = False" "r_retry_at (decided_recipient R out dec r) = retry_time R out dec"
  by (simp_all add: decided_recipient_def r_key_def)

lemma resumed_recipient_simps [simp]:
  "r_key (resumed_recipient st dec r) = r_key r" "r_id (resumed_recipient st dec r) = r_id r" "r_status (resumed_recipient st dec r) = st"
  "r_attempt_count (resumed_recipient st dec r) = r_attempt_count r" "r_retry_started_at (resumed_recipient st dec r) = r_retry_started_at r"
  "r_retry_automatic (resumed_recipient st dec r) = r_retry_automatic r" "r_retry_at (resumed_recipient st dec r) = None"
  by (simp_all add: resumed_recipient_def r_key_def)

lemma rcpt_done_key: "rcpt_done R j out policy rc r r' raw \<Longrightarrow> r_key r' = r_key r"
  by (auto simp: rcpt_done_def Let_def)

text \<open>The tables after a decision is recorded, and after a recipient was handled at the gate.\<close>

lemma decideRecipient_tables:
  assumes "decideRecipient R j out rc d = Inr d'" and uniq: "\<And>x. x \<in> set (recipients d) \<Longrightarrow> r_id x = rr_ID rc \<Longrightarrow> x = r"
  obtains started where "r_retry_started_at r = Some started"
    and "recipients d' = update_where (\<lambda>x. r_id x = rr_ID rc)
           (\<lambda>_. decided_recipient R out (Decide (rcpt_evidence out rc) (rcpt_budget j out (rr_ID rc) (r_attempt_count r) started)) r) (recipients d)"
    and "attempt_recipients d' = update_where (\<lambda>ar. ar_key ar = (j_AttemptID j, rr_ID rc))
           (decided_attempt_rcpt (decision_json (Decide (rcpt_evidence out rc) (rcpt_budget j out (rr_ID rc) (r_attempt_count r) started))) (rr_Stage rc)) (attempt_recipients d)"
    and "messages d' = messages d" "attempts d' = attempts d" "keeps_events d d'"
proof -
  from assms(1) obtain x started where x: "query_row (\<lambda>r. r_id r = rr_ID rc) (recipients d) = Inr x" "r_retry_started_at x = Some started"
    and d': "d' = (let b = rcpt_budget j out (rr_ID rc) (r_attempt_count x) started; dec = Decide (rcpt_evidence out rc) b;
         d1 = upd_recipients (\<lambda>r. r_id r = rr_ID rc) (decided_recipient R out dec) d;
         d2 = upd_attempt_rcpts (\<lambda>ar. ar_attempt_id ar = j_AttemptID j \<and> ar_recipient_id ar = rr_ID rc) (decided_attempt_rcpt (decision_json dec) (rr_Stage rc)) d1
     in decided_event R j out rc b dec d2)"
    by (auto simp: decideRecipient_def bind_res_Inr_iff Let_def)
  have xr: "x = r" using query_row_unique [OF x(1) uniq] by blast
  let ?dec = "Decide (rcpt_evidence out rc) (rcpt_budget j out (rr_ID rc) (r_attempt_count r) started)"
  have "recipients d' = update_where (\<lambda>x. r_id x = rr_ID rc) (decided_recipient R out ?dec) (recipients d)"
    unfolding d' xr Let_def decided_event_def by simp
  moreover have "update_where (\<lambda>x. r_id x = rr_ID rc) (decided_recipient R out ?dec) (recipients d)
      = update_where (\<lambda>x. r_id x = rr_ID rc) (\<lambda>_. decided_recipient R out ?dec r) (recipients d)"
    by (rule update_where_unique) (rule uniq)
  ultimately have rec: "recipients d' = update_where (\<lambda>x. r_id x = rr_ID rc) (\<lambda>_. decided_recipient R out ?dec r) (recipients d)" by simp
  have rest: "attempt_recipients d' = update_where (\<lambda>ar. ar_key ar = (j_AttemptID j, rr_ID rc)) (decided_attempt_rcpt (decision_json ?dec) (rr_Stage rc)) (attempt_recipients d)"
    "messages d' = messages d" "attempts d' = attempts d" "keeps_events d d'"
    unfolding d' xr Let_def decided_event_def by (simp_all add: ar_key_def keeps_events_event)
  show thesis using x(2) xr by (intro that [OF _ rec rest]) simp
qed

lemma report_rcpt_tables [simp]:
  "recipients (report_rcpt j out rc d) = update_where (\<lambda>r. r_id r = rr_ID rc \<and> r_message_id r = j_ID j \<and> r_status r \<noteq> SUPPRESSED) (reported_recipient out rc) (recipients d)"
  "attempt_recipients (report_rcpt j out rc d) = update_where (\<lambda>ar. ar_key ar = (j_AttemptID j, rr_ID rc)) (reported_attempt_rcpt rc) (attempt_recipients d)"
  "messages (report_rcpt j out rc d) = messages d" "attempts (report_rcpt j out rc d) = attempts d" "events (report_rcpt j out rc d) = events d"
  by (simp_all add: report_rcpt_def ar_key_def)

lemma suppression_handled_tables [simp]:
  "recipients (suppression_handled j out rc raw d) = recipients d" "messages (suppression_handled j out rc raw d) = messages d"
  "attempts (suppression_handled j out rc raw d) = attempts d"
  "attempt_recipients (suppression_handled j out rc raw d) = update_where (\<lambda>ar. ar_key ar = (j_AttemptID j, rr_ID rc)) (decided_attempt_rcpt raw (rr_Stage rc)) (attempt_recipients d)"
  by (simp_all add: suppression_handled_def ar_key_def)

lemma keeps_events_handled: "keeps_events d (suppression_handled j out rc raw d)"
  by (auto simp: suppression_handled_def)

lemma update_where_const_unique:
  assumes "x \<in> set (update_where (\<lambda>x. r_id x = i) (\<lambda>_. r1) rows)" and "r_id x = i"
  shows "x = r1"
  using assms by (auto simp: set_update_where split: if_split_asm)

lemma update_where_const_twice:
  "r_id r1 = i \<Longrightarrow> update_where (\<lambda>x. r_id x = i) (\<lambda>_. r2) (update_where (\<lambda>x. r_id x = i) (\<lambda>_. r1) rows) = update_where (\<lambda>x. r_id x = i) (\<lambda>_. r2) rows"
  by (simp add: update_where_def)

lemma report_rcpt_row:
  assumes uniq: "\<And>x. x \<in> set (recipients d) \<Longrightarrow> r_id x = rr_ID rc \<Longrightarrow> x = r" and "r_id r = rr_ID rc" "r_message_id r = j_ID j"
  shows "recipients (report_rcpt j out rc d) = update_where (\<lambda>x. r_id x = rr_ID rc) (\<lambda>_. if r_status r = SUPPRESSED then r else reported_recipient out rc r) (recipients d)"
  unfolding report_rcpt_tables update_where_def
proof (rule map_cong [OF refl])
  fix x assume x: "x \<in> set (recipients d)"
  show "(if r_id x = rr_ID rc \<and> r_message_id x = j_ID j \<and> r_status x \<noteq> SUPPRESSED then reported_recipient out rc x else x)
      = (if r_id x = rr_ID rc then if r_status r = SUPPRESSED then r else reported_recipient out rc r else x)"
    using uniq [OF x] assms(2,3) by (cases "r_id x = rr_ID rc") simp_all
qed

text \<open>Handling at the gate, on the row as the report left it.\<close>

lemma finishSuppression_Inr:
  assumes fin: "finishSuppression j out rc d = Inr (handled, d')" and uniq: "\<And>x. x \<in> set (recipients d) \<Longrightarrow> r_id x = rr_ID rc \<Longrightarrow> x = r"
  shows "rr_Status rc \<noteq> SMTP_ACCEPTED \<and> rr_Status rc \<noteq> DELIVERY_UNKNOWN"
    and "handled \<Longrightarrow> \<exists>r' raw. d' = suppression_handled j out rc raw (d\<lparr>recipients := update_where (\<lambda>x. r_id x = rr_ID rc) (\<lambda>_. r') (recipients d)\<rparr>)
          \<and> (r_status r = SUPPRESSED \<and> r' = r \<and> r_decision r = Some raw
             \<or> r_status r \<noteq> SUPPRESSED \<and> (\<exists>started. r_retry_started_at r = Some started
                 \<and> r' = resumed_recipient (fst (resume_decision out (r_attempt_count r) started)) (snd (resume_decision out (r_attempt_count r) started)) r
                 \<and> raw = decision_json (snd (resume_decision out (r_attempt_count r) started))))"
    and "\<not> handled \<Longrightarrow> d' = d \<and> r_status r \<noteq> SUPPRESSED"
proof -
  from fin show "rr_Status rc \<noteq> SMTP_ACCEPTED \<and> rr_Status rc \<noteq> DELIVERY_UNKNOWN" by (auto simp: finishSuppression_def bind_res_Inr_iff)
  from fin obtain x started where x: "query_row (\<lambda>r. r_id r = rr_ID rc) (recipients d) = Inr x" "r_retry_started_at x = Some started"
    and rest: "(if r_status x = SUPPRESSED then
       (case r_decision x of None \<Rightarrow> Inl ErrConstraint | Some raw \<Rightarrow> Inr (True, suppression_handled j out rc raw d))
     else if rr_Stage rc \<noteq> ''SUPPRESSION_BLOCKED'' \<and> rr_Stage rc \<noteq> ''DATABASE_ERROR'' then Inr (False, d)
     else
       let (st, dec) = resume_decision out (r_attempt_count x) started
       in Inr (True, suppression_handled j out rc (decision_json dec) (upd_recipients (\<lambda>r. r_id r = rr_ID rc) (resumed_recipient st dec) d))) = Inr (handled, d')"
    by (auto simp: finishSuppression_def bind_res_Inr_iff)
  have xr: "x = r" using query_row_unique [OF x(1) uniq] by blast
  have same: "d\<lparr>recipients := update_where (\<lambda>x. r_id x = rr_ID rc) (\<lambda>_. r) (recipients d)\<rparr> = d"
  proof -
    have "update_where (\<lambda>x. r_id x = rr_ID rc) (\<lambda>_. r) (recipients d) = recipients d" unfolding update_where_def using uniq by (intro map_idI) auto
    then show ?thesis by simp
  qed
  show "\<not> handled \<Longrightarrow> d' = d \<and> r_status r \<noteq> SUPPRESSED" using rest unfolding xr by (auto simp: split_beta split: if_split_asm option.split_asm)
  let ?rd = "resume_decision out (r_attempt_count r) started"
  assume handled
  show "\<exists>r' raw. d' = suppression_handled j out rc raw (d\<lparr>recipients := update_where (\<lambda>x. r_id x = rr_ID rc) (\<lambda>_. r') (recipients d)\<rparr>)
          \<and> (r_status r = SUPPRESSED \<and> r' = r \<and> r_decision r = Some raw
             \<or> r_status r \<noteq> SUPPRESSED \<and> (\<exists>started. r_retry_started_at r = Some started
                 \<and> r' = resumed_recipient (fst (resume_decision out (r_attempt_count r) started)) (snd (resume_decision out (r_attempt_count r) started)) r
                 \<and> raw = decision_json (snd (resume_decision out (r_attempt_count r) started))))"
  proof (cases "r_status r = SUPPRESSED")
    case True
    then obtain raw where "r_decision r = Some raw" "d' = suppression_handled j out rc raw d"
      using rest unfolding xr by (auto split: option.split_asm)
    with True same show ?thesis by (intro exI [of _ r] exI [of _ raw]) simp
  next
    case False
    then have "d' = suppression_handled j out rc (decision_json (snd ?rd)) (upd_recipients (\<lambda>r. r_id r = rr_ID rc) (resumed_recipient (fst ?rd) (snd ?rd)) d)"
      using rest \<open>handled\<close> unfolding xr by (auto simp: split_beta split: if_split_asm)
    then have "d' = suppression_handled j out rc (decision_json (snd ?rd)) (d\<lparr>recipients := update_where (\<lambda>x. r_id x = rr_ID rc) (\<lambda>_. resumed_recipient (fst ?rd) (snd ?rd) r) (recipients d)\<rparr>)"
      using update_where_unique [of "recipients d" "\<lambda>x. r_id x = rr_ID rc" r "resumed_recipient (fst ?rd) (snd ?rd)", OF uniq] by simp
    with False x(2) xr show ?thesis by blast
  qed
qed

text \<open>One turn of the loop.\<close>

definition rcpt_written :: "job \<Rightarrow> recipient_result \<Rightarrow> rcpt \<Rightarrow> json \<Rightarrow> db \<Rightarrow> db \<Rightarrow> bool" where
  "rcpt_written j rc r' raw d d' \<longleftrightarrow>
     recipients d' = update_where (\<lambda>x. r_id x = rr_ID rc) (\<lambda>_. r') (recipients d)
     \<and> attempt_recipients d' = update_where (\<lambda>ar. ar_key ar = (j_AttemptID j, rr_ID rc))
         (\<lambda>ar. decided_attempt_rcpt raw (rr_Stage rc) (reported_attempt_rcpt rc ar)) (attempt_recipients d)
     \<and> messages d' = messages d \<and> attempts d' = attempts d \<and> keeps_events d d'"

lemma reported_attempt_rcpt_simps [simp]:
  "ar_key (reported_attempt_rcpt rc ar) = ar_key ar" "ar_key (decided_attempt_rcpt raw stage ar) = ar_key ar"
  "ar_status (reported_attempt_rcpt rc ar) = rr_Status rc" "ar_status (decided_attempt_rcpt raw stage ar) = ar_status ar"
  "ar_decision (decided_attempt_rcpt raw stage ar) = Some raw"
  by (simp_all add: reported_attempt_rcpt_def decided_attempt_rcpt_def ar_key_def)

lemma finish_rcpt_Inr:
  assumes fin: "finish_rcpt R j out policy expiry rc (expected, d) = Inr (expected', d')"
    and uniq: "\<And>x. x \<in> set (recipients d) \<Longrightarrow> r_id x = rr_ID rc \<Longrightarrow> x = r" and r: "r_id r = rr_ID rc" "r_message_id r = j_ID j"
  obtains r' raw where "rr_ID rc \<in> expected" "expected' = expected - {rr_ID rc}" "rr_Status rc \<in> {SMTP_ACCEPTED, TEMP_FAILED, PERM_FAILED, DELIVERY_UNKNOWN}"
    and "rcpt_written j rc r' raw d d'" and "rcpt_done R j out policy rc r r' raw"
proof -
  let ?d1 = "report_rcpt j out rc d"
  let ?r1 = "if r_status r = SUPPRESSED then r else reported_recipient out rc r"
  from fin obtain handled d2 where e: "rr_ID rc \<in> expected" "expected' = expected - {rr_ID rc}"
    "rr_Status rc \<in> {SMTP_ACCEPTED, TEMP_FAILED, PERM_FAILED, DELIVERY_UNKNOWN}"
    and h: "(if policy then finishSuppression j out rc ?d1 else Inr (False, ?d1)) = Inr (handled, d2)"
    and dec: "(if handled then Inr d2 else decideRecipient R j out rc d2) = Inr d'"
    unfolding finish_rcpt_def by (auto simp: bind_res_Inr_iff Let_def)
  have rows: "recipients ?d1 = update_where (\<lambda>x. r_id x = rr_ID rc) (\<lambda>_. ?r1) (recipients d)" using report_rcpt_row [OF uniq r] by blast
  have uniq1: "x = ?r1" if "x \<in> set (recipients ?d1)" "r_id x = rr_ID rc" for x
    using that unfolding rows by (rule update_where_const_unique)
  have id1: "r_id ?r1 = rr_ID rc" using r(1) by simp
  have ev: "keeps_events d ?d1" by (simp add: keeps_events_def)
  show thesis
  proof (cases handled)
    case True
    then have pol: policy and f: "finishSuppression j out rc ?d1 = Inr (True, d2)" and d': "d' = d2" using h dec by (simp_all split: if_split_asm)
    note fs = finishSuppression_Inr [OF f uniq1]
    from fs(2) obtain r' raw where r': "d2 = suppression_handled j out rc raw (?d1\<lparr>recipients := update_where (\<lambda>x. r_id x = rr_ID rc) (\<lambda>_. r') (recipients ?d1)\<rparr>)"
      and c: "r_status ?r1 = SUPPRESSED \<and> r' = ?r1 \<and> r_decision ?r1 = Some raw
             \<or> r_status ?r1 \<noteq> SUPPRESSED \<and> (\<exists>started. r_retry_started_at ?r1 = Some started
                 \<and> r' = resumed_recipient (fst (resume_decision out (r_attempt_count ?r1) started)) (snd (resume_decision out (r_attempt_count ?r1) started)) ?r1
                 \<and> raw = decision_json (snd (resume_decision out (r_attempt_count ?r1) started)))" by blast
    have "rcpt_done R j out policy rc r r' raw"
      using c pol fs(1) e(3) unfolding rcpt_done_def by (cases "r_status r = SUPPRESSED") auto
    moreover have "rcpt_written j rc r' raw d d'"
    proof -
      have "keeps_events d d'" unfolding d' r' using keeps_events_trans [OF _ keeps_events_handled] ev by simp
      then show ?thesis using id1 rows unfolding rcpt_written_def d' r'
        by (simp add: update_where_const_twice update_where_update_where)
    qed
    ultimately show thesis using that e by blast
  next
    case False
    then have d2: "d2 = ?d1" and sup: "policy \<longrightarrow> r_status ?r1 \<noteq> SUPPRESSED" and dec: "decideRecipient R j out rc ?d1 = Inr d'"
      using h dec finishSuppression_Inr(3) [of j out rc ?d1 handled d2 ?r1, OF _ uniq1] by (auto split: if_split_asm)
    obtain started where st: "r_retry_started_at ?r1 = Some started"
      and w: "recipients d' = update_where (\<lambda>x. r_id x = rr_ID rc)
           (\<lambda>_. decided_recipient R out (Decide (rcpt_evidence out rc) (rcpt_budget j out (rr_ID rc) (r_attempt_count ?r1) started)) ?r1) (recipients ?d1)"
        "attempt_recipients d' = update_where (\<lambda>ar. ar_key ar = (j_AttemptID j, rr_ID rc))
           (decided_attempt_rcpt (decision_json (Decide (rcpt_evidence out rc) (rcpt_budget j out (rr_ID rc) (r_attempt_count ?r1) started))) (rr_Stage rc)) (attempt_recipients ?d1)"
        "messages d' = messages ?d1" "attempts d' = attempts ?d1" "keeps_events ?d1 d'"
      by (rule decideRecipient_tables [OF dec uniq1])
    let ?dec = "Decide (rcpt_evidence out rc) (rcpt_budget j out (rr_ID rc) (r_attempt_count r) started)"
    have cnt: "r_attempt_count ?r1 = r_attempt_count r" "r_retry_started_at r = Some started" using st by (simp_all split: if_split_asm)
    have "rcpt_done R j out policy rc r (decided_recipient R out ?dec ?r1) (decision_json ?dec)"
      unfolding rcpt_done_def Let_def using cnt(2) sup by (intro disjI2) (auto split: if_split_asm)
    moreover have "rcpt_written j rc (decided_recipient R out ?dec ?r1) (decision_json ?dec) d d'"
      unfolding rcpt_written_def w cnt rows using id1 keeps_events_trans [OF ev w(5)]
      by (simp add: update_where_const_twice update_where_update_where)
    ultimately show thesis using that e by blast
  qed
qed

subsection \<open>The loop over the results\<close>

definition row_done :: "repo \<Rightarrow> job \<Rightarrow> result \<Rightarrow> bool \<Rightarrow> (rcpt \<Rightarrow> rcpt) \<Rightarrow> (attempt_rcpt \<Rightarrow> attempt_rcpt) \<Rightarrow> recipient_result \<Rightarrow> rcpt \<Rightarrow> bool" where
  "row_done R j out policy g k rc r \<longleftrightarrow> rr_Status rc \<in> {SMTP_ACCEPTED, TEMP_FAILED, PERM_FAILED, DELIVERY_UNKNOWN}
     \<and> (\<exists>raw. rcpt_done R j out policy rc r (g r) raw
         \<and> (\<forall>ar. ar_key ar = (j_AttemptID j, rr_ID rc) \<longrightarrow> k ar = decided_attempt_rcpt raw (rr_Stage rc) (reported_attempt_rcpt rc ar)))"

definition loop_done :: "repo \<Rightarrow> job \<Rightarrow> result \<Rightarrow> bool \<Rightarrow> recipient_result list \<Rightarrow> db \<Rightarrow> db \<Rightarrow> (rcpt \<Rightarrow> rcpt) \<Rightarrow> (attempt_rcpt \<Rightarrow> attempt_rcpt) \<Rightarrow> bool" where
  "loop_done R j out policy rcs d d' g k \<longleftrightarrow> recipients d' = map g (recipients d) \<and> attempt_recipients d' = map k (attempt_recipients d)
     \<and> messages d' = messages d \<and> attempts d' = attempts d \<and> keeps_events d d' \<and> (\<forall>r. r_key (g r) = r_key r) \<and> (\<forall>ar. ar_key (k ar) = ar_key ar)
     \<and> (\<forall>r. r_id r \<notin> rr_ID ` set rcs \<longrightarrow> g r = r) \<and> (\<forall>ar. ar_key ar \<notin> (\<lambda>rc. (j_AttemptID j, rr_ID rc)) ` set rcs \<longrightarrow> k ar = ar)
     \<and> (\<forall>rc \<in> set rcs. \<forall>r \<in> set (recipients d). r_id r = rr_ID rc \<longrightarrow> row_done R j out policy g k rc r)"

lemma map_update_unique:
  assumes "\<And>x. x \<in> set rows \<Longrightarrow> p x \<Longrightarrow> x = r" and "p r"
  shows "update_where p (\<lambda>_. r') rows = map (\<lambda>x. if x = r then r' else x) rows"
  unfolding update_where_def
proof (rule map_cong [OF refl])
  fix x assume "x \<in> set rows"
  with assms show "(if p x then r' else x) = (if x = r then r' else x)" by metis
qed

lemma loop_doneD:
  assumes "loop_done R j out policy rcs d d' g k"
  shows "recipients d' = map g (recipients d)" "attempt_recipients d' = map k (attempt_recipients d)" "messages d' = messages d" "attempts d' = attempts d"
    "keeps_events d d'" "r_key (g r) = r_key r" "r_id (g r) = r_id r" "ar_key (k ar) = ar_key ar" "r_id r \<notin> rr_ID ` set rcs \<Longrightarrow> g r = r"
    "ar_key ar \<notin> (\<lambda>rc. (j_AttemptID j, rr_ID rc)) ` set rcs \<Longrightarrow> k ar = ar"
    "rc \<in> set rcs \<Longrightarrow> r \<in> set (recipients d) \<Longrightarrow> r_id r = rr_ID rc \<Longrightarrow> row_done R j out policy g k rc r"
  using assms by (auto simp: loop_done_def r_key_def)

lemma loop_done_compose:
  assumes l1: "loop_done R j out policy [rc] d d1 g1 k1" and l2: "loop_done R j out policy rcs d1 d' g2 k2" and sub: "rr_ID rc \<notin> rr_ID ` set rcs"
  shows "loop_done R j out policy (rc # rcs) d d' (\<lambda>r. g2 (g1 r)) (\<lambda>ar. k2 (k1 ar))"
proof -
  note a1 = loop_doneD [OF l1] and a2 = loop_doneD [OF l2]
  have first: "row_done R j out policy (\<lambda>r. g2 (g1 r)) (\<lambda>ar. k2 (k1 ar)) rc r" if r: "r \<in> set (recipients d)" "r_id r = rr_ID rc" for r
  proof -
    have "g2 (g1 r) = g1 r" using a2(9) [of "g1 r"] sub r(2) a1(7) [of r] by simp
    moreover have "k2 (k1 ar) = k1 ar" if "ar_key ar = (j_AttemptID j, rr_ID rc)" for ar
      using a2(10) [of "k1 ar"] that a1(8) [of ar] sub by (simp add: image_iff)
    moreover have "row_done R j out policy g1 k1 rc r" using a1(11) r by simp
    ultimately show ?thesis unfolding row_done_def by metis
  qed
  have later: "row_done R j out policy (\<lambda>r. g2 (g1 r)) (\<lambda>ar. k2 (k1 ar)) x r" if x: "x \<in> set rcs" and r: "r \<in> set (recipients d)" "r_id r = rr_ID x" for x r
  proof -
    have ne: "rr_ID x \<noteq> rr_ID rc" using imageI [OF x, of rr_ID] sub by metis
    then have g: "g1 r = r" using a1(9) [of r] r(2) by simp
    have k: "k1 ar = ar" if "ar_key ar = (j_AttemptID j, rr_ID x)" for ar using that a1(10) [of ar] ne by simp
    have "r \<in> set (recipients d1)" using r(1) g by (metis a1(1) image_eqI list.set_map)
    with a2(11) [OF x this r(2)] g k show ?thesis unfolding row_done_def by metis
  qed
  show ?thesis
    unfolding loop_done_def
  proof (intro conjI allI impI ballI)
    show "recipients d' = map (\<lambda>r. g2 (g1 r)) (recipients d)" "attempt_recipients d' = map (\<lambda>ar. k2 (k1 ar)) (attempt_recipients d)"
      "messages d' = messages d" "attempts d' = attempts d" using a1(1-4) a2(1-4) by (simp_all add: comp_def)
    show "keeps_events d d'" using keeps_events_trans a1(5) a2(5) by blast
    show "r_key (g2 (g1 r)) = r_key r" for r using a1(6) a2(6) by simp
    show "ar_key (k2 (k1 ar)) = ar_key ar" for ar using a1(8) a2(8) by simp
    show "g2 (g1 r) = r" if "r_id r \<notin> rr_ID ` set (rc # rcs)" for r using that a1(9) [of r] a2(9) [of r] by simp
    show "k2 (k1 ar) = ar" if "ar_key ar \<notin> (\<lambda>rc. (j_AttemptID j, rr_ID rc)) ` set (rc # rcs)" for ar using that a1(10) [of ar] a2(10) [of ar] by simp
    show "row_done R j out policy (\<lambda>r. g2 (g1 r)) (\<lambda>ar. k2 (k1 ar)) x r" if "x \<in> set (rc # rcs)" "r \<in> set (recipients d)" "r_id r = rr_ID x" for x r
      using that first later by auto
  qed
qed

lemma finish_loop:
  assumes "fold_res (finish_rcpt R j out policy expiry) rcs (expected, d) = Inr (expected', d')" and "distinct (map r_id (recipients d))"
    and "\<forall>i \<in> expected. \<exists>r \<in> set (recipients d). r_id r = i \<and> r_message_id r = j_ID j"
  shows "distinct (map rr_ID rcs)" and "rr_ID ` set rcs \<subseteq> expected" and "\<exists>g k. loop_done R j out policy rcs d d' g k"
  using assms
proof (induction rcs arbitrary: expected d)
  case Nil
  { case 1 show ?case by simp }
  { case 2 show ?case by simp }
  { case 3
    then have "loop_done R j out policy [] d d' (\<lambda>r. r) (\<lambda>ar. ar)" by (simp add: loop_done_def)
    then show ?case by blast }
next
  case (Cons rc rcs)
  have step: "\<exists>d1. finish_rcpt R j out policy expiry rc (expected, d) = Inr (expected - {rr_ID rc}, d1)
      \<and> fold_res (finish_rcpt R j out policy expiry) rcs (expected - {rr_ID rc}, d1) = Inr (expected', d') \<and> rr_ID rc \<in> expected
      \<and> distinct (map r_id (recipients d1)) \<and> (\<forall>i \<in> expected - {rr_ID rc}. \<exists>r \<in> set (recipients d1). r_id r = i \<and> r_message_id r = j_ID j)
      \<and> (\<exists>g1 k1. loop_done R j out policy [rc] d d1 g1 k1)"
    if pre: "fold_res (finish_rcpt R j out policy expiry) (rc # rcs) (expected, d) = Inr (expected', d')" "distinct (map r_id (recipients d))"
      "\<forall>i \<in> expected. \<exists>r \<in> set (recipients d). r_id r = i \<and> r_message_id r = j_ID j" for expected d
  proof -
    from pre(1) obtain e1 d1 where f: "finish_rcpt R j out policy expiry rc (expected, d) = Inr (e1, d1)"
      "fold_res (finish_rcpt R j out policy expiry) rcs (e1, d1) = Inr (expected', d')" by (auto simp: bind_res_Inr_iff)
    have mem: "rr_ID rc \<in> expected" using f(1) by (auto simp: finish_rcpt_def bind_res_Inr_iff)
    obtain r where r: "r \<in> set (recipients d)" "r_id r = rr_ID rc" "r_message_id r = j_ID j" using pre(3) mem by auto
    have uniq: "x = r" if "x \<in> set (recipients d)" "r_id x = rr_ID rc" for x
      using that r pre(2) by (metis (mono_tags, lifting) distinct_map inj_onD)
    obtain r' raw where w: "e1 = expected - {rr_ID rc}" "rr_Status rc \<in> {SMTP_ACCEPTED, TEMP_FAILED, PERM_FAILED, DELIVERY_UNKNOWN}"
      "rcpt_written j rc r' raw d d1" "rcpt_done R j out policy rc r r' raw" by (rule finish_rcpt_Inr [OF f(1) uniq r(2,3)])
    let ?g = "\<lambda>x. if x = r then r' else x"
    let ?k = "\<lambda>ar. if ar_key ar = (j_AttemptID j, rr_ID rc) then decided_attempt_rcpt raw (rr_Stage rc) (reported_attempt_rcpt rc ar) else ar"
    have key: "r_key r' = r_key r" by (rule rcpt_done_key [OF w(4)])
    have rows: "recipients d1 = map ?g (recipients d)" using w(3) map_update_unique [of "recipients d" "\<lambda>x. r_id x = rr_ID rc" r r', OF uniq r(2)] by (simp add: rcpt_written_def)
    have gid: "map r_key (map ?g (recipients d)) = map r_key (recipients d)" using key by simp
    then have keys: "map r_key (recipients d1) = map r_key (recipients d)" by (simp only: rows)
    have "loop_done R j out policy [rc] d d1 ?g ?k"
      unfolding loop_done_def
    proof (intro conjI allI impI ballI)
      show "recipients d1 = map ?g (recipients d)" by (rule rows)
      show "attempt_recipients d1 = map ?k (attempt_recipients d)" "messages d1 = messages d" "attempts d1 = attempts d" "keeps_events d d1"
        using w(3) by (simp_all add: rcpt_written_def update_where_def)
      show "r_key (?g x) = r_key x" for x using key by simp
      show "ar_key (?k ar) = ar_key ar" for ar by simp
      show "?g x = x" if "r_id x \<notin> rr_ID ` set [rc]" for x using that r(2) by auto
      show "?k ar = ar" if "ar_key ar \<notin> (\<lambda>rc. (j_AttemptID j, rr_ID rc)) ` set [rc]" for ar using that by simp
      fix y x assume "y \<in> set [rc]" "x \<in> set (recipients d)" "r_id x = rr_ID y"
      then have "y = rc" "x = r" using uniq by simp_all
      with w(2,4) show "row_done R j out policy ?g ?k y x" unfolding row_done_def by auto
    qed
    moreover have "distinct (map r_id (recipients d1))"
    proof -
      have "map r_id (recipients d1) = map fst (map r_key (recipients d1))" by (simp add: r_key_def comp_def)
      also have "\<dots> = map r_id (recipients d)" unfolding keys by (simp add: r_key_def comp_def)
      finally show ?thesis using pre(2) by simp
    qed
    moreover have "\<exists>x \<in> set (recipients d1). r_id x = i \<and> r_message_id x = j_ID j" if i: "i \<in> expected" for i
    proof -
      obtain x where x: "x \<in> set (recipients d)" "r_id x = i" "r_message_id x = j_ID j" using pre(3) i by auto
      have "r_key (?g x) = r_key x" using key by simp
      then show ?thesis using x unfolding rows by (intro bexI [of _ "?g x"]) (simp_all add: r_key_def split: if_split_asm)
    qed
    ultimately show ?thesis using f w(1) mem by blast
  qed
  { case 1
    from step [OF 1] Cons.IH(1,2) show ?case by fastforce }
  { case 2
    from step [OF 2] Cons.IH(2) show ?case by fastforce }
  { case 3
    from step [OF 3] obtain d1 g1 k1 where d1: "fold_res (finish_rcpt R j out policy expiry) rcs (expected - {rr_ID rc}, d1) = Inr (expected', d')"
      "distinct (map r_id (recipients d1))" "\<forall>i \<in> expected - {rr_ID rc}. \<exists>r \<in> set (recipients d1). r_id r = i \<and> r_message_id r = j_ID j"
      and l1: "loop_done R j out policy [rc] d d1 g1 k1" by blast
    obtain g2 k2 where l2: "loop_done R j out policy rcs d1 d' g2 k2" using Cons.IH(3) [OF d1] by blast
    have sub: "rr_ID ` set rcs \<subseteq> expected - {rr_ID rc}" using Cons.IH(2) [OF d1] .
    have "loop_done R j out policy (rc # rcs) d d' (\<lambda>r. g2 (g1 r)) (\<lambda>ar. k2 (k1 ar))" using loop_done_compose [OF l1 l2] sub by blast
    then show ?case by blast }
qed

end
