(* ===== verification/Queue_Finished.thy ===== *)
theory Queue_Finished
  imports Queue_Finishing
begin

text \<open>
  Finish as a whole: the circuit breaker and the closing statements touch no recipient's evidence, and the loop's rows satisfy
  the invariant because a decision to retry excludes delivery.
\<close>

subsection \<open>The closing statements\<close>

lemma finishHealth_tables:
  assumes "finishHealth R E j out d = Inr d'"
  shows "attempts d' = update_where (\<lambda>a. a_id a = j_AttemptID j) (health_sampled (clk E 10) (ProviderOutcome (attempt_evidence out))) (attempts d)"
    and "messages d' = messages d" "recipients d' = recipients d" "attempt_recipients d' = attempt_recipients d" "keeps_events d d'"
proof -
  let ?sampled = "upd_attempts (\<lambda>a. a_id a = j_AttemptID j) (health_sampled (clk E 10) (ProviderOutcome (attempt_evidence out))) d"
  let ?d1 = "ensure_health (p_ID (j_Provider j)) ?sampled"
  have d1: "attempts ?d1 = attempts ?sampled" "messages ?d1 = messages d" "recipients ?d1 = recipients d" "attempt_recipients ?d1 = attempt_recipients d"
    "events ?d1 = events d" by (simp_all add: ensure_health_def)
  from assms obtain hs hs' nxt h where d': "d' = ?d1\<lparr>provider_health := hs\<rparr>
      \<or> d' = event j (''PROVIDER_CIRCUIT_'' @ circuit_text nxt) [] (host E) h (?d1\<lparr>provider_health := hs'\<rparr>)"
    unfolding finishHealth_def Let_def bind_res_Inr_iff
    by (elim exE conjE) (simp split: if_split_asm; blast)
  then show "attempts d' = update_where (\<lambda>a. a_id a = j_AttemptID j) (health_sampled (clk E 10) (ProviderOutcome (attempt_evidence out))) (attempts d)"
    "messages d' = messages d" "recipients d' = recipients d" "attempt_recipients d' = attempt_recipients d"
    using d1 by auto
  have "keeps_events d ?d1" by (simp add: keeps_events_def d1)
  with d' show "keeps_events d d'" by auto
qed

subsection \<open>What a result may claim\<close>

text \<open>
  The worker's result is final, and a recipient whose evidence the policy would retry is reported as a temporary failure. The
  SMTP client's results are of this form.
\<close>

definition sane_result :: "result \<Rightarrow> bool" where
  "sane_result out \<longleftrightarrow> o_Status out \<noteq> IN_PROGRESS
     \<and> (\<forall>rc \<in> set (o_Recipients out). \<forall>b. d_Action (Decide (rcpt_evidence out rc) b) = Retry \<longrightarrow> rr_Status rc = TEMP_FAILED)"

text \<open>The job names a row of the attempts, and its recipients are exactly those of the attempt.\<close>

definition job_of :: "db \<Rightarrow> job \<Rightarrow> bool" where
  "job_of d j \<longleftrightarrow> (\<exists>a \<in> set (attempts d). a_id a = j_AttemptID j \<and> a_message_id a = j_ID j \<and> a_claim_token a = j_Token j
       \<and> a_provider_id a = p_ID (j_Provider j))
     \<and> (\<forall>rid. (j_AttemptID j, rid) \<in> ar_keys d \<longleftrightarrow> rid \<in> rc_ID ` set (j_Recipients j)) \<and> distinct (map rc_ID (j_Recipients j))"

lemma job_of_keys: "keeps_keys d d' \<Longrightarrow> job_of d' j = job_of d j"
proof -
  assume k: "keeps_keys d d'"
  have *: "(\<exists>a \<in> set (attempts e). a_id a = x \<and> a_message_id a = y \<and> a_claim_token a = z \<and> a_provider_id a = w)
      \<longleftrightarrow> (\<exists>n. (x, y, n, z, w) \<in> set (map a_key (attempts e)))" for e x y z w
    by (auto simp: a_key_def)
  show ?thesis using k unfolding job_of_def * keeps_keys_ar_keys [OF k] by (simp add: keeps_keys_def)
qed

lemma decision_json_delivered [simp]: "json_is_bool (decision_json dec) ''may_have_delivered'' True \<longleftrightarrow> d_MayHaveDelivered dec"
  by (simp add: decision_json_def json_is_bool_def)

lemma rcpt_done_sure:
  assumes don: "rcpt_done R j out policy rc r r' raw" and st: "rr_Status rc \<in> {SMTP_ACCEPTED, TEMP_FAILED, PERM_FAILED, DELIVERY_UNKNOWN}"
    and sane: "\<forall>b. d_Action (Decide (rcpt_evidence out rc) b) = Retry \<longrightarrow> rr_Status rc = TEMP_FAILED"
    and r: "r_status r = SENDING \<or> r_status r = SUPPRESSED \<and> policy" "r_retry_at r = None"
  shows "r_status r' \<noteq> SENDING" and "r_retry_at r' \<noteq> None \<Longrightarrow> r_status r' = TEMP_FAILED" and "r_retry_started_at r' = r_retry_started_at r"
    and "claimable r' \<Longrightarrow> \<not> uncertain (decided_attempt_rcpt raw stage (reported_attempt_rcpt rc ar))" and "keeps_facts r r'"
proof -
  let ?out = "r_status r' \<noteq> SENDING \<and> (r_retry_at r' \<noteq> None \<longrightarrow> r_status r' = TEMP_FAILED) \<and> r_retry_started_at r' = r_retry_started_at r
    \<and> (claimable r' \<longrightarrow> \<not> uncertain (decided_attempt_rcpt raw stage (reported_attempt_rcpt rc ar))) \<and> keeps_facts r r'"
  consider (gate) "r_status r = SUPPRESSED" "r' = r"
    | (resume) started where "r_status r = SENDING" "rr_Status rc \<notin> {SMTP_ACCEPTED, DELIVERY_UNKNOWN}"
        "r' = resumed_recipient (fst (resume_decision out (r_attempt_count r) started)) (snd (resume_decision out (r_attempt_count r) started)) (reported_recipient out rc r)"
        "raw = decision_json (snd (resume_decision out (r_attempt_count r) started))"
    | (policy) b where "r_status r = SENDING" "r' = decided_recipient R out (Decide (rcpt_evidence out rc) b) (reported_recipient out rc r)"
        "raw = decision_json (Decide (rcpt_evidence out rc) b)"
    using don r unfolding rcpt_done_def Let_def by (elim disjE conjE exE) auto
  then have ?out
  proof cases
    case gate
    then show ?thesis using r(2) by (simp add: claimable_def keeps_facts_def)
  next
    case (resume started)
    then show ?thesis
      by (auto simp: resumed_recipient_def reported_recipient_def resume_decision_def policy_decision_def keeps_facts_def r_key_def finished_statuses_def
          uncertain_def claimable_def)
  next
    case (policy b)
    have retry: "rr_Status rc = TEMP_FAILED" "\<not> d_MayHaveDelivered (Decide (rcpt_evidence out rc) b)" if "d_Action (Decide (rcpt_evidence out rc) b) = Retry"
      using sane that Decide_shape(4) [of "rcpt_evidence out rc" b] that by auto
    then show ?thesis using policy(1) st unfolding policy(2,3)
      by (auto simp: decided_recipient_def reported_recipient_def retry_time_def keeps_facts_def r_key_def finished_statuses_def uncertain_def claimable_def
          split: if_split_asm)
  qed
  then show "r_status r' \<noteq> SENDING" and "r_retry_at r' \<noteq> None \<Longrightarrow> r_status r' = TEMP_FAILED" and "r_retry_started_at r' = r_retry_started_at r"
    and "claimable r' \<Longrightarrow> \<not> uncertain (decided_attempt_rcpt raw stage (reported_attempt_rcpt rc ar))" and "keeps_facts r r'"
    by blast+
qed

subsection \<open>Finish\<close>

lemma finish_close_tables:
  assumes "finish_close R E j out d = Inr d'"
  shows "attempts d' = update_where (\<lambda>a. a_id a = j_AttemptID j) (health_sampled (clk E 10) (ProviderOutcome (attempt_evidence out))) (attempts d)"
    and "attempt_recipients d' = attempt_recipients d" and "keeps_events d d'"
    and "\<exists>e. recipients d' = map e (recipients d) \<and> (\<forall>r. stops_waiting r (e r) \<and> (r_message_id r \<noteq> j_ID j \<longrightarrow> e r = r))"
    and "\<exists>u. messages d' = update_where (\<lambda>m. m_id m = j_ID j) u (messages d)
          \<and> (\<forall>m. m_key (u m) = m_key m \<and> m_locked_by (u m) = None \<and> m_status (u m) = projection (recipients_of d' (j_ID j)))"
proof -
  from assms obtain d1 d2 d3 where d1: "fold_res (recordEvent j) (o_Events out) d = Inr d1"
    and d2: "d2 = upd_messages (\<lambda>m. m_id m = j_ID j) (release_lease (o_ErrorClass out)) (event j (finish_kind (o_Status out)) [] (o_FinishedAt out)
        (JObj [(''error_class'', JStr (o_ErrorClass out)), (''status'', JStr (status_text (o_Status out)))]) d1)"
    and d3: "finishHealth R E j out (applyExpiry E j d2) = Inr d3" and d': "d' = refresh E (j_ID j) d3"
    unfolding finish_close_def Let_def bind_res_Inr_iff by (elim exE conjE) simp
  note h = finishHealth_tables [OF d3]
  have t: "messages d1 = messages d" "recipients d1 = recipients d" "attempts d1 = attempts d" "attempt_recipients d1 = attempt_recipients d"
    using d1 by (simp_all add: messages_frame.view_recordEvents recipients_frame.view_recordEvents attempts_frame.view_recordEvents
        attempt_recipients_frame.view_recordEvents)
  show "attempts d' = update_where (\<lambda>a. a_id a = j_AttemptID j) (health_sampled (clk E 10) (ProviderOutcome (attempt_evidence out))) (attempts d)"
    "attempt_recipients d' = attempt_recipients d" by (simp_all add: d' h d2 t)
  have "keeps_events d d2" unfolding d2 using keeps_events_event [OF keeps_events_recordEvents [OF d1]] by simp
  then show "keeps_events d d'" unfolding d' using keeps_events_trans keeps_events_applyExpiry h(5) by blast
  let ?e = "\<lambda>r. if expires_now (clk E 30) (j_ID j) d2 r then expire_recipient (clk E 30) d2 r else r"
  have "recipients d' = map ?e (recipients d)" by (simp add: d' h d2 t update_where_def)
  moreover have "stops_waiting r (?e r) \<and> (r_message_id r \<noteq> j_ID j \<longrightarrow> ?e r = r)" for r
    using stops_waiting_expire [of "clk E 30" "j_ID j" d2 r d2] waiting.row_refl by (simp add: expires_now_def)
  ultimately show "\<exists>e. recipients d' = map e (recipients d) \<and> (\<forall>r. stops_waiting r (e r) \<and> (r_message_id r \<noteq> j_ID j \<longrightarrow> e r = r))" by blast
  let ?u = "\<lambda>m. refresh_message E (recipients_of d' (j_ID j)) (release_lease (o_ErrorClass out) m)"
  have rel: "m_id (release_lease c m) = m_id m" "m_key (release_lease c m) = m_key m" "m_locked_by (release_lease c m) = None" for c m
    by (simp_all add: release_lease_def m_key_def)
  have "messages d2 = update_where (\<lambda>m. m_id m = j_ID j) (release_lease (o_ErrorClass out)) (messages d)" by (simp add: d2 t)
  then have "messages d' = update_where (\<lambda>m. m_id m = j_ID j) ?u (messages d)"
    by (simp add: d' h recipients_of_def update_where_update_where rel)
  then show "\<exists>u. messages d' = update_where (\<lambda>m. m_id m = j_ID j) u (messages d)
          \<and> (\<forall>m. m_key (u m) = m_key m \<and> m_locked_by (u m) = None \<and> m_status (u m) = projection (recipients_of d' (j_ID j)))"
    by (rule exI [of _ ?u, OF conjI]) (simp add: rel)
qed

lemma inv_keys_row:
  assumes "inv_keys d" and "(aid, rid) \<in> ar_keys d"
  obtains a r where "a \<in> set (attempts d)" "r \<in> set (recipients d)" "a_id a = aid" "r_id r = rid" "a_message_id a = r_message_id r"
proof -
  have "\<forall>(aid, rid) \<in> ar_keys d. \<exists>a \<in> set (attempts d). \<exists>r \<in> set (recipients d). a_id a = aid \<and> r_id r = rid \<and> a_message_id a = r_message_id r"
    using assms(1) unfolding inv_keys_def by (elim conjE)
  from bspec [OF this assms(2)] that show thesis by auto
qed

text \<open>A finished job had exactly one result per recipient, and every row of the attempt was rewritten by the loop.\<close>

lemma Finish_Inr:
  assumes fin: "Finish R E j out d = Inr (u, d')" and inv: "queue_inv d" and job: "job_of d j"
  obtains a0 d1 g k where "a0 \<in> set (attempts d)" "open_attempt j a0" "rr_ID ` set (o_Recipients out) = rc_ID ` set (j_Recipients j)"
    and "loop_done R j out (a_suppression_blocked_at a0 \<noteq> None) (o_Recipients out) (upd_attempts (\<lambda>a. a_id a = j_AttemptID j) (finished_attempt out) d) d1 g k"
    and "finish_close R E j out d1 = Inr d'"
proof -
  let ?d0 = "upd_attempts (\<lambda>a. a_id a = j_AttemptID j) (finished_attempt out) d"
  from fin obtain a0 d1 e where a0: "query_row (open_attempt j) (attempts d) = Inr a0"
    and len: "length (o_Recipients out) = length (j_Recipients j)"
    and loop: "fold_res (finish_rcpt R j out (a_suppression_blocked_at a0 \<noteq> None) (a_expiry_blocked_at a0 \<noteq> None)) (o_Recipients out)
        (rc_ID ` set (j_Recipients j), ?d0) = Inr (e, d1)"
    and close: "finish_close R E j out d1 = Inr d'"
    unfolding Finish_def finish_results_def Let_def bind_res_Inr_iff guard_res_Inr_iff by (elim exE conjE) auto
  have a: "a0 \<in> set (attempts d)" "open_attempt j a0" using query_row_Inr [OF a0] by simp_all
  have keys: "inv_keys d" by (rule queue_invD(1) [OF inv])
  have ex: "\<exists>r \<in> set (recipients ?d0). r_id r = i \<and> r_message_id r = j_ID j" if "i \<in> rc_ID ` set (j_Recipients j)" for i
  proof -
    have "(j_AttemptID j, i) \<in> ar_keys d" using job that by (simp add: job_of_def)
    then obtain a r where "a \<in> set (attempts d)" "r \<in> set (recipients d)" "a_id a = j_AttemptID j" "r_id r = i" "a_message_id a = r_message_id r"
      by (rule inv_keys_row [OF keys])
    moreover from this a have "a = a0" using inv_keysD(3) [OF keys] by (simp add: open_attempt_def)
    ultimately show ?thesis using a(2) by (auto simp: open_attempt_def)
  qed
  have dist: "distinct (map r_id (recipients ?d0))" using keys by (simp add: inv_keys_def)
  note f = finish_loop [OF loop dist] and ex' = ballI [OF ex]
  have "card (rr_ID ` set (o_Recipients out)) = card (rc_ID ` set (j_Recipients j))"
    using f(1) [OF ex'] job len by (metis distinct_card job_of_def length_map list.set_map)
  then have "rr_ID ` set (o_Recipients out) = rc_ID ` set (j_Recipients j)" using f(2) [OF ex'] by (simp add: card_subset_eq)
  with f(3) [OF ex'] a close that show thesis by blast
qed

text \<open>The closing step of the invariant, with the loop's functions composed with the expiry that follows.\<close>

lemma Finish_good:
  assumes fin: "Finish R E j out d = Inr (u, d')" and inv: "queue_inv d" and job: "job_of d j" and sane: "sane_result out"
  shows "good_step d d'"
proof -
  obtain a0 d1 g k where a0: "a0 \<in> set (attempts d)" "open_attempt j a0" and ids: "rr_ID ` set (o_Recipients out) = rc_ID ` set (j_Recipients j)"
    and loop: "loop_done R j out (a_suppression_blocked_at a0 \<noteq> None) (o_Recipients out) (upd_attempts (\<lambda>a. a_id a = j_AttemptID j) (finished_attempt out) d) d1 g k"
    and close: "finish_close R E j out d1 = Inr d'" by (rule Finish_Inr [OF fin inv job])
  have id: "a_id a0 = j_AttemptID j" "a_message_id a0 = j_ID j" "a_result a0 = IN_PROGRESS" using a0(2) by (simp_all add: open_attempt_def)
  note l = loop_doneD [OF loop, simplified] and c = finish_close_tables [OF close] and keys = queue_invD(1) [OF inv]
  obtain e where e: "recipients d' = map e (recipients d1)" "\<And>r. stops_waiting r (e r)" "\<And>r. r_message_id r \<noteq> j_ID j \<Longrightarrow> e r = r" using c(4) by blast
  obtain v where v: "messages d' = update_where (\<lambda>m. m_id m = j_ID j) v (messages d1)" "\<And>m. m_key (v m) = m_key m" "\<And>m. m_locked_by (v m) = None"
    "\<And>m. m_status (v m) = projection (recipients_of d' (j_ID j))" using c(5) by blast
  let ?g = "\<lambda>r. e (g r)"
  let ?h = "\<lambda>a. if a_id a = j_AttemptID j then health_sampled (clk E 10) (ProviderOutcome (attempt_evidence out)) (finished_attempt out a) else a"
  have rec: "recipients d' = map ?g (recipients d)" by (simp add: e(1) l(1))
  have att: "attempts d' = map ?h (attempts d)" unfolding c(1) l(4) by (simp add: update_where_def finished_attempt_def)
  have ars: "attempt_recipients d' = map k (attempt_recipients d)" by (simp add: c(2) l(2))
  have msg: "messages d' = update_where (\<lambda>m. m_id m = j_ID j) v (messages d)" by (simp add: v(1) l(3))
  have gkey: "r_key (?g r) = r_key r" for r using stops_waitingD(1) [OF e(2)] l(6) by simp
  have ok: "sending_ok d r" if "r \<in> set (recipients d)" for r using queue_invD(4) [OF inv] that by (simp add: inv_rcpt_def)
  have mine: "(a_id a0, r_id r) \<in> ar_keys d \<longleftrightarrow> r_id r \<in> rr_ID ` set (o_Recipients out)" for r using job ids id by (simp add: job_of_def)
  have active: "(a_id a0, r_id r) \<in> ar_keys d" if r: "r \<in> set (recipients d)" "r_message_id r = j_ID j" "r_status r = SENDING" for r
  proof -
    obtain a where a: "a \<in> set (attempts d)" "a_result a = IN_PROGRESS" "(a_id a, r_id r) \<in> ar_keys d" using ok [OF r(1)] r(3) by (auto simp: sending_ok_def)
    have "a_message_id a = a_message_id a0" using inv_keysD(5) [OF keys a(1) r(1) a(3)] r(2) id(2) by simp
    with active_unique [OF inv a(1,2) a0(1) id(3)] a(3) show ?thesis by simp
  qed
  have row: "r_status (g r) \<noteq> SENDING \<and> (r_retry_at (g r) \<noteq> None \<longrightarrow> r_status (g r) = TEMP_FAILED) \<and> r_retry_started_at (g r) = r_retry_started_at r
      \<and> r_retry_started_at r \<noteq> None \<and> keeps_facts r (g r)
      \<and> (claimable (g r) \<longrightarrow> (\<forall>ar. ar_key ar = (j_AttemptID j, r_id r) \<longrightarrow> \<not> uncertain (k ar)))"
    if r: "r \<in> set (recipients d)" "(a_id a0, r_id r) \<in> ar_keys d" for r
  proof -
    obtain rc where rc: "rc \<in> set (o_Recipients out)" "r_id r = rr_ID rc" using mine r(2) by auto
    have "row_done R j out (a_suppression_blocked_at a0 \<noteq> None) g k rc r" using l(11) [OF rc(1) r(1) rc(2)] by simp
    then obtain raw where st: "rr_Status rc \<in> {SMTP_ACCEPTED, TEMP_FAILED, PERM_FAILED, DELIVERY_UNKNOWN}"
      and don: "rcpt_done R j out (a_suppression_blocked_at a0 \<noteq> None) rc r (g r) raw"
      and kk: "\<forall>ar. ar_key ar = (j_AttemptID j, rr_ID rc) \<longrightarrow> k ar = decided_attempt_rcpt raw (rr_Stage rc) (reported_attempt_rcpt rc ar)"
      unfolding row_done_def by blast
    have s: "r_status r = SENDING \<or> r_status r = SUPPRESSED \<and> a_suppression_blocked_at a0 \<noteq> None" "r_retry_started_at r \<noteq> None" "r_retry_at r = None"
      using ok [OF r(1)] a0(1) id(3) r(2) unfolding sending_ok_def by fastforce+
    have retry: "\<forall>b. d_Action (Decide (rcpt_evidence out rc) b) = Retry \<longrightarrow> rr_Status rc = TEMP_FAILED"
      using sane rc(1) unfolding sane_result_def by blast
    note sure = rcpt_done_sure [OF don st retry s(1,3)]
    have "\<not> uncertain (k ar)" if "claimable (g r)" "ar_key ar = (j_AttemptID j, r_id r)" for ar
      using sure(4) [where stage = "rr_Stage rc" and ar = ar] that kk rc(2) by simp
    then show ?thesis using sure(1-3,5) s(2) by blast
  qed
  have same: "g r = r" if "(a_id a0, r_id r) \<notin> ar_keys d" for r using l(9) [of r] mine [of r] that by blast
  have own: "r_status (?g r) \<noteq> SENDING \<and> (r_retry_at (?g r) \<noteq> None \<longrightarrow> r_status (?g r) = TEMP_FAILED \<and> r_retry_started_at (?g r) \<noteq> None)
        \<and> (r_retry_automatic (?g r) \<longrightarrow> r_retry_started_at (?g r) \<noteq> None) \<and> (claimable (?g r) \<longrightarrow> claimable r \<or> (a_id a0, r_id r) \<in> ar_keys d)"
    if r: "r \<in> set (recipients d)" "r_message_id r = j_ID j" for r
  proof -
    have m: "r_status (g r) \<noteq> SENDING \<and> (r_retry_at (g r) \<noteq> None \<longrightarrow> r_status (g r) = TEMP_FAILED \<and> r_retry_started_at (g r) \<noteq> None)
        \<and> (r_retry_automatic (g r) \<longrightarrow> r_retry_started_at (g r) \<noteq> None) \<and> (claimable (g r) \<longrightarrow> claimable r \<or> (a_id a0, r_id r) \<in> ar_keys d)"
    proof (cases "(a_id a0, r_id r) \<in> ar_keys d")
      case True
      with row [OF r(1) True] show ?thesis by simp
    next
      case False
      with ok [OF r(1)] active [OF r] show ?thesis by (auto simp: same sending_ok_def)
    qed
    note w = stops_waitingD [OF e(2) [of "g r"]]
    from m show ?thesis using w(3,5,6) w(4) w(7) by metis
  qed
  have sure: "settled d' (k ar)" if r: "r \<in> set (recipients d)" "r_message_id r = j_ID j" "claimable (?g r)"
    and ar: "ar \<in> set (attempt_recipients d)" "ar_recipient_id ar = r_id r" "ar_attempt_id ar = a_id a0" for r ar
  proof -
    have "claimable (g r)" using stops_waitingD(4) [OF e(2) [of "g r"] r(3)] r(3) by simp
    moreover have "ar_key ar = (j_AttemptID j, r_id r)" using ar id by (simp add: ar_key_def)
    ultimately show ?thesis using row [OF r(1)] ar(1) id(1) unfolding settled_def by (metis image_eqI)
  qed
  have pns: "projection (recipients_of d' (j_ID j)) \<noteq> SENDING"
  proof
    assume "projection (recipients_of d' (j_ID j)) = SENDING"
    from projection_SENDING [OF this] obtain r where "r \<in> set (recipients d)" "r_message_id (?g r) = j_ID j" "r_status (?g r) = SENDING"
      by (auto simp: recipients_of_def rec)
    with own [of r] gkey [of r] show False by (simp add: r_key_def)
  qed
  have kother: "k ar = ar" if "ar_attempt_id ar \<noteq> a_id a0" for ar using l(10) [of ar] that id(1) by (auto simp: ar_key_def)
  have gother: "?g r = r" if r: "r \<in> set (recipients d)" "r_message_id r \<noteq> j_ID j" for r
    using same [of r] inv_keysD(5) [OF keys a0(1) r(1)] id(2) r(2) e(3) by metis
  have ev: "keeps_events d d'" using keeps_events_trans [OF _ c(3)] l(5) by (simp add: keeps_events_def)
  have fin: "a_result (?h a0) \<noteq> IN_PROGRESS" using sane id(1) by (simp add: health_sampled_def finished_attempt_def sane_result_def)
  note step = closing_step [OF inv a0(1) id(3,2) att _ _ fin _ ars l(8) kother msg v(2,3) _ rec gkey gother own sure ev]
  have "queue_inv d'" "keeps_keys d d'" "\<And>x. unlocked d x \<Longrightarrow> unlocked d' x"
    by (rule step; (use id(1) pns v(4) in \<open>simp add: health_sampled_def finished_attempt_def a_key_def\<close>))+
  moreover have "list_all2 keeps_facts (recipients d) (recipients d')" unfolding rec list.rel_map list_all2_same
  proof
    fix r assume r: "r \<in> set (recipients d)"
    have "keeps_facts r (g r)" using row [OF r] same [of r] facts.row_refl by metis
    from facts.row_trans [OF this stops_waitingD(2) [OF e(2) [of "g r"]]] show "keeps_facts r (?g r)" .
  qed
  ultimately show ?thesis using ev by (simp add: good_step_def)
qed

end
