(* ===== verification/Queue_Claiming.thy ===== *)
theory Queue_Claiming
  imports Queue_Finished
begin

text \<open>
  The claim keeps the invariant and yields a job whose recipients had settled evidence: the tables after a successful claim, what the
  claim checked, and the invariant.
\<close>

subsection \<open>The tables after a claim\<close>

definition claim_done :: "env \<Rightarrow> message \<Rightarrow> provider_row \<Rightarrow> string list \<Rightarrow> db \<Rightarrow> job \<Rightarrow> db \<Rightarrow> bool" where
  "claim_done E m p ids d j d' \<longleftrightarrow> j_ID j = m_id m \<and> j_Token j = fresh_token E \<and> j_AttemptID j = fresh_id E \<and> j_Provider j = job_provider p
     \<and> j_Recipients j = map (\<lambda>r. \<lparr>rc_ID = r_id r, rc_Address = r_address r\<rparr>) (filter (\<lambda>r. r_id r \<in> set ids) (recipients d))
     \<and> j_Recipients j \<noteq> []
     \<and> messages d' = update_where (\<lambda>x. m_id x = m_id m) (lease_message E (fresh_token E) p) (messages d)
     \<and> recipients d' = update_where (\<lambda>r. r_id r \<in> set ids) (send_recipient E (pv_id p)) (recipients d)
     \<and> attempts d' = attempts d @ [new_attempt E j (m_attempt_count m + 1)]
     \<and> attempt_recipients d' = attempt_recipients d @ map (new_attempt_rcpt j) (j_Recipients j)
     \<and> provider_quota d' = provider_quota d @ [\<lparr>q_attempt_id = fresh_id E, q_provider_id = pv_id p, q_reserved_at = clk E 7, q_units = int (length (j_Recipients j))\<rparr>]
     \<and> providers d' = providers d \<and> quota_groups d' = quota_groups d \<and> suppressions d' = suppressions d
     \<and> keeps_events d d' \<and> fresh_id E \<notin> a_id ` set (attempts d)"

lemma claim_ids_cong:
  "recipients d' = recipients d \<Longrightarrow> suppressions d' = suppressions d \<Longrightarrow> pg_lower d' = pg_lower d \<Longrightarrow> claim_ids R E mid n d' = claim_ids R E mid n d"
  by (simp add: claim_ids_def claimRecipient_def suppressed_address_def entry_for_def)

lemma insert_attempt_rcpts:
  assumes "fold_res (\<lambda>rc. insert_attempt_rcpt (new_attempt_rcpt j rc)) rcs d = Inr d'"
  shows "d' = d\<lparr>attempt_recipients := attempt_recipients d @ map (new_attempt_rcpt j) rcs\<rparr>"
  using assms
proof (induction rcs arbitrary: d)
  case (Cons rc rcs)
  from Cons.prems obtain d1 where d1: "insert_attempt_rcpt (new_attempt_rcpt j rc) d = Inr d1"
    "fold_res (\<lambda>rc. insert_attempt_rcpt (new_attempt_rcpt j rc)) rcs d1 = Inr d'" by (auto simp: bind_res_Inr_iff)
  from d1(1) have "d1 = d\<lparr>attempt_recipients := attempt_recipients d @ [new_attempt_rcpt j rc]\<rparr>"
    unfolding insert_attempt_rcpt_def by (simp split: if_split_asm)
  with Cons.IH [OF d1(2)] show ?case by simp
qed simp

lemma reserveControls_tables:
  assumes "reserveControls R E j d = Inr d'"
  shows "messages d' = messages d" "recipients d' = recipients d" "attempts d' = attempts d" "attempt_recipients d' = attempt_recipients d" "providers d' = providers d"
    "quota_groups d' = quota_groups d" "keeps_events d d'" "fair_owners d' = fair_owners d" "next_ticket d' = next_ticket d" "suppressions d' = suppressions d"
    "provider_quota d' = provider_quota d @ [\<lparr>q_attempt_id = j_AttemptID j, q_provider_id = p_ID (j_Provider j), q_reserved_at = clk E 7,
       q_units = int (length (j_Recipients j))\<rparr>]"
proof -
  from assms obtain d1 where d1: "d1 = d\<lparr>provider_quota := provider_quota d @ [\<lparr>q_attempt_id = j_AttemptID j, q_provider_id = p_ID (j_Provider j), q_reserved_at = clk E 7,
       q_units = int (length (j_Recipients j))\<rparr>]\<rparr>"
    and "\<exists>k1 x1 h1 k2 x2 h2 hs. d' = event j k1 [] h1 x1 d1 \<or> d' = event j k2 [] h2 x2 ((event j k1 [] h1 x1 d1)\<lparr>provider_health := hs\<rparr>)"
    unfolding reserveControls_def insert_quota_def Let_def bind_res_Inr_iff
    by (elim exE conjE) (simp split: if_split_asm; blast)
  then obtain k1 x1 h1 k2 x2 h2 hs where d': "d' = event j k1 [] h1 x1 d1 \<or> d' = event j k2 [] h2 x2 ((event j k1 [] h1 x1 d1)\<lparr>provider_health := hs\<rparr>)" by blast
  then show "messages d' = messages d" "recipients d' = recipients d" "attempts d' = attempts d" "attempt_recipients d' = attempt_recipients d" "providers d' = providers d"
    "quota_groups d' = quota_groups d" "fair_owners d' = fair_owners d" "next_ticket d' = next_ticket d" "suppressions d' = suppressions d"
    "provider_quota d' = provider_quota d @ [\<lparr>q_attempt_id = j_AttemptID j, q_provider_id = p_ID (j_Provider j), q_reserved_at = clk E 7,
       q_units = int (length (j_Recipients j))\<rparr>]" by (auto simp: d1)
  have "keeps_events d d1" by (simp add: d1)
  with d' show "keeps_events d d'" by (auto intro!: keeps_events_event)
qed

lemma keeps_events_recordFailover: "recordFailover E j previous d = Inr d' \<Longrightarrow> keeps_events d d'"
  by (auto simp: recordFailover_def Let_def split_beta intro!: keeps_events_fold split: if_split_asm)

lemma claim_message_Inr:
  assumes "claim_message R E m p d = Inr (j, d')"
  obtains n where "admission R E (pv_id p) d = Inr n" and "live_attempts (clk E 3) d (pv_id p) < pv_max_connections p"
    and "m_schedule_at m = None \<or> null_le (m_schedule_at m) (clk E 5)" "m_expires_at m = None \<or> null_gt (m_expires_at m) (clk E 5)"
    and "claim_done E m p (claim_ids R E (m_id m) (min n FairRecipientQuantum) d) d j d'"
    and "fair_owners d' = fair_owners d" "next_ticket d' = next_ticket d"
proof -
  let ?d1 = "upd_messages (\<lambda>x. m_id x = m_id m) (lease_message E (fresh_token E) p) d"
  from assms obtain n d2 d4 d5 d6 where n: "admission R E (pv_id p) d = Inr n" "live_attempts (clk E 3) d (pv_id p) < pv_max_connections p"
      "m_schedule_at m = None \<or> null_le (m_schedule_at m) (clk E 5)" "m_expires_at m = None \<or> null_gt (m_expires_at m) (clk E 5)"
    and j: "j = \<lparr>j_Stream = m_message_stream m, j_ID = m_id m, j_Token = fresh_token E, j_AttemptID = fresh_id E, j_From = m_envelope_from m,
              j_Path = m_eml_path m, j_SHA256 = m_eml_sha256 m, j_Size = m_eml_size m, j_Provider = job_provider p,
              j_Recipients = map (\<lambda>r. \<lparr>rc_ID = r_id r, rc_Address = r_address r\<rparr>)
                (filter (\<lambda>r. r_id r \<in> set (claim_ids R E (m_id m) (min n FairRecipientQuantum) ?d1)) (recipients ?d1))\<rparr>"
    and d2: "insert_attempt (new_attempt E j (m_attempt_count m + 1)) ?d1 = Inr d2" and ne: "j_Recipients j \<noteq> []"
    and d4: "fold_res (\<lambda>rc. insert_attempt_rcpt (new_attempt_rcpt j rc)) (j_Recipients j)
        (upd_recipients (\<lambda>r. r_id r \<in> set (claim_ids R E (m_id m) (min n FairRecipientQuantum) ?d1)) (send_recipient E (pv_id p)) d2) = Inr d4"
    and d5: "reserveControls R E j d4 = Inr d5" and d6: "recordFailover E j (coalesce (m_route_provider_id m) []) d5 = Inr d6"
    and d': "d' = claim_started E j (m_attempt_count m + 1) d6"
    unfolding claim_message_def Let_def bind_res_Inr_iff guard_res_Inr_iff by (elim exE conjE) auto
  have ids: "claim_ids R E (m_id m) (min n FairRecipientQuantum) ?d1 = claim_ids R E (m_id m) (min n FairRecipientQuantum) d"
    by (rule claim_ids_cong) simp_all
  from d2 have d2': "d2 = ?d1\<lparr>attempts := attempts d @ [new_attempt E j (m_attempt_count m + 1)]\<rparr>" "fresh_id E \<notin> a_id ` set (attempts d)"
    unfolding insert_attempt_def by (auto simp: new_attempt_def j split: if_split_asm)
  note d4' = insert_attempt_rcpts [OF d4, unfolded ids] and t5 = reserveControls_tables [OF d5]
  have t6: "messages d6 = messages d5" "recipients d6 = recipients d5" "attempts d6 = attempts d5" "attempt_recipients d6 = attempt_recipients d5"
    "provider_quota d6 = provider_quota d5" "providers d6 = providers d5" "quota_groups d6 = quota_groups d5"
    "fair_owners d6 = fair_owners d5" "next_ticket d6 = next_ticket d5" "suppressions d6 = suppressions d5"
    using d6 by (simp_all add: suppressions_frame.view_recordFailover owners_frame.view_recordFailover ticket_frame.view_recordFailover messages_frame.view_recordFailover recipients_frame.view_recordFailover attempts_frame.view_recordFailover
        attempt_recipients_frame.view_recordFailover quota_frame.view_recordFailover providers_frame.view_recordFailover groups_frame.view_recordFailover)
  have "keeps_events d d4" by (simp add: d4' d2')
  then have ev: "keeps_events d d'" unfolding d' claim_started_def
    using keeps_events_trans [OF _ keeps_events_trans [OF t5(7) keeps_events_recordFailover [OF d6]]] by blast
  have "claim_done E m p (claim_ids R E (m_id m) (min n FairRecipientQuantum) d) d j d'"
    unfolding claim_done_def using ne ev d2'(2) by (simp add: d' t6 t5 d4' d2'(1)) (simp add: j ids job_provider_def)
  moreover have "fair_owners d' = fair_owners d" "next_ticket d' = next_ticket d" by (simp_all add: d' t6 t5 d4' d2'(1))
  ultimately show thesis using n that by blast
qed

subsection \<open>The invariant\<close>

text \<open>What the claim chose: a queued message and queued recipients of it.\<close>

definition claim_choice :: "message \<Rightarrow> string list \<Rightarrow> db \<Rightarrow> bool" where
  "claim_choice m ids d \<longleftrightarrow> m \<in> set (messages d) \<and> m_status m = QUEUED
     \<and> (\<forall>r \<in> set (recipients d). r_id r \<in> set ids \<longrightarrow> r_message_id r = m_id m \<and> r_status r = QUEUED)"

lemma claim_doneD:
  assumes "claim_done E m p ids d j d'"
  shows "j_ID j = m_id m" "j_Token j = fresh_token E" "j_AttemptID j = fresh_id E" "p_ID (j_Provider j) = pv_id p"
    "rc_ID ` set (j_Recipients j) = r_id ` {r \<in> set (recipients d). r_id r \<in> set ids}"
    "messages d' = update_where (\<lambda>x. m_id x = m_id m) (lease_message E (fresh_token E) p) (messages d)"
    "recipients d' = update_where (\<lambda>r. r_id r \<in> set ids) (send_recipient E (pv_id p)) (recipients d)"
    "attempts d' = attempts d @ [new_attempt E j (m_attempt_count m + 1)]"
    "attempt_recipients d' = attempt_recipients d @ map (new_attempt_rcpt j) (j_Recipients j)"
    "keeps_events d d'" "fresh_id E \<notin> a_id ` set (attempts d)" "ar_keys d' = ar_keys d \<union> Pair (fresh_id E) ` rc_ID ` set (j_Recipients j)"
    "map rc_ID (j_Recipients j) = map r_id (filter (\<lambda>r. r_id r \<in> set ids) (recipients d))"
proof -
  show 1: "j_AttemptID j = fresh_id E" "attempt_recipients d' = attempt_recipients d @ map (new_attempt_rcpt j) (j_Recipients j)"
    using assms by (simp_all add: claim_done_def)
  show "ar_keys d' = ar_keys d \<union> Pair (fresh_id E) ` rc_ID ` set (j_Recipients j)"
    by (simp add: 1 image_Un image_image new_attempt_rcpt_def ar_key_def)
qed (use assms in \<open>auto simp: claim_done_def job_provider_def comp_def image_image\<close>)

lemma new_attempt_simps [simp]:
  "a_id (new_attempt E j n) = j_AttemptID j" "a_message_id (new_attempt E j n) = j_ID j" "a_number (new_attempt E j n) = n"
  "a_result (new_attempt E j n) = IN_PROGRESS" "a_claim_token (new_attempt E j n) = j_Token j" "a_provider_id (new_attempt E j n) = p_ID (j_Provider j)"
  "a_suppression_blocked_at (new_attempt E j n) = None" "a_expiry_blocked_at (new_attempt E j n) = None" "a_data_armed_at (new_attempt E j n) = None"
  by (simp_all add: new_attempt_def)

lemma new_attempt_rcpt_simps [simp]:
  "ar_attempt_id (new_attempt_rcpt j rc) = j_AttemptID j" "ar_recipient_id (new_attempt_rcpt j rc) = rc_ID rc" "ar_status (new_attempt_rcpt j rc) = SENDING"
  "ar_decision (new_attempt_rcpt j rc) = None" "\<not> uncertain (new_attempt_rcpt j rc)"
  by (simp_all add: new_attempt_rcpt_def uncertain_def)

lemma lease_message_simps [simp]:
  "m_id (lease_message E t p m) = m_id m" "m_status (lease_message E t p m) = SENDING" "m_locked_by (lease_message E t p m) = Some t"
  "m_attempt_count (lease_message E t p m) = m_attempt_count m + 1"
  by (simp_all add: lease_message_def)

lemma send_recipient_simps [simp]:
  "r_key (send_recipient E pid r) = r_key r" "r_id (send_recipient E pid r) = r_id r" "r_message_id (send_recipient E pid r) = r_message_id r"
  "r_status (send_recipient E pid r) = SENDING" "r_retry_at (send_recipient E pid r) = None" "r_retry_started_at (send_recipient E pid r) \<noteq> None"
  "r_attempt_count (send_recipient E pid r) = r_attempt_count r + 1"
  by (simp_all add: send_recipient_def r_key_def)

lemma claim_free:
  assumes inv: "queue_inv d" and ch: "claim_choice m ids d"
  shows "unlocked d (m_id m)" and "a \<in> set (attempts d) \<Longrightarrow> a_message_id a = m_id m \<Longrightarrow> a_result a \<noteq> IN_PROGRESS \<and> a_number a \<le> m_attempt_count m"
proof -
  have m: "m \<in> set (messages d)" "m_status m = QUEUED" using ch by (simp_all add: claim_choice_def)
  have "m_locked_by m = None" using queue_invD(2) [OF inv] m unfolding inv_lease_def by auto
  then show un: "unlocked d (m_id m)" unfolding unlocked_def using inv_keysD(1) [OF queue_invD(1) [OF inv] _ m(1)] by auto
  show "a_result a \<noteq> IN_PROGRESS \<and> a_number a \<le> m_attempt_count m" if "a \<in> set (attempts d)" "a_message_id a = m_id m"
    using unlocked_no_active [OF inv un that] inv_keysD(4) [OF queue_invD(1) [OF inv] that(1) m(1)] that(2) by simp
qed

lemma claim_keys:
  assumes inv: "queue_inv d" and ch: "claim_choice m ids d" and don: "claim_done E m p ids d j d'"
  shows "inv_keys d'"
proof -
  note c = claim_doneD [OF don] and keys = queue_invD(1) [OF inv]
  have mids: "map m_id (messages d') = map m_id (messages d)" by (simp add: c(6) map_update_where)
  have rids: "map r_key (recipients d') = map r_key (recipients d)" by (simp add: c(7) map_update_where)
  have rid: "map r_id (recipients d') = map r_id (recipients d)" by (simp add: c(7) map_update_where)
  have msg: "\<exists>x \<in> set (messages d'). m_id x = m_id y \<and> m_attempt_count y \<le> m_attempt_count x" if "y \<in> set (messages d)" for y
    using that unfolding c(6) set_update_where
    by (intro bexI [of _ "if m_id y = m_id m then lease_message E (fresh_token E) p y else y"]) auto
  have m: "m \<in> set (messages d)" using ch by (simp add: claim_choice_def)
  have row: "\<exists>a \<in> set (attempts d'). \<exists>r \<in> set (recipients d'). a_id a = aid \<and> r_id r = i \<and> a_message_id a = r_message_id r" if "(aid, i) \<in> ar_keys d'" for aid i
  proof -
    have "\<exists>a \<in> set (attempts d'). \<exists>r \<in> set (recipients d). a_id a = aid \<and> r_id r = i \<and> a_message_id a = r_message_id r"
    proof (cases "(aid, i) \<in> ar_keys d")
      case True
      then show ?thesis using inv_keys_row [OF keys True] c(8) by (metis UnI1 set_append)
    next
      case False
      with that obtain r where "aid = fresh_id E" "r \<in> set (recipients d)" "r_id r = i" "i \<in> set ids" unfolding c(12) c(5) by auto
      moreover from this have "r_message_id r = m_id m" using ch by (auto simp: claim_choice_def)
      ultimately show ?thesis using c(1,3) by (intro bexI [of _ "new_attempt E j (m_attempt_count m + 1)"] bexI [of _ r]) (simp_all add: c(8))
    qed
    then obtain a r where ar: "a \<in> set (attempts d')" "r \<in> set (recipients d)" "a_id a = aid" "r_id r = i" "a_message_id a = r_message_id r" by blast
    have "r_key r \<in> set (map r_key (recipients d'))" unfolding rids using ar(2) by simp
    then obtain r' where "r' \<in> set (recipients d')" "r_id r' = r_id r" "r_message_id r' = r_message_id r" by (auto simp: r_key_def)
    with ar show ?thesis by metis
  qed
  have at: "\<exists>x \<in> set (messages d'). m_id x = a_message_id a \<and> a_number a \<le> m_attempt_count x" if "a \<in> set (attempts d')" for a
  proof (cases "a \<in> set (attempts d)")
    case True
    then obtain y where "y \<in> set (messages d)" "m_id y = a_message_id a" "a_number a \<le> m_attempt_count y" using inv_keysD(4,6) [OF keys] by blast
    with msg [of y] show ?thesis by fastforce
  next
    case False
    with that have "a = new_attempt E j (m_attempt_count m + 1)" by (simp add: c(8))
    then show ?thesis using m c(1) unfolding c(6) set_update_where by (intro bexI [of _ "lease_message E (fresh_token E) p m"]) auto
  qed
  have rc: "\<exists>x \<in> set (messages d'). m_id x = r_message_id r" if "r \<in> set (recipients d')" for r
  proof -
    have "r_key r \<in> set (map r_key (recipients d))" unfolding rids [symmetric] using that by simp
    then obtain r0 where "r0 \<in> set (recipients d)" "r_message_id r = r_message_id r0" by (auto simp: r_key_def)
    with inv_keysD(7) [OF keys] msg show ?thesis by metis
  qed
  have num: "distinct (map (\<lambda>a. (a_message_id a, a_number a)) (attempts d'))"
    using keys claim_free(2) [OF inv ch] c(1) unfolding c(8) by (fastforce simp: inv_keys_def)
  show ?thesis unfolding inv_keys_def
  proof (intro conjI ballI)
    show "distinct (map m_id (messages d'))" "distinct (map r_id (recipients d'))" using keys unfolding mids rid inv_keys_def by blast+
    show "distinct (map a_id (attempts d'))" using keys c(3,11) by (simp add: inv_keys_def c(8))
    show "case x of (aid, rid) \<Rightarrow> \<exists>a \<in> set (attempts d'). \<exists>r \<in> set (recipients d'). a_id a = aid \<and> r_id r = rid \<and> a_message_id a = r_message_id r"
      if "x \<in> ar_keys d'" for x using row [of "fst x" "snd x"] that by (simp add: split_beta)
  qed (use num at rc in blast)+
qed

lemma inv_keys_attempt:
  assumes "inv_keys d" and "(aid, rid) \<in> ar_keys d"
  shows "aid \<in> a_id ` set (attempts d)"
  by (rule inv_keys_row [OF assms]) (metis image_eqI)

lemma claim_old_row:
  assumes "queue_inv d" and "claim_done E m p ids d j d'" and "ar \<in> set (attempt_recipients d)"
  shows "ar_attempt_id ar \<in> a_id ` set (attempts d)" "ar_attempt_id ar \<noteq> fresh_id E"
proof -
  have "(ar_attempt_id ar, ar_recipient_id ar) \<in> ar_keys d" using assms(3) by (force simp: ar_key_def)
  then show 1: "ar_attempt_id ar \<in> a_id ` set (attempts d)" by (rule inv_keys_attempt [OF queue_invD(1) [OF assms(1)]])
  show "ar_attempt_id ar \<noteq> fresh_id E" using claim_doneD(11) [OF assms(2)] 1 by auto
qed

lemma claim_lease:
  assumes inv: "queue_inv d" and ch: "claim_choice m ids d" and don: "claim_done E m p ids d j d'"
  shows "inv_lease d'" and "inv_one d'"
proof -
  note c = claim_doneD [OF don] and keys = queue_invD(1) [OF inv] and free = claim_free(2) [OF inv ch]
  let ?a = "new_attempt E j (m_attempt_count m + 1)"
  have m: "m \<in> set (messages d)" using ch by (simp add: claim_choice_def)
  show "inv_lease d'" unfolding inv_lease_def
  proof
    fix x assume "x \<in> set (messages d')"
    then obtain y where y: "y \<in> set (messages d)" "x = (if m_id y = m_id m then lease_message E (fresh_token E) p y else y)"
      unfolding c(6) by (rule update_where_memE)
    show "(m_status x = SENDING \<longleftrightarrow> m_locked_by x \<noteq> None)
      \<and> (m_locked_by x \<noteq> None \<longrightarrow> (\<exists>a \<in> set (attempts d'). a_message_id a = m_id x \<and> a_result a = IN_PROGRESS))
      \<and> (\<forall>a \<in> set (attempts d'). a_message_id a = m_id x \<and> a_result a = IN_PROGRESS \<longrightarrow>
          m_locked_by x = Some (a_claim_token a) \<and> a_number a = m_attempt_count x)"
    proof (cases "m_id y = m_id m")
      case True
      then have "y = m" using inv_keysD(1) [OF keys y(1) m] by simp
      with y(2) True have x: "x = lease_message E (fresh_token E) p m" by simp
      show ?thesis using free unfolding x c(8) by (auto simp: c(1,2))
    next
      case False
      with y have x: "x = y" by simp
      have "(m_status y = SENDING \<longleftrightarrow> m_locked_by y \<noteq> None)
        \<and> (m_locked_by y \<noteq> None \<longrightarrow> (\<exists>a \<in> set (attempts d). a_message_id a = m_id y \<and> a_result a = IN_PROGRESS))
        \<and> (\<forall>a \<in> set (attempts d). a_message_id a = m_id y \<and> a_result a = IN_PROGRESS \<longrightarrow>
            m_locked_by y = Some (a_claim_token a) \<and> a_number a = m_attempt_count y)"
        using queue_invD(2) [OF inv] y(1) unfolding inv_lease_def by blast
      then show ?thesis using False unfolding x c(8) by (auto simp: c(1))
    qed
  qed
  have one: "a_id a = a_id b" if "a \<in> set (attempts d)" "b \<in> set (attempts d)" "a_result a = IN_PROGRESS" "a_result b = IN_PROGRESS"
    "a_message_id a = a_message_id b" for a b
    using active_unique [OF inv that(1,3,2,4,5)] by simp
  show "inv_one d'" unfolding inv_one_def
  proof (intro ballI impI, elim conjE)
    fix a b assume ab: "a \<in> set (attempts d')" "b \<in> set (attempts d')" "a_result a = IN_PROGRESS" "a_result b = IN_PROGRESS" "a_message_id a = a_message_id b"
    then have "a \<in> set (attempts d) \<or> a = ?a" "b \<in> set (attempts d) \<or> b = ?a" by (auto simp: c(8))
    moreover have "a_message_id ?a = m_id m" by (simp add: c(1))
    ultimately show "a_id a = a_id b" using one [of a b] free [of a] free [of b] ab(3-5) by metis
  qed
qed

lemma claim_rcpt:
  assumes inv: "queue_inv d" and ch: "claim_choice m ids d" and don: "claim_done E m p ids d j d'"
  shows "inv_rcpt d'"
  unfolding inv_rcpt_def
proof
  note c = claim_doneD [OF don]
  let ?a = "new_attempt E j (m_attempt_count m + 1)"
  have a: "?a \<in> set (attempts d')" "a_id ?a = fresh_id E" by (simp_all add: c(3,8))
  fix r' assume "r' \<in> set (recipients d')"
  then obtain r where r: "r \<in> set (recipients d)" "r' = (if r_id r \<in> set ids then send_recipient E (pv_id p) r else r)"
    unfolding c(7) by (rule update_where_memE)
  have ok: "sending_ok d r" using queue_invD(4) [OF inv] r(1) by (simp add: inv_rcpt_def)
  show "sending_ok d' r'"
  proof (cases "r_id r \<in> set ids")
    case True
    then have "(a_id ?a, r_id r) \<in> ar_keys d'" using r(1) unfolding c(12) c(5) a(2) by auto
    then have "\<exists>a \<in> set (attempts d'). a_result a = IN_PROGRESS \<and> (a_id a, r_id r) \<in> ar_keys d'" using a(1) new_attempt_simps(4) by blast
    then show ?thesis using True r(2) by (simp add: sending_ok_def)
  next
    case False
    then have r': "r' = r" using r by simp
    have "(aid, r_id r) \<in> ar_keys d' \<longleftrightarrow> (aid, r_id r) \<in> ar_keys d" for aid unfolding c(12) c(5) using False by auto
    moreover have "a \<in> set (attempts d)" if "a \<in> set (attempts d')" "(a_id a, r_id r) \<in> ar_keys d" for a
    proof -
      have "a_id a \<in> a_id ` set (attempts d)" by (rule inv_keys_attempt [OF queue_invD(1) [OF inv] that(2)])
      then have "a_id a \<noteq> fresh_id E" using c(11) by metis
      with that(1) a(2) show ?thesis by (auto simp: c(8))
    qed
    moreover have "a \<in> set (attempts d')" if "a \<in> set (attempts d)" for a using that by (simp add: c(8))
    ultimately have "a \<in> set (attempts d') \<and> (a_id a, r_id r) \<in> ar_keys d' \<longleftrightarrow> a \<in> set (attempts d) \<and> (a_id a, r_id r) \<in> ar_keys d" for a by blast
    then show ?thesis using ok unfolding r' sending_ok_def by metis
  qed
qed

lemma claim_gate:
  assumes inv: "queue_inv d" and ch: "claim_choice m ids d" and don: "claim_done E m p ids d j d'"
  shows "inv_gate d'"
  unfolding inv_gate_def
proof
  note c = claim_doneD [OF don] and old = claim_old_row [OF inv don]
  fix a assume "a \<in> set (attempts d')"
  then have "a = new_attempt E j (m_attempt_count m + 1) \<or> a \<in> set (attempts d)" by (auto simp: c(8))
  then consider "a = new_attempt E j (m_attempt_count m + 1)" | "a \<in> set (attempts d)" "a_id a \<noteq> fresh_id E" using c(11) by (metis image_eqI)
  then show "(a_suppression_blocked_at a \<noteq> None \<longrightarrow> a_data_armed_at a = None) \<and> (a_expiry_blocked_at a \<noteq> None \<longrightarrow> a_data_armed_at a = None)
     \<and> (a_result a = IN_PROGRESS \<longrightarrow> (\<forall>ar \<in> set (attempt_recipients d'). ar_attempt_id ar = a_id a \<longrightarrow> ar_status ar = SENDING \<and> ar_decision ar = None))"
  proof cases
    case 1
    then show ?thesis using old(2) by (auto simp: c(3,9))
  next
    case 2
    have "(a_suppression_blocked_at a \<noteq> None \<longrightarrow> a_data_armed_at a = None) \<and> (a_expiry_blocked_at a \<noteq> None \<longrightarrow> a_data_armed_at a = None)
     \<and> (a_result a = IN_PROGRESS \<longrightarrow> (\<forall>ar \<in> set (attempt_recipients d). ar_attempt_id ar = a_id a \<longrightarrow> ar_status ar = SENDING \<and> ar_decision ar = None))"
      using queue_invD(5) [OF inv] 2(1) unfolding inv_gate_def by blast
    then show ?thesis using 2(2) by (auto simp: c(3,9))
  qed
qed

lemma claim_sure:
  assumes inv: "queue_inv d" and ch: "claim_choice m ids d" and don: "claim_done E m p ids d j d'"
  shows "inv_sure d'"
  unfolding inv_sure_def
proof (intro ballI)
  note c = claim_doneD [OF don] and old = claim_old_row [OF inv don]
  fix ar assume "ar \<in> set (attempt_recipients d')"
  then consider (new) rc where "ar = new_attempt_rcpt j rc" | (old) "ar \<in> set (attempt_recipients d)" by (auto simp: c(9))
  then show "(superseded d' ar \<longrightarrow> settled d' ar) \<and> (\<forall>r \<in> set (recipients d'). r_id r = ar_recipient_id ar \<and> claimable r \<longrightarrow> settled d' ar)"
  proof cases
    case (new rc)
    then show ?thesis by (simp add: settled_def)
  next
    case old
    have waits: "settled d' ar" if "r \<in> set (recipients d)" "r_id r = ar_recipient_id ar" "claimable r" for r
      using queue_invD(6) [OF inv] old that unfolding inv_sure_def by (blast intro: keeps_settled [OF c(10)])
    have "settled d' ar" if sup: "superseded d' ar"
    proof -
      obtain a b where ab: "a \<in> set (attempts d')" "b \<in> set (attempts d')" "a_id a = ar_attempt_id ar" "(a_id b, ar_recipient_id ar) \<in> ar_keys d'" "a_number a < a_number b"
        using sup by (auto simp: superseded_def)
      have a: "a \<in> set (attempts d)" using ab(1,3) claim_old_row(2) [OF inv don old] c(3) by (auto simp: c(8))
      show ?thesis
      proof (cases "(a_id b, ar_recipient_id ar) \<in> ar_keys d")
        case True
        have "a_id b \<in> a_id ` set (attempts d)" by (rule inv_keys_attempt [OF queue_invD(1) [OF inv] True])
        then have "a_id b \<noteq> fresh_id E" using c(11) by metis
        then have "b \<in> set (attempts d)" using ab(2) c(3) by (auto simp: c(8))
        with a ab True have "superseded d ar" unfolding superseded_def by blast
        with queue_invD(6) [OF inv] old show ?thesis unfolding inv_sure_def by (blast intro: keeps_settled [OF c(10)])
      next
        case False
        with ab(4) obtain r where r: "r \<in> set (recipients d)" "r_id r = ar_recipient_id ar" "r_id r \<in> set ids" unfolding c(12) c(5) by auto
        then have "claimable r" using ch by (auto simp: claim_choice_def claimable_def)
        with waits r show ?thesis by blast
      qed
    qed
    moreover have "settled d' ar" if "r' \<in> set (recipients d')" "r_id r' = ar_recipient_id ar" "claimable r'" for r'
    proof -
      from that(1) obtain r where r: "r \<in> set (recipients d)" "r' = (if r_id r \<in> set ids then send_recipient E (pv_id p) r else r)"
        unfolding c(7) by (rule update_where_memE)
      then have "r' = r" using that(3) by (auto simp: claimable_def split: if_split_asm)
      with waits r(1) that show ?thesis by blast
    qed
    ultimately show ?thesis by blast
  qed
qed

lemma claim_keeps_inv:
  assumes "queue_inv d" and "claim_choice m ids d" and "claim_done E m p ids d j d'"
  shows "queue_inv d'"
  unfolding queue_inv_def using claim_keys [OF assms] claim_lease [OF assms] claim_rcpt [OF assms] claim_gate [OF assms] claim_sure [OF assms] by blast

lemma claim_job_of:
  assumes "queue_inv d" and "claim_done E m p ids d j d'"
  shows "job_of d' j" and "job_of d j0 \<Longrightarrow> job_of d' j0"
proof -
  note c = claim_doneD [OF assms(2)]
  have "(fresh_id E, rid) \<notin> ar_keys d" for rid
  proof
    assume "(fresh_id E, rid) \<in> ar_keys d"
    then have "fresh_id E \<in> a_id ` set (attempts d)" by (rule inv_keys_attempt [OF queue_invD(1) [OF assms(1)]])
    with c(11) show False by simp
  qed
  moreover have "distinct (map rc_ID (j_Recipients j))"
    using queue_invD(1) [OF assms(1)] unfolding c(13) inv_keys_def by (simp add: distinct_map_filter)
  ultimately show "job_of d' j" unfolding job_of_def c(12) by (auto simp: c(1,2,3,8))
  show "job_of d' j0" if "job_of d j0"
  proof -
    have "j_AttemptID j0 \<noteq> fresh_id E" using that c(11) unfolding job_of_def by (metis image_eqI)
    then have "(j_AttemptID j0, rid) \<in> ar_keys d' \<longleftrightarrow> (j_AttemptID j0, rid) \<in> ar_keys d" for rid unfolding c(12) by auto
    then show ?thesis using that unfolding job_of_def c(8) by auto
  qed
qed

end
