(* ===== verification/Message_Base.thy ===== *)
theory Message_Base
  imports Go_Strings
begin

text \<open>
  The values a submission carries besides its content (internal/message): the business reference and tags, the message
  stream and its policies, the budgets, and the canonical text of a deadline, with the calendar that text is written in.
\<close>

subsection \<open>Business reference (business.go)\<close>

record business =
  bu_ClientReference :: string
  bu_Tags :: "string list"

definition lower_alnum :: "char \<Rightarrow> bool" where
  "lower_alnum c = (CHR ''a'' \<le> c \<and> c \<le> CHR ''z'' \<or> is_digit c)"

definition alnum :: "char \<Rightarrow> bool" where
  "alnum c = (CHR ''A'' \<le> c \<and> c \<le> CHR ''Z'' \<or> lower_alnum c)"

definition ValidReference :: "string \<Rightarrow> bool" where
  "ValidReference s = (case s of [] \<Rightarrow> False | c # cs \<Rightarrow> alnum c \<and> length cs \<le> 127 \<and> list_all (\<lambda>c. alnum c \<or> c \<in> set ''._:-'') cs)"

definition ValidTag :: "string \<Rightarrow> bool" where
  "ValidTag s = (case s of [] \<Rightarrow> False | c # cs \<Rightarrow> lower_alnum c \<and> length cs \<le> 31 \<and> list_all (\<lambda>c. lower_alnum c \<or> c \<in> set ''_-'') cs)"

definition Present :: "business \<Rightarrow> bool" where
  "Present b = (bu_ClientReference b \<noteq> [] \<or> bu_Tags b \<noteq> [])"

text \<open>The loop over the sorted tags; its first argument is the tag before, when there is one.\<close>

fun tags_ok :: "string option \<Rightarrow> string list \<Rightarrow> bool" where
  "tags_ok before [] = True"
| "tags_ok before (tag # tags) = (ValidTag tag \<and> before \<noteq> Some tag \<and> tags_ok (Some tag) tags)"

definition Canonical :: "business \<Rightarrow> err + business" where
  "Canonical b =
     (if bu_ClientReference b \<noteq> [] \<and> \<not> ValidReference (bu_ClientReference b) \<or> length (bu_Tags b) > 8 then Inl ErrInvalidSubmission
      else let out = \<lparr>bu_ClientReference = bu_ClientReference b, bu_Tags = sort (bu_Tags b)\<rparr>
           in if tags_ok None (bu_Tags out) then Inr out else Inl ErrInvalidSubmission)"

subsection \<open>Budgets and streams (budget.go, stream.go)\<close>

record submission_budget =
  bg_Minute :: int
  bg_Hour :: int
  bg_Day :: int

definition Valid :: "submission_budget \<Rightarrow> bool" where
  "Valid b = (0 \<le> bg_Minute b \<and> 0 \<le> bg_Hour b \<and> 0 \<le> bg_Day b \<and> bg_Minute b \<le> 2147483647 \<and> bg_Hour b \<le> 2147483647 \<and> bg_Day b \<le> 2147483647)"

record stream_policy =
  sp_Name :: string
  sp_Weight :: int
  sp_Budget :: submission_budget

definition CanonicalStream :: "string \<Rightarrow> err + string" where
  "CanonicalStream name =
     (if name \<in> {[], ''normal''} then Inr ''normal''
      else if name \<in> {''otp'', ''security'', ''receipt''} then Inr name
      else Inl ErrInvalidSubmission)"

fun streams_loop :: "string list \<Rightarrow> stream_policy list \<Rightarrow> err + string list" where
  "streams_loop seen [] = Inr seen"
| "streams_loop seen (p # ps) =
     (case CanonicalStream (sp_Name p) of
        Inl _ \<Rightarrow> Inl ErrInvalidSubmission
      | Inr name \<Rightarrow>
          if sp_Name p = [] \<or> name \<in> set seen \<or> sp_Weight p < 1 \<or> sp_Weight p > 8 \<or> \<not> Valid (sp_Budget p) then Inl ErrInvalidSubmission
          else streams_loop (name # seen) ps)"

definition CanonicalStreams :: "stream_policy list \<Rightarrow> err + stream_policy list" where
  "CanonicalStreams policies =
     (if length policies > 4 then Inl ErrInvalidSubmission
      else bind_res (streams_loop [] policies) (\<lambda>seen.
        Inr (if ''normal'' \<in> set seen then policies
             else policies @ [\<lparr>sp_Name = ''normal'', sp_Weight = 1, sp_Budget = \<lparr>bg_Minute = 0, bg_Hour = 0, bg_Day = 0\<rparr>\<rparr>])))"

subsection \<open>The calendar\<close>

text \<open>
  Package time counts days from the first of January of year 1 in cycles of 400, 100, 4 and 1 years. The last
  year of a century and of a four-year cycle may be longer by a day, hence the two minima.
\<close>

definition leap :: "int \<Rightarrow> bool" where
  "leap y = (y mod 4 = 0 \<and> (y mod 100 \<noteq> 0 \<or> y mod 400 = 0))"

definition year_day :: "int \<Rightarrow> int \<times> int" where
  "year_day n =
     (let n400 = n div 146097; r = n mod 146097;
          n100 = min 3 (r div 36524); r = r - 36524 * n100;
          n4 = r div 1461; r = r mod 1461;
          n1 = min 3 (r div 365)
      in (400 * n400 + 100 * n100 + 4 * n4 + n1 + 1, r - 365 * n1))"

definition month_lengths :: "int \<Rightarrow> int list" where
  "month_lengths y = [31, if leap y then 29 else 28, 31, 30, 31, 30, 31, 31, 30, 31, 30, 31]"

fun month_day :: "int list \<Rightarrow> int \<Rightarrow> nat \<times> int" where
  "month_day [] d = (1, d + 1)"
| "month_day (l # ls) d = (if d < l then (1, d + 1) else let (m, k) = month_day ls (d - l) in (Suc m, k))"

definition Year :: "time \<Rightarrow> int" where
  "Year t = fst (year_day (t div (24 * Hour)))"

definition pad2 :: "int \<Rightarrow> string" where
  "pad2 n = [chr (48 + nat (n div 10) mod 10), chr (48 + nat n mod 10)]"

definition pad4 :: "int \<Rightarrow> string" where
  "pad4 n = [chr (48 + nat (n div 1000) mod 10), chr (48 + nat (n div 100) mod 10), chr (48 + nat (n div 10) mod 10), chr (48 + nat n mod 10)]"

text \<open>Format(time.RFC3339) of a time in UTC with a year of four digits.\<close>

definition rfc3339 :: "time \<Rightarrow> string" where
  "rfc3339 t =
     (let (y, yd) = year_day (t div (24 * Hour)); (m, k) = month_day (month_lengths y) yd; s = t div Second mod 86400
      in pad4 y @ ''-'' @ pad2 (int m) @ ''-'' @ pad2 k @ ''T'' @ pad2 (s div 3600) @ '':'' @ pad2 (s div 60 mod 60) @ '':'' @ pad2 (s mod 60) @ ''Z'')"

subsection \<open>Deadlines (expiry.go)\<close>

text \<open>A time.Time is an instant and the offset of its location, in seconds east of UTC.\<close>

record go_time =
  gt_instant :: time
  gt_offset :: int

definition zero_time :: go_time where
  "zero_time = \<lparr>gt_instant = 0, gt_offset = 0\<rparr>"

definition CanonicalExpiry :: "go_time \<Rightarrow> err + string" where
  "CanonicalExpiry at =
     (if IsZero (gt_instant at) then Inr []
      else if Year (gt_instant at) < 1 \<or> Year (gt_instant at) > 9999 \<or> gt_instant at mod Second \<noteq> 0
          \<or> gt_offset at \<le> - 24 * 3600 \<or> gt_offset at \<ge> 24 * 3600 then Inl ErrInvalidSubmission
      else Inr (rfc3339 (gt_instant at)))"

text \<open>The cast \<^verbatim>\<open>text::timestamptz\<close> of PostgreSQL on a text of that form: a real date and time of day, or an error.\<close>

definition pg_timestamptz :: "string \<Rightarrow> time option" where
  "pg_timestamptz s =
     (if length s = 20 \<and> s ! 4 = CHR ''-'' \<and> s ! 7 = CHR ''-'' \<and> s ! 10 = CHR ''T'' \<and> s ! 13 = CHR '':'' \<and> s ! 16 = CHR '':'' \<and> s ! 19 = CHR ''Z''
        \<and> list_all (\<lambda>i. is_digit (s ! i)) [0, 1, 2, 3, 5, 6, 8, 9, 11, 12, 14, 15, 17, 18]
      then let n = (\<lambda>i k. digits_value (take k (drop i s))); y = n 0 4; m = n 5 2; k = n 8 2; h = n 11 2; mi = n 14 2; se = n 17 2
        in if y < 1 \<or> m < 1 \<or> m > 12 \<or> k < 1 \<or> k > month_lengths y ! nat (m - 1) \<or> h > 23 \<or> mi > 59 \<or> se > 59 then None
           else Some (((365 * (y - 1) + (y - 1) div 4 - (y - 1) div 100 + (y - 1) div 400 + sum_list (take (nat (m - 1)) (month_lengths y)) + k - 1) * 86400
                       + h * 3600 + mi * 60 + se) * Second)
      else None)"

subsection \<open>Lemmas\<close>

text \<open>The table constraints on the two columns of a business reference (migrations/00015, client_reference_bound and valid_business_tags).\<close>

definition business_constraint :: "business \<Rightarrow> bool" where
  "business_constraint b = ((bu_ClientReference b = [] \<or> ValidReference (bu_ClientReference b)) \<and> length (bu_Tags b) \<le> 8
     \<and> list_all ValidTag (bu_Tags b) \<and> bu_Tags b = sort (remdups (bu_Tags b)))"

lemma tags_ok_sorted:
  assumes "sorted ts" and "case before of None \<Rightarrow> True | Some t \<Rightarrow> list_all (\<lambda>x. t \<le> x) ts"
  shows "tags_ok before ts \<longleftrightarrow> list_all ValidTag ts \<and> distinct ts \<and> (case before of None \<Rightarrow> True | Some t \<Rightarrow> t \<notin> set ts)"
  using assms
proof (induction ts arbitrary: before)
  case Nil
  then show ?case by (simp split: option.split)
next
  case (Cons t ts)
  then have IH: "tags_ok (Some t) ts \<longleftrightarrow> list_all ValidTag ts \<and> distinct ts \<and> t \<notin> set ts" by (simp add: list_all_iff)
  have "b \<notin> set ts" if "before = Some b" "b \<noteq> t" for b
    using Cons.prems that by (auto simp: list_all_iff)
  then show ?case by (cases before) (auto simp: IH)
qed

lemma sorted_remdups_sort: "bu_Tags b = sort (remdups (bu_Tags b)) \<longleftrightarrow> sorted (bu_Tags b) \<and> distinct (bu_Tags b)"
  by (metis distinct_remdups distinct_remdups_id distinct_sort sorted_sort sorted_sort_id)

lemma Canonical_Inr: "Canonical b = Inr c \<longleftrightarrow>
   c = \<lparr>bu_ClientReference = bu_ClientReference b, bu_Tags = sort (bu_Tags b)\<rparr> \<and> (bu_ClientReference b = [] \<or> ValidReference (bu_ClientReference b))
   \<and> length (bu_Tags b) \<le> 8 \<and> list_all ValidTag (bu_Tags b) \<and> distinct (bu_Tags b)"
  using tags_ok_sorted [of "sort (bu_Tags b)" None] by (auto simp: Canonical_def Let_def list_all_iff)

lemma Canonical_Inl: "Canonical b = Inl e \<Longrightarrow> e = ErrInvalidSubmission"
  by (auto simp: Canonical_def Let_def split: if_split_asm)

lemma CanonicalStream_Inr: "CanonicalStream n = Inr s \<Longrightarrow> s \<in> {''normal'', ''otp'', ''security'', ''receipt''} \<and> (n \<noteq> [] \<longrightarrow> s = n)"
  by (auto simp: CanonicalStream_def split: if_split_asm)

lemma streams_loop_Inr:
  assumes "streams_loop seen ps = Inr out" and "distinct seen" and "set seen \<subseteq> {''normal'', ''otp'', ''security'', ''receipt''}"
  shows "set out = set seen \<union> sp_Name ` set ps" and "distinct (map sp_Name ps)" and "set seen \<inter> sp_Name ` set ps = {}"
    and "set out \<subseteq> {''normal'', ''otp'', ''security'', ''receipt''}"
    and "list_all (\<lambda>p. 1 \<le> sp_Weight p \<and> sp_Weight p \<le> 8 \<and> Valid (sp_Budget p)) ps"
proof -
  have "set out = set seen \<union> sp_Name ` set ps \<and> distinct (map sp_Name ps) \<and> set seen \<inter> sp_Name ` set ps = {}
    \<and> set out \<subseteq> {''normal'', ''otp'', ''security'', ''receipt''} \<and> list_all (\<lambda>p. 1 \<le> sp_Weight p \<and> sp_Weight p \<le> 8 \<and> Valid (sp_Budget p)) ps"
    using assms
  proof (induction ps arbitrary: seen)
    case Nil
    then show ?case by simp
  next
    case (Cons p ps)
    from Cons.prems(1) obtain name where name: "CanonicalStream (sp_Name p) = Inr name" "sp_Name p \<noteq> []" "name \<notin> set seen"
      "1 \<le> sp_Weight p \<and> sp_Weight p \<le> 8 \<and> Valid (sp_Budget p)" "streams_loop (name # seen) ps = Inr out"
      by (auto split: sum.split_asm if_split_asm)
    from CanonicalStream_Inr [OF name(1)] name(2) have n: "name = sp_Name p" "sp_Name p \<in> {''normal'', ''otp'', ''security'', ''receipt''}" by auto
    with Cons.IH [OF name(5)] Cons.prems(2,3) name(3,4) show ?case by auto
  qed
  then show "set out = set seen \<union> sp_Name ` set ps" "distinct (map sp_Name ps)" "set seen \<inter> sp_Name ` set ps = {}"
    "set out \<subseteq> {''normal'', ''otp'', ''security'', ''receipt''}" "list_all (\<lambda>p. 1 \<le> sp_Weight p \<and> sp_Weight p \<le> 8 \<and> Valid (sp_Budget p)) ps" by blast+
qed

lemma month_day_split:
  assumes "month_day ls d = (m, k)" and "0 \<le> d" and "d < sum_list ls"
  shows "1 \<le> m \<and> m \<le> length ls \<and> 1 \<le> k \<and> k \<le> ls ! (m - 1) \<and> sum_list (take (m - 1) ls) + k - 1 = d"
  using assms
proof (induction ls arbitrary: d m)
  case Nil
  then show ?case by simp
next
  case (Cons l ls)
  show ?case
  proof (cases "d < l")
    case True
    with Cons.prems show ?thesis by auto
  next
    case False
    with Cons.prems obtain m' where m': "month_day ls (d - l) = (m', k)" "m = Suc m'" by (auto simp: Let_def split: prod.split_asm)
    from Cons.IH [OF m'(1)] False Cons.prems(3) have "1 \<le> m' \<and> m' \<le> length ls \<and> 1 \<le> k \<and> k \<le> ls ! (m' - 1) \<and> sum_list (take (m' - 1) ls) + k - 1 = d - l" by simp
    with m'(2) show ?thesis by (cases m') auto
  qed
qed

lemma month_lengths_simps [simp]: "length (month_lengths y) = 12" "sum_list (month_lengths y) = (if leap y then 366 else 365)"
  by (simp_all add: month_lengths_def)

lemma month_length_bound: "m < 12 \<Longrightarrow> month_lengths y ! m \<le> 31"
  by (simp add: month_lengths_def nth_Cons split: nat.split)

lemma year_day_spec:
  assumes "year_day n = (y, d)"
  shows "0 \<le> d" and "d < (if leap y then 366 else 365)" and "365 * (y - 1) + (y - 1) div 4 - (y - 1) div 100 + (y - 1) div 400 + d = n"
    and "1 \<le> y \<longleftrightarrow> 0 \<le> n"
proof -
  define a where "a = n div 146097"
  define r where "r = n mod 146097"
  define b where "b = min 3 (r div 36524)"
  define r' where "r' = r - 36524 * b"
  define c where "c = r' div 1461"
  define r'' where "r'' = r' mod 1461"
  define e where "e = min 3 (r'' div 365)"
  have "year_day n = (400 * a + 100 * b + 4 * c + e + 1, r'' - 365 * e)"
    unfolding year_day_def Let_def e_def r''_def c_def r'_def b_def r_def a_def by (rule refl)
  with assms have y: "y = 400 * a + 100 * b + 4 * c + e + 1" and d: "d = r'' - 365 * e" by simp_all
  have r: "0 \<le> r" "r < 146097" "n = 146097 * a + r" by (simp_all add: r_def a_def)
  then have b: "0 \<le> b" "b \<le> 3" "0 \<le> r'" "b < 3 \<longrightarrow> r' < 36524" "b = 3 \<longrightarrow> r' < 36525" 
    by (auto simp: b_def r'_def min_def)
  have c: "r' = 1461 * c + r''" "0 \<le> r''" "r'' < 1461" by (simp_all add: c_def r''_def)
  with b have c24: "0 \<le> c" "c \<le> 24" "c = 24 \<and> b < 3 \<longrightarrow> r'' < 1460" by auto
  from c c24 have e: "0 \<le> e" "e \<le> 3" "0 \<le> d" "e < 3 \<longrightarrow> d < 365" "e = 3 \<longrightarrow> d < 366" "e = 3 \<and> c = 24 \<and> b < 3 \<longrightarrow> d < 365"
    by (auto simp: e_def d min_def)
  have div4: "(y - 1) div 4 = 100 * a + 25 * b + c" by (rule int_div_pos_eq [of _ _ _ e]) (use y e in simp_all)
  have div100: "(y - 1) div 100 = 4 * a + b" by (rule int_div_pos_eq [of _ _ _ "4 * c + e"]) (use y c24 e in simp_all)
  have div400: "(y - 1) div 400 = a" by (rule int_div_pos_eq [of _ _ _ "100 * b + 4 * c + e"]) (use y b c24 e in simp_all)
  show "0 \<le> d" by (rule e(3))
  have rest: "100 * b + 4 * c + e < 400" "0 \<le> 100 * b + 4 * c + e" using b c24 e by simp_all
  have "1 \<le> y \<longleftrightarrow> 0 \<le> a" using y rest by linarith
  moreover have "0 \<le> n \<longleftrightarrow> 0 \<le> a" using r by linarith
  ultimately show "1 \<le> y \<longleftrightarrow> 0 \<le> n" by simp
  show "365 * (y - 1) + (y - 1) div 4 - (y - 1) div 100 + (y - 1) div 400 + d = n"
    unfolding div4 div100 div400 using y d c(1) r(3) r'_def by simp
  have "leap y" if "d = 365"
  proof -
    from that e have e3: "e = 3" "\<not> (c = 24 \<and> b < 3)" by auto
    then have y': "y = 4 * (c + 1) + 100 * (4 * a + b)" "y = 4 * (100 * a + 25 * b + c + 1)" using y by simp_all
    have "y mod 4 = 0" by (simp only: y'(2) mod_mult_self1_is_0)
    moreover have "y mod 100 = 4 * (c + 1) mod 100" by (simp only: y'(1) mod_mult_self2)
    moreover have "4 * (c + 1) mod 100 = 4 * (c + 1)" if "c < 24" using c24(1) that by simp
    moreover have "y mod 400 = 0" if "c = 24"
    proof -
      have "y = 400 * (a + 1)" using that e3 b(2) y by simp
      then show ?thesis by (simp only: mod_mult_self1_is_0)
    qed
    ultimately show ?thesis unfolding leap_def using c24(1,2) by (cases "c = 24") auto
  qed
  with e(3-5) e(1,2) show "d < (if leap y then 366 else 365)" by (cases "d = 365") auto
qed

lemma digits_pad: "0 \<le> n \<Longrightarrow> n < 100 \<Longrightarrow> digits_value (pad2 n) = n" "0 \<le> n \<Longrightarrow> n < 10000 \<Longrightarrow> digits_value (pad4 n) = n"
  "list_all is_digit (pad2 n)" "list_all is_digit (pad4 n)"
proof -
  show "list_all is_digit (pad2 n)" "list_all is_digit (pad4 n)" by (simp_all add: pad2_def pad4_def is_digit_chr)
  have b: "int (byte (chr (48 + m mod 10)) - 48) = int (m mod 10)" for m by (simp add: byte_digit)
  have v: "digits_value [chr (48 + i mod 10), chr (48 + j mod 10)] = 10 * int (i mod 10) + int (j mod 10)" for i j
    by (simp add: digits_value_def b)
  have w: "digits_value [chr (48 + g mod 10), chr (48 + h mod 10), chr (48 + i mod 10), chr (48 + j mod 10)]
      = 1000 * int (g mod 10) + 100 * int (h mod 10) + 10 * int (i mod 10) + int (j mod 10)" for g h i j
    by (simp add: digits_value_def b)
  have nm: "int (nat m mod 10) = m mod 10" if "0 \<le> m" for m using that by (simp add: zmod_int)
  show "digits_value (pad2 n) = n" if n: "0 \<le> n" "n < 100"
  proof -
    have "10 * (n div 10 mod 10) + n mod 10 = n" using n by simp
    moreover have "0 \<le> n div 10" using n by simp
    ultimately show ?thesis unfolding pad2_def v nm [OF n(1)] by (simp only: nm)
  qed
  show "digits_value (pad4 n) = n" if n: "0 \<le> n" "n < 10000"
  proof -
    have ten: "10 * (i div 10) + i mod 10 = i" for i :: int by simp
    have d: "n div 10 div 10 = n div 100" "n div 100 div 10 = n div 1000" by (simp_all add: zdiv_zmult2_eq [symmetric])
    have "n div 1000 mod 10 = n div 1000" using n by simp
    then have "1000 * (n div 1000 mod 10) + 100 * (n div 100 mod 10) + 10 * (n div 10 mod 10) + n mod 10 = n"
      using ten [of n] ten [of "n div 10"] ten [of "n div 100"] unfolding d by linarith
    moreover have "0 \<le> n div 10" "0 \<le> n div 100" "0 \<le> n div 1000" using n by simp_all
    ultimately show ?thesis unfolding pad4_def w nm [OF n(1)] by (simp only: nm)
  qed
qed

text \<open>The text of an instant is read back as that instant.\<close>

lemma pg_timestamptz_fields:
  assumes "length ys = 4" "length ms = 2" "length ds = 2" "length hs = 2" "length mis = 2" "length ss = 2"
    and "list_all is_digit (ys @ ms @ ds @ hs @ mis @ ss)"
    and "digits_value ys = y" "digits_value ms = int m" "digits_value ds = k" "digits_value hs = h" "digits_value mis = mi" "digits_value ss = se"
    and "1 \<le> y" "1 \<le> m" "m \<le> 12" "1 \<le> k" "k \<le> month_lengths y ! (m - 1)" "h < 24" "mi < 60" "se < 60"
  shows "pg_timestamptz (ys @ ''-'' @ ms @ ''-'' @ ds @ ''T'' @ hs @ '':'' @ mis @ '':'' @ ss @ ''Z'')
     = Some (((365 * (y - 1) + (y - 1) div 4 - (y - 1) div 100 + (y - 1) div 400 + sum_list (take (m - 1) (month_lengths y)) + k - 1) * 86400
              + h * 3600 + mi * 60 + se) * Second)"
proof -
  have two: "\<exists>a b. xs = [a, b]" if "length xs = 2" for xs :: string using that by (auto simp: length_Suc_conv numeral_2_eq_2)
  have four: "\<exists>a b c d. xs = [a, b, c, d]" if "length xs = 4" for xs :: string using that by (auto simp: length_Suc_conv eval_nat_numeral)
  obtain a b c d where ys: "ys = [a, b, c, d]" using four [OF assms(1)] by blast
  obtain e f g i j l n o' p q where l: "ms = [e, f]" "ds = [g, i]" "hs = [j, l]" "mis = [n, o']" "ss = [p, q]"
    using two [OF assms(2)] two [OF assms(3)] two [OF assms(4)] two [OF assms(5)] two [OF assms(6)] by blast
  have m': "nat (int m - 1) = m - 1" by simp
  show ?thesis using assms(7-) unfolding ys l pg_timestamptz_def Let_def by (simp add: m')
qed

lemma rfc3339_round_trip:
  assumes "0 < t" and "Year t \<le> 9999" and "t mod Second = 0"
  shows "pg_timestamptz (rfc3339 t) = Some t"
proof -
  obtain y d where yd: "year_day (t div (24 * Hour)) = (y, d)" by fastforce
  obtain m k where mk: "month_day (month_lengths y) d = (m, k)" by fastforce
  note spec = year_day_spec [OF yd]
  have m: "1 \<le> m" "m \<le> 12" "1 \<le> k" "k \<le> month_lengths y ! (m - 1)" "sum_list (take (m - 1) (month_lengths y)) + k - 1 = d"
    using month_day_split [OF mk] spec(1,2) by simp_all
  have "m - 1 < 12" using m(1,2) by simp
  from month_length_bound [OF this, of y] m(4) have k31: "k \<le> 31" by simp
  have n0: "0 \<le> t div (24 * Hour)" using assms(1) by (simp add: duration_defs pos_imp_zdiv_nonneg_iff)
  have y: "1 \<le> y" "y \<le> 9999"
  proof -
    show "y \<le> 9999" using assms(2) by (simp add: Year_def yd)
    show "1 \<le> y" using spec(4) n0 by simp
  qed
  define s where "s = t div Second mod 86400"
  have s: "0 \<le> s" "s < 86400" by (simp_all add: s_def)
  have f: "0 \<le> s div 3600" "s div 3600 < 24" "0 \<le> s div 60 mod 60" "s div 60 mod 60 < 60" "0 \<le> s mod 60" "s mod 60 < 60"
    using s by simp_all
  have "s div 60 div 60 * 60 + s div 60 mod 60 = s div 60" "s div 60 * 60 + s mod 60 = s" by (rule div_mult_mod_eq)+
  moreover have "s div 60 div 60 = s div 3600" by (simp add: zdiv_zmult2_eq [symmetric])
  ultimately have f7: "s div 3600 * 3600 + s div 60 mod 60 * 60 + s mod 60 = s" by linarith
  have shape: "rfc3339 t = pad4 y @ ''-'' @ pad2 (int m) @ ''-'' @ pad2 k @ ''T'' @ pad2 (s div 3600) @ '':'' @ pad2 (s div 60 mod 60) @ '':'' @ pad2 (s mod 60) @ ''Z''"
    by (simp add: rfc3339_def yd mk s_def Let_def)
  have two: "digits_value (pad2 i) = i" if "0 \<le> i" "i < 60" for i using that by (intro digits_pad(1)) simp_all
  have m60: "0 \<le> int m" "int m < 60" "0 \<le> k" "k < 60" "s div 3600 < 60" using m(2,3) k31 f(2) by simp_all
  have dig: "digits_value (pad4 y) = y" by (rule digits_pad(2)) (use y in simp_all)
  note dig = dig two [OF m60(1,2)] two [OF m60(3,4)] two [OF f(1) m60(5)] two [OF f(3,4)] two [OF f(5,6)]
  have len: "length (pad4 i) = 4" "length (pad2 i) = 2" for i by (simp_all add: pad4_def pad2_def)
  have "t = (t div (24 * Hour) * 86400 + s) * Second"
  proof -
    have a: "t = t div Second * Second" using div_mult_mod_eq [of t Second] assms(3) by simp
    have "t div Second = t div Second div 86400 * 86400 + s" unfolding s_def by (rule div_mult_mod_eq [symmetric])
    moreover have "t div Second div 86400 = t div (24 * Hour)" by (simp add: zdiv_zmult2_eq [symmetric] duration_defs)
    ultimately have "t div Second = t div (24 * Hour) * 86400 + s" by (simp only:)
    with a show ?thesis by (simp only:)
  qed
  moreover have "365 * (y - 1) + (y - 1) div 4 - (y - 1) div 100 + (y - 1) div 400 + sum_list (take (m - 1) (month_lengths y)) + k - 1 = t div (24 * Hour)"
    using spec(3) m(5) by linarith
  ultimately have "t = ((365 * (y - 1) + (y - 1) div 4 - (y - 1) div 100 + (y - 1) div 400 + sum_list (take (m - 1) (month_lengths y)) + k - 1) * 86400
      + s div 3600 * 3600 + s div 60 mod 60 * 60 + s mod 60) * Second"
    using f7 by (simp only: add.assoc)
  then have val: "Some (((365 * (y - 1) + (y - 1) div 4 - (y - 1) div 100 + (y - 1) div 400 + sum_list (take (m - 1) (month_lengths y)) + k - 1) * 86400
      + s div 3600 * 3600 + s div 60 mod 60 * 60 + s mod 60) * Second) = Some t"
    by (rule arg_cong [of _ _ Some, OF sym])
  have digs: "list_all is_digit (pad4 y @ pad2 (int m) @ pad2 k @ pad2 (s div 3600) @ pad2 (s div 60 mod 60) @ pad2 (s mod 60))"
    by (simp add: digits_pad)
  show ?thesis unfolding shape pg_timestamptz_fields [OF len len(2) len(2) len(2) len(2) digs dig y(1) m(1-4) f(2,4,6)] by (rule val)
qed

lemma CanonicalExpiry_Inr:
  assumes "CanonicalExpiry at = Inr s"
  shows "s = [] \<longleftrightarrow> IsZero (gt_instant at)" and "s \<noteq> [] \<Longrightarrow> s = rfc3339 (gt_instant at) \<and> pg_timestamptz s = Some (gt_instant at) \<and> gt_instant at mod Second = 0"
proof -
  have ne: "rfc3339 t \<noteq> []" for t by (simp add: rfc3339_def pad4_def split_beta Let_def)
  show "s = [] \<longleftrightarrow> IsZero (gt_instant at)" using assms ne by (auto simp: CanonicalExpiry_def split: if_split_asm)
  assume "s \<noteq> []"
  with assms have c: "gt_instant at \<noteq> 0" "1 \<le> Year (gt_instant at)" "Year (gt_instant at) \<le> 9999" "gt_instant at mod Second = 0" "s = rfc3339 (gt_instant at)"
    by (auto simp: CanonicalExpiry_def split: if_split_asm)
  obtain y d where yd: "year_day (gt_instant at div (24 * Hour)) = (y, d)" by fastforce
  have "0 \<le> gt_instant at div (24 * Hour)" using year_day_spec(4) [OF yd] c(2) by (simp add: Year_def yd)
  then have "0 < gt_instant at" using c(1) by (simp add: duration_defs pos_imp_zdiv_nonneg_iff)
  with c rfc3339_round_trip show "s = rfc3339 (gt_instant at) \<and> pg_timestamptz s = Some (gt_instant at) \<and> gt_instant at mod Second = 0" by simp
qed

lemma expiry_same: "CanonicalExpiry at = Inr s \<Longrightarrow> CanonicalExpiry at' = Inr s \<Longrightarrow> gt_instant at = gt_instant at'"
  using CanonicalExpiry_Inr [of at s] CanonicalExpiry_Inr [of at' s] by (metis option.inject)

subsection \<open>Properties\<close>

text \<open>
  C25: A business reference that Canonical accepts satisfies the constraints the table messages has on its columns: the reference and the tags match their
  patterns, there are at most eight tags, in order and without repetition. The tags are the given ones; the result is a fixed point, and
  a value that already satisfies the constraints is accepted as it is.
\<close>

theorem canonical_business:
  "(\<forall>c. Canonical b = Inr c \<longrightarrow> business_constraint c \<and> Canonical c = Inr c \<and> set (bu_Tags c) = set (bu_Tags b) \<and> bu_ClientReference c = bu_ClientReference b)
   \<and> (business_constraint b \<longrightarrow> Canonical b = Inr b)"
proof (intro conjI allI impI)
  fix c assume c: "Canonical b = Inr c"
  then show "Canonical c = Inr c" "set (bu_Tags c) = set (bu_Tags b)" "bu_ClientReference c = bu_ClientReference b"
    by (auto simp: Canonical_Inr list_all_iff sorted_sort_id)
  from c show "business_constraint c"
    unfolding business_constraint_def sorted_remdups_sort by (auto simp: Canonical_Inr list_all_iff)
next
  assume "business_constraint b"
  then show "Canonical b = Inr b"
    unfolding business_constraint_def sorted_remdups_sort Canonical_Inr by (auto simp: sorted_sort_id)
qed

theorem canonical_business_witness:
  "business_constraint \<lparr>bu_ClientReference = ''order:7'', bu_Tags = [''a1'', ''b'']\<rparr>"
proof -
  have "Canonical \<lparr>bu_ClientReference = ''order:7'', bu_Tags = [''b'', ''a1'']\<rparr> = Inr \<lparr>bu_ClientReference = ''order:7'', bu_Tags = [''a1'', ''b'']\<rparr>"
    by code_simp
  with canonical_business show ?thesis by blast
qed

text \<open>
  C26: A list of stream policies that CanonicalStreams accepts names every stream at most once, only the four known ones, always the stream normal, with weights
  from 1 to 8 and valid budgets; it keeps the given policies and has at most four of them.
\<close>

theorem canonical_streams:
  assumes "CanonicalStreams ps = Inr out"
  shows "distinct (map sp_Name out) \<and> set (map sp_Name out) \<subseteq> {''normal'', ''otp'', ''security'', ''receipt''} \<and> ''normal'' \<in> set (map sp_Name out)
     \<and> list_all (\<lambda>p. 1 \<le> sp_Weight p \<and> sp_Weight p \<le> 8 \<and> Valid (sp_Budget p)) out \<and> length out \<le> 4 \<and> prefix ps out"
proof -
  from assms obtain seen where seen: "streams_loop [] ps = Inr seen"
    and out: "out = (if ''normal'' \<in> set seen then ps
        else ps @ [\<lparr>sp_Name = ''normal'', sp_Weight = 1, sp_Budget = \<lparr>bg_Minute = 0, bg_Hour = 0, bg_Day = 0\<rparr>\<rparr>])"
    by (auto simp: CanonicalStreams_def bind_res_Inr_iff split: if_split_asm)
  note s = streams_loop_Inr [OF seen]
  have names: "distinct (map sp_Name out)" "set (map sp_Name out) \<subseteq> {''normal'', ''otp'', ''security'', ''receipt''}" "''normal'' \<in> set (map sp_Name out)"
    using s out by auto
  have "length out = card (set (map sp_Name out))" using distinct_card [OF names(1)] by simp
  also have "\<dots> \<le> card {''normal'', ''otp'', ''security'', ''receipt''}" by (rule card_mono) (use names(2) in auto)
  finally have "length out \<le> 4" by simp
  moreover have "list_all (\<lambda>p. 1 \<le> sp_Weight p \<and> sp_Weight p \<le> 8 \<and> Valid (sp_Budget p)) out" using s(5) out by (simp add: Valid_def)
  ultimately show ?thesis using names out by simp
qed

theorem canonical_streams_witness:
  "prefix [] [\<lparr>sp_Name = ''normal'', sp_Weight = 1, sp_Budget = \<lparr>bg_Minute = 0, bg_Hour = 0, bg_Day = 0\<rparr>\<rparr>]
   \<and> distinct (map sp_Name [\<lparr>sp_Name = ''normal'', sp_Weight = 1, sp_Budget = \<lparr>bg_Minute = 0, bg_Hour = 0, bg_Day = 0\<rparr>\<rparr>])"
  using canonical_streams [of "[]" "[\<lparr>sp_Name = ''normal'', sp_Weight = 1, sp_Budget = \<lparr>bg_Minute = 0, bg_Hour = 0, bg_Day = 0\<rparr>\<rparr>]"]
  by (simp add: CanonicalStreams_def)

text \<open>
  C27: The canonical text of a deadline is empty exactly for the zero time, and otherwise PostgreSQL reads it back as exactly the same instant, so
  the column and the fingerprint of the request stand for the same deadline and two deadlines with the same text are the same instant.
\<close>

theorem expiry_round_trip:
  assumes "CanonicalExpiry at = Inr s"
  shows "(if IsZero (gt_instant at) then s = [] else pg_timestamptz s = Some (gt_instant at))
     \<and> (\<forall>at'. CanonicalExpiry at' = Inr s \<longrightarrow> gt_instant at' = gt_instant at)"
  using CanonicalExpiry_Inr [OF assms] expiry_same [OF assms] by metis

text \<open>The first second of the leap day of the year 2024, given in a zone one hour ahead of UTC.\<close>

theorem expiry_round_trip_witness:
  "pg_timestamptz ''2024-02-29T00:00:00Z'' = Some (63844761600 * Second)"
proof -
  have "CanonicalExpiry \<lparr>gt_instant = 63844761600 * Second, gt_offset = 3600\<rparr> = Inr ''2024-02-29T00:00:00Z''" by code_simp
  from expiry_round_trip [OF this] show ?thesis by (simp add: Second_def)
qed

end
