(* ===== verification/Go_Json.thy ===== *)
theory Go_Json
  imports Go_Strings
begin

text \<open>
  The text encoding/json.Marshal prints for a document: strings with their escapes (the characters that matter to HTML
  included), integers, arrays and objects without white space, in the order given. On documents whose strings are ASCII the
  text determines the document, also when more text follows.
\<close>

subsection \<open>Printing\<close>

definition hex_lower :: "nat \<Rightarrow> char" where
  "hex_lower n = ''0123456789abcdef'' ! (n mod 16)"

definition json_char :: "char \<Rightarrow> string" where
  "json_char c =
     (if c = CHR 0x22 \<or> c = CHR 0x5C then [CHR 0x5C, c]
      else if byte c = 8 then [CHR 0x5C, CHR ''b''] else if byte c = 12 then [CHR 0x5C, CHR ''f'']
      else if byte c = 10 then [CHR 0x5C, CHR ''n''] else if byte c = 13 then [CHR 0x5C, CHR ''r'']
      else if byte c = 9 then [CHR 0x5C, CHR ''t'']
      else if byte c < 32 \<or> c \<in> set ''<>&'' then [CHR 0x5C, CHR ''u'', CHR ''0'', CHR ''0'', hex_lower (byte c div 16), hex_lower (byte c)]
      else [c])"

text \<open>The line separators U+2028 and U+2029 are escaped; a byte that is not part of a rune becomes the escaped replacement character.\<close>

function json_escape :: "string \<Rightarrow> string" where
  "json_escape s =
     (case s of [] \<Rightarrow> []
      | c # cs \<Rightarrow>
          if byte c < 128 then json_char c @ json_escape cs
          else (case rune_len s of None \<Rightarrow> CHR 0x5C # ''ufffd'' @ json_escape cs
                | Some n \<Rightarrow> (if n = 0 then [] else
                    (let r = take n s
                     in (if map byte r = [226, 128, 168] then CHR 0x5C # ''u2028'' else if map byte r = [226, 128, 169] then CHR 0x5C # ''u2029'' else r)
                        @ json_escape (drop n s)))))"
  by pat_completeness auto
termination
  by (relation "measure length") auto

declare json_escape.simps [simp del]

definition json_quote :: "string \<Rightarrow> string" where
  "json_quote s = [CHR 0x22] @ json_escape s @ [CHR 0x22]"

text \<open>The items of an array or an object: nothing, or the first and each of the others behind a comma, and the closing bracket.\<close>

fun items_tail :: "char \<Rightarrow> string list \<Rightarrow> string" where
  "items_tail z [] = [z]"
| "items_tail z (x # xs) = CHR '','' # x @ items_tail z xs"

definition items :: "char \<Rightarrow> string list \<Rightarrow> string" where
  "items z xs = (case xs of [] \<Rightarrow> [z] | y # ys \<Rightarrow> y @ items_tail z ys)"

fun json_text :: "json \<Rightarrow> string" where
  "json_text JNull = ''null''"
| "json_text (JBool b) = (if b then ''true'' else ''false'')"
| "json_text (JInt n) = show_int n"
| "json_text (JStr s) = json_quote s"
| "json_text (JArr js) = CHR ''['' # items (CHR '']'') (map json_text js)"
| "json_text (JObj fs) = CHR ''{'' # items (CHR ''}'') (map (\<lambda>(k, j). json_quote k @ CHR '':'' # json_text j) fs)"

subsection \<open>The text determines the document\<close>

definition ascii :: "string \<Rightarrow> bool" where
  "ascii s = list_all (\<lambda>c. byte c < 128) s"

lemma ascii_simps [simp]: "ascii []" "ascii (c # s) = (byte c < 128 \<and> ascii s)" "ascii (s @ t) = (ascii s \<and> ascii t)"
  by (simp_all add: ascii_def)

fun plain :: "json \<Rightarrow> bool" where
  "plain (JStr s) = ascii s"
| "plain (JArr js) = list_all plain js"
| "plain (JObj fs) = list_all (\<lambda>(k, j). ascii k \<and> plain j) fs"
| "plain _ = True"

lemma json_escape_Nil [simp]: "json_escape [] = []"
  by (simp add: json_escape.simps)

lemma json_escape_ascii [simp]: "byte c < 128 \<Longrightarrow> json_escape (c # s) = json_char c @ json_escape s"
  by (simp add: json_escape.simps)

lemma byte_inj: "byte c = byte d \<longleftrightarrow> c = d"
  by (simp add: byte_def)

lemma hex_lower_inj: "hex_lower m = hex_lower n \<longleftrightarrow> m mod 16 = n mod 16"
proof -
  have "list_all (\<lambda>i. list_all (\<lambda>j. (''0123456789abcdef'' ! i = ''0123456789abcdef'' ! j) = (i = j)) [0..<16]) [0..<16]" by code_simp
  then have "(''0123456789abcdef'' ! i = ''0123456789abcdef'' ! j) = (i = j)" if "i < 16" "j < 16" for i j
    using that unfolding list_all_iff by force
  then show ?thesis by (simp add: hex_lower_def)
qed

text \<open>Each character is printed as a word of a code without proper prefixes, and no word begins with the closing quote.\<close>

lemma json_char_cases:
  obtains (plain) "json_char c = [c]" "c \<noteq> CHR 0x22" "c \<noteq> CHR 0x5C"
  | (short) e where "json_char c = [CHR 0x5C, e]" "e \<noteq> CHR ''u''" "(e = CHR 0x22 \<or> e = CHR 0x5C) \<and> c = e \<or> (e, byte c) \<in> {(CHR ''b'', 8), (CHR ''f'', 12), (CHR ''n'', 10), (CHR ''r'', 13), (CHR ''t'', 9)}"
  | (long) "json_char c = [CHR 0x5C, CHR ''u'', CHR ''0'', CHR ''0'', hex_lower (byte c div 16), hex_lower (byte c)]" "byte c < 128"
proof -
  have lt: "byte c < 128" if "c \<in> set ''<>&''" using that by (auto simp: byte_def)
  consider "c = CHR 0x22 \<or> c = CHR 0x5C" | "c \<noteq> CHR 0x22" "c \<noteq> CHR 0x5C" "byte c \<in> {8, 12, 10, 13, 9}"
    | "c \<noteq> CHR 0x22" "c \<noteq> CHR 0x5C" "byte c \<notin> {8, 12, 10, 13, 9}" by blast
  then show thesis
  proof cases
    case 1
    then show ?thesis by (intro short [of c]) (auto simp: json_char_def)
  next
    case 2
    then consider "byte c = 8" | "byte c = 12" | "byte c = 10" | "byte c = 13" | "byte c = 9" by blast
    then show ?thesis
      using 2 short [of "CHR ''b''"] short [of "CHR ''f''"] short [of "CHR ''n''"] short [of "CHR ''r''"] short [of "CHR ''t''"]
      by cases (simp_all add: json_char_def)
  next
    case 3
    then show ?thesis using plain long lt by (cases "byte c < 32 \<or> c \<in> set ''<>&''") (auto simp: json_char_def)
  qed
qed

lemma json_char_prefix_free:
  assumes "json_char c @ x = json_char d @ y"
  shows "c = d \<and> x = y"
proof (cases rule: json_char_cases [of c])
  case plain
  then show ?thesis using assms by (cases rule: json_char_cases [of d]) auto
next
  case (short e)
  then show ?thesis using assms byte_inj [of c d] by (cases rule: json_char_cases [of d]) auto
next
  case long
  have eq: "c = d" if "byte c div 16 = byte d div 16" "byte c mod 16 = byte d mod 16"
    using that byte_inj [of c d] by (metis div_mult_mod_eq)
  show ?thesis
    using assms long by (cases rule: json_char_cases [of d]) (auto simp: hex_lower_inj byte_inj intro: eq)
qed

lemma json_char_no_quote: "json_char c @ x \<noteq> CHR 0x22 # y" "CHR 0x22 # y \<noteq> json_char c @ x"
  by (cases rule: json_char_cases [of c]; auto)+

lemma json_quote_inj:
  assumes "ascii s" "ascii t" "json_quote s @ x = json_quote t @ y"
  shows "s = t \<and> x = y"
proof -
  have "json_escape s @ CHR 0x22 # x = json_escape t @ CHR 0x22 # y \<Longrightarrow> s = t \<and> x = y" for x y
    using assms(1,2)
  proof (induction s arbitrary: t)
    case Nil
    then show ?case by (cases t) (simp_all add: json_char_no_quote)
  next
    case (Cons c s)
    show ?case
    proof (cases t)
      case Nil
      with Cons.prems show ?thesis by (simp add: json_char_no_quote)
    next
      case (Cons d t')
      with Cons.prems have eq: "json_char c @ json_escape s @ CHR 0x22 # x = json_char d @ json_escape t' @ CHR 0x22 # y" and a: "ascii s" "ascii t'" by simp_all
      from json_char_prefix_free [OF eq] Cons.IH [OF _ a] Cons show ?thesis by simp
    qed
  qed
  with assms(3) show ?thesis by (simp add: json_quote_def)
qed

definition no_digit :: "string \<Rightarrow> bool" where
  "no_digit s = (s = [] \<or> \<not> is_digit (hd s))"

lemma digits_split:
  assumes "list_all is_digit a" "list_all is_digit b" "no_digit x" "no_digit y" "a @ x = b @ y"
  shows "a = b \<and> x = y"
  using assms
proof (induction a arbitrary: b)
  case Nil
  then show ?case by (cases b) (auto simp: no_digit_def)
next
  case (Cons c a)
  show ?case
  proof (cases b)
    case Nil
    then have "y = c # a @ x" using Cons.prems(5) by simp
    with Cons.prems(1,4) show ?thesis by (simp add: no_digit_def)
  next
    case (Cons d b')
    then have "a @ x = b' @ y" "c = d" using Cons.prems(5) by simp_all
    with Cons.IH [of b'] Cons.prems(1-4) Cons show ?thesis by simp
  qed
qed

lemma show_nat_inj: "show_nat m = show_nat n \<longleftrightarrow> m = n"
  by (metis digits_value_show_nat of_nat_eq_iff)

lemma show_nat_head: "hd (show_nat n @ x) \<noteq> CHR ''-''"
  using digit_not_sign [OF hd_show_nat [of n]] by simp

lemma show_int_inj:
  assumes "no_digit x" "no_digit y" "show_int m @ x = show_int n @ y"
  shows "m = n \<and> x = y"
proof -
  note split = digits_split [OF show_nat_digits show_nat_digits assms(1,2)]
  consider "m < 0" "n < 0" | "0 \<le> m" "0 \<le> n" | "m < 0 \<longleftrightarrow> 0 \<le> n" by linarith
  then show ?thesis
  proof cases
    case 1
    with assms(3) split [of "nat (- m)" "nat (- n)"] show ?thesis by (auto simp: show_int_def show_nat_inj)
  next
    case 2
    with assms(3) split [of "nat m" "nat n"] show ?thesis by (auto simp: show_int_def show_nat_inj)
  next
    case 3
    with assms(3) show_nat_head [of "nat m" x] show_nat_head [of "nat n" y] show ?thesis
      by (auto simp: show_int_def split: if_split_asm dest: arg_cong [where f = hd])
  qed
qed

lemma items_tail_no_digit: "z \<in> {CHR '']'', CHR ''}''} \<Longrightarrow> no_digit (items_tail z ps @ x)"
  by (cases ps) (auto simp: no_digit_def is_digit_def byte_def)

lemma items_tail_inj:
  assumes "z \<in> {CHR '']'', CHR ''}''}" and "items_tail z (map p as) @ x = items_tail z (map q bs) @ y"
    and "\<And>a b x y. a \<in> set as \<Longrightarrow> b \<in> set bs \<Longrightarrow> no_digit x \<Longrightarrow> no_digit y \<Longrightarrow> p a @ x = q b @ y \<Longrightarrow> a = b \<and> x = y"
  shows "as = bs \<and> x = y"
  using assms(2,3)
proof (induction as arbitrary: bs)
  case Nil
  with assms(1) show ?case by (cases bs) auto
next
  case (Cons a as)
  show ?case
  proof (cases bs)
    case Nil
    with Cons.prems(1) assms(1) show ?thesis by auto
  next
    case (Cons b bs')
    then have "p a @ items_tail z (map p as) @ x = q b @ items_tail z (map q bs') @ y" using Cons.prems(1) by simp
    from Cons.prems(2) [OF _ _ items_tail_no_digit [OF assms(1)] items_tail_no_digit [OF assms(1)] this] Cons
    have ab: "a = b" "items_tail z (map p as) @ x = items_tail z (map q bs') @ y" by simp_all
    have "as = bs' \<and> x = y" by (rule Cons.IH [OF ab(2)], rule Cons.prems(2)) (use Cons in simp_all)
    with ab(1) Cons show ?thesis by simp
  qed
qed

lemma items_inj:
  assumes z: "z \<in> {CHR '']'', CHR ''}''}" and eq: "items z (map p as) @ x = items z (map q bs) @ y"
    and step: "\<And>a b x y. a \<in> set as \<Longrightarrow> b \<in> set bs \<Longrightarrow> no_digit x \<Longrightarrow> no_digit y \<Longrightarrow> p a @ x = q b @ y \<Longrightarrow> a = b \<and> x = y"
    and head: "\<And>a x. a \<in> set as \<Longrightarrow> hd (p a @ x) \<noteq> z \<and> p a \<noteq> []" "\<And>b x. b \<in> set bs \<Longrightarrow> hd (q b @ x) \<noteq> z \<and> q b \<noteq> []"
  shows "as = bs \<and> x = y"
proof (cases as)
  case Nil
  show ?thesis
  proof (cases bs)
    case (Cons b bs')
    with eq Nil have "z # x = q b @ items_tail z (map q bs') @ y" by (simp add: items_def)
    then have "hd (q b @ items_tail z (map q bs') @ y) = z" by (metis list.sel(1))
    with head(2) [of b "items_tail z (map q bs') @ y"] Cons show ?thesis by simp
  qed (use eq Nil in \<open>simp add: items_def\<close>)
next
  case (Cons a as')
  note as = this
  show ?thesis
  proof (cases bs)
    case Nil
    with eq as have "p a @ items_tail z (map p as') @ x = z # y" by (simp add: items_def)
    then have "hd (p a @ items_tail z (map p as') @ x) = z" by simp
    with head(1) [of a "items_tail z (map p as') @ x"] as show ?thesis by simp
  next
    case (Cons b bs')
    then have "p a @ items_tail z (map p as') @ x = q b @ items_tail z (map q bs') @ y" using eq as by (simp add: items_def)
    from step [OF _ _ items_tail_no_digit [OF z] items_tail_no_digit [OF z] this] as Cons
    have ab: "a = b" "items_tail z (map p as') @ x = items_tail z (map q bs') @ y" by simp_all
    have "as' = bs' \<and> x = y" by (rule items_tail_inj [OF z ab(2)], rule step) (use as Cons in simp_all)
    with ab(1) as Cons show ?thesis by simp
  qed
qed

text \<open>The first character tells which constructor a text belongs to.\<close>

definition head_class :: "char \<Rightarrow> nat" where
  "head_class c = (if c = CHR ''n'' then 0 else if c \<in> set ''tf'' then 1 else if is_digit c \<or> c = CHR ''-'' then 2
     else if c = CHR 0x22 then 3 else if c = CHR ''['' then 4 else if c = CHR ''{'' then 5 else 6)"

fun json_class :: "json \<Rightarrow> nat" where
  "json_class JNull = 0" | "json_class (JBool b) = 1" | "json_class (JInt n) = 2" | "json_class (JStr s) = 3" | "json_class (JArr js) = 4" | "json_class (JObj fs) = 5"

lemma head_class_digit: "is_digit c \<Longrightarrow> head_class c = 2"
  by (auto simp: head_class_def is_digit_def byte_def)

lemma json_text_head: "head_class (hd (json_text j @ x)) = json_class j" "json_text j \<noteq> []"
proof -
  have n: "show_int n \<noteq> []" for n by (simp add: show_int_def)
  show "json_text j \<noteq> []" by (cases j) (simp_all add: json_quote_def n)
  have e: "head_class (CHR ''n'') = 0" "head_class (CHR ''t'') = 1" "head_class (CHR ''f'') = 1" "head_class (CHR ''-'') = 2" "head_class (CHR 0x22) = 3"
    "head_class (CHR ''['') = 4" "head_class (CHR ''{'') = 5"
    by (simp_all add: head_class_def is_digit_def byte_def)
  have "head_class (hd (show_int i @ x)) = 2" for i
    using head_class_digit [OF hd_show_nat [of "nat i"]] by (cases "i < 0") (simp_all add: show_int_def e)
  then show "head_class (hd (json_text j @ x)) = json_class j"
    by (cases j) (simp_all add: json_quote_def e)
qed

lemma json_text_inj:
  assumes "plain j" "plain k" "no_digit x" "no_digit y" "json_text j @ x = json_text k @ y"
  shows "j = k \<and> x = y"
  using assms
proof (induction j arbitrary: k x y)
  case (JArr js)
  have "json_class k = 4" using JArr.prems(5) json_text_head(1) [of k y] json_text_head(1) [of "JArr js" x] by (simp del: json_text.simps)
  then obtain ks where k: "k = JArr ks" by (cases k) simp_all
  have h: "hd (json_text a @ x) \<noteq> CHR '']'' \<and> json_text a \<noteq> []" for a x
  proof -
    have "head_class (CHR '']'') = 6" by (simp add: head_class_def is_digit_def byte_def)
    moreover have "json_class a < 6" by (cases a) simp_all
    ultimately show ?thesis using json_text_head(1) [of a x] json_text_head(2) [of a] by auto
  qed
  have eq: "items (CHR '']'') (map json_text js) @ x = items (CHR '']'') (map json_text ks) @ y" using JArr.prems(5) k by simp
  have "js = ks \<and> x = y"
  proof (rule items_inj [OF _ eq _ h h])
    fix a b x y assume m: "a \<in> set js" "b \<in> set ks" and p: "no_digit x" "no_digit y" "json_text a @ x = json_text b @ y"
    have "plain a" "plain b" using m JArr.prems(1,2) k by (simp_all add: list_all_iff)
    then show "a = b \<and> x = y" by (rule JArr.IH [OF m(1) _ _ p])
  qed simp
  with k show ?case by simp
next
  case (JObj fs)
  have "json_class k = 5" using JObj.prems(5) json_text_head(1) [of k y] json_text_head(1) [of "JObj fs" x] by (simp del: json_text.simps)
  then obtain gs where k: "k = JObj gs" by (cases k) simp_all
  let ?p = "\<lambda>(k, j). json_quote k @ CHR '':'' # json_text j"
  have h: "hd (?p a @ x) \<noteq> CHR ''}'' \<and> ?p a \<noteq> []" for a x by (simp add: json_quote_def split_beta)
  have eq: "items (CHR ''}'') (map ?p fs) @ x = items (CHR ''}'') (map ?p gs) @ y" using JObj.prems(5) k by simp
  have "fs = gs \<and> x = y"
  proof (rule items_inj [OF _ eq _ h h])
    fix a b x y assume m: "a \<in> set fs" "b \<in> set gs" and p: "no_digit x" "no_digit y" "?p a @ x = ?p b @ y"
    obtain i u l v where ab: "a = (i, u)" "b = (l, v)" by fastforce
    have pl: "ascii i" "plain u" "ascii l" "plain v" using m JObj.prems(1,2) k ab by (auto simp: list_all_iff)
    have "json_quote i @ (CHR '':'' # json_text u @ x) = json_quote l @ (CHR '':'' # json_text v @ y)" using p(3) ab by simp
    from json_quote_inj [OF pl(1,3) this] have "i = l" and uv: "json_text u @ x = json_text v @ y" by simp_all
    moreover have "u = v \<and> x = y" by (rule JObj.IH [OF m(1) _ pl(2,4) p(1,2) uv]) (simp add: ab)
    ultimately show "a = b \<and> x = y" using ab by simp
  qed simp
  with k show ?case by simp
next
  case JNull
  have "json_class k = 0" using JNull.prems(5) json_text_head(1) [of k y] json_text_head(1) [of JNull x] by (simp del: json_text.simps)
  with JNull.prems(5) show ?case by (cases k) simp_all
next
  case (JBool b)
  have "json_class k = 1" using JBool.prems(5) json_text_head(1) [of k y] json_text_head(1) [of "JBool b" x] by (simp del: json_text.simps)
  with JBool.prems(5) show ?case by (cases k) (auto split: if_split_asm)
next
  case (JInt n)
  have "json_class k = 2" using JInt.prems(5) json_text_head(1) [of k y] json_text_head(1) [of "JInt n" x] by (simp del: json_text.simps)
  then obtain i where k: "k = JInt i" by (cases k) simp_all
  have "show_int n @ x = show_int i @ y" using JInt.prems(5) by (simp add: k)
  from show_int_inj [OF JInt.prems(3,4) this] show ?case by (simp add: k)
next
  case (JStr s)
  have "json_class k = 3" using JStr.prems(5) json_text_head(1) [of k y] json_text_head(1) [of "JStr s" x] by (simp del: json_text.simps)
  then obtain t where k: "k = JStr t" by (cases k) simp_all
  have "json_quote s @ x = json_quote t @ y" "ascii s" "ascii t" using JStr.prems(1,2,5) by (simp_all add: k)
  from json_quote_inj [OF this(2,3,1)] show ?case by (simp add: k)
qed

lemma json_text_eq_iff: "plain j \<Longrightarrow> plain k \<Longrightarrow> json_text j = json_text k \<longleftrightarrow> j = k"
  using json_text_inj [of j k "[]" "[]"] by (auto simp: no_digit_def)

end
