(* ===== verification/Auth.thy ===== *)
theory Auth
  imports Go_Net
begin

text \<open>
  Accounts (internal/auth): the canonical form of an address, which senders an account may use, password hashes and
  the bounded number of concurrent password checks. The derivation function of golang.org/x/crypto/argon2, with the cost parameters
  the code passes, is the argument \<open>idkey\<close> (password, salt); the salt is an input.
\<close>

subsection \<open>Addresses\<close>

record account =
  ac_ID :: string
  ac_AllowedFrom :: "string list"

definition CanonicalAddress :: "string \<Rightarrow> err + string" where
  "CanonicalAddress value =
     bind_res (guard_res (\<not> (length value > 254 \<or> contains_any value {CR, LF})) (ErrNew ''invalid address'')) (\<lambda>_.
     bind_res (guard_res (list_all (\<lambda>c. byte c \<le> 127) value) (ErrNew ''SMTPUTF8 is not enabled'')) (\<lambda>_.
     bind_res (guard_res (bare_mailbox value) (ErrNew ''expected bare mailbox address'')) (\<lambda>_.
     case last_index CHR ''@'' value of
       None \<Rightarrow> Inl (ErrNew ''invalid address'')
     | Some at \<Rightarrow> if at = 0 \<or> Suc at = length value then Inl (ErrNew ''invalid address'')
                  else Inr (take (Suc at) value @ to_lower (drop (Suc at) value)))))"

definition Allows :: "account \<Rightarrow> string \<Rightarrow> bool" where
  "Allows a from =
     (case CanonicalAddress from of Inl _ \<Rightarrow> False
      | Inr value \<Rightarrow> \<exists>allowed \<in> set (ac_AllowedFrom a). CanonicalAddress allowed = Inr value)"

subsection \<open>Base64 without padding\<close>

text \<open>base64.RawStdEncoding: EncodeToString, and DecodeString, which skips line breaks and ignores the unused bits of the last digit.\<close>

fun b64_raw_encode :: "string \<Rightarrow> string" where
  "b64_raw_encode [] = []"
| "b64_raw_encode [a] = (let n = byte a * 65536 in [b64_digit (n div 262144), b64_digit (n div 4096)])"
| "b64_raw_encode [a, b] = (let n = byte a * 65536 + byte b * 256 in [b64_digit (n div 262144), b64_digit (n div 4096), b64_digit (n div 64)])"
| "b64_raw_encode (a # b # c # cs) = (let n = byte a * 65536 + byte b * 256 + byte c in
     [b64_digit (n div 262144), b64_digit (n div 4096), b64_digit (n div 64), b64_digit n] @ b64_raw_encode cs)"

definition b64_value :: "char \<Rightarrow> nat option" where
  "b64_value c = find (\<lambda>n. b64_digit n = c) [0..<64]"

fun b64_bytes :: "nat list \<Rightarrow> string option" where
  "b64_bytes [] = Some []"
| "b64_bytes [a] = None"
| "b64_bytes [a, b] = Some [chr (a * 4 + b div 16)]"
| "b64_bytes [a, b, c] = Some [chr (a * 4 + b div 16), chr (b mod 16 * 16 + c div 4)]"
| "b64_bytes (a # b # c # d # ds) = map_option (\<lambda>s. [chr (a * 4 + b div 16), chr (b mod 16 * 16 + c div 4), chr (c mod 4 * 64 + d)] @ s) (b64_bytes ds)"

definition b64_raw_decode :: "string \<Rightarrow> string option" where
  "b64_raw_decode s = Option.bind (all_some (map b64_value (filter (\<lambda>c. c \<noteq> CR \<and> c \<noteq> LF) s))) b64_bytes"

subsection \<open>Password hashes\<close>

definition hashPrefix :: string where
  "hashPrefix = ''$argon2id$v=19$m=65536,t=3,p=2$''"

definition Hash :: "(string \<Rightarrow> string \<Rightarrow> string) \<Rightarrow> string \<Rightarrow> string \<Rightarrow> err + string" where
  "Hash idkey salt password =
     bind_res (guard_res (16 \<le> length password \<and> length password \<le> 1024) (ErrNew ''password must contain 16 to 1024 bytes'')) (\<lambda>_.
     Inr (hashPrefix @ b64_raw_encode salt @ ''$'' @ b64_raw_encode (idkey password salt)))"

definition hash_parts :: "string \<Rightarrow> (string \<times> string) option" where
  "hash_parts encoded =
     (if \<not> prefix hashPrefix encoded then None
      else case split_on CHR ''$'' (drop (length hashPrefix) encoded) of
        [a, b] \<Rightarrow> (case (b64_raw_decode a, b64_raw_decode b) of
            (Some salt, Some key) \<Rightarrow> if length salt = 16 \<and> length key = 32 then Some (salt, key) else None
          | _ \<Rightarrow> None)
      | _ \<Rightarrow> None)"

definition Verify :: "(string \<Rightarrow> string \<Rightarrow> string) \<Rightarrow> string \<Rightarrow> string \<Rightarrow> bool" where
  "Verify idkey encoded password =
     (if length password > 1024 then False
      else case hash_parts encoded of None \<Rightarrow> False | Some (salt, key) \<Rightarrow> idkey password salt = key)"

definition ValidHash :: "string \<Rightarrow> bool" where
  "ValidHash encoded = (hash_parts encoded \<noteq> None)"

subsection \<open>Authentication\<close>

record account_row =
  sa_id :: string
  sa_username :: string
  sa_password_hash :: string
  sa_allowed_from :: "string list"
  sa_enabled :: bool

record accounts =
  acs_slots :: nat
  acs_busy :: nat
  acs_dummy :: string

definition NewAccountsWithConcurrency :: "(string \<Rightarrow> string \<Rightarrow> string) \<Rightarrow> string \<Rightarrow> int \<Rightarrow> err + accounts" where
  "NewAccountsWithConcurrency idkey salt concurrency =
     bind_res (guard_res (1 \<le> concurrency \<and> concurrency \<le> 8) (ErrNew ''authentication concurrency must be 1..8'')) (\<lambda>_.
     bind_res (Hash idkey salt ''unusable-dummy-password-for-timing'') (\<lambda>dummy.
     Inr \<lparr>acs_slots = nat concurrency, acs_busy = 0, acs_dummy = dummy\<rparr>))"

definition NewAccounts :: "(string \<Rightarrow> string \<Rightarrow> string) \<Rightarrow> string \<Rightarrow> err + accounts" where
  "NewAccounts idkey salt = NewAccountsWithConcurrency idkey salt 2"

text \<open>
  Authenticate in two steps: entering takes a slot or is refused, and the check runs while the slot is held and gives it back. The
  Booleans say whether the context is cancelled at the start and after the check. For an unknown user the code verifies the password against
  a dummy hash and ignores the answer, which only takes the same time.
\<close>

definition authenticate_enter :: "bool \<Rightarrow> accounts \<Rightarrow> (err + unit) \<times> accounts" where
  "authenticate_enter cancelled a =
     (if cancelled then (Inl ErrContext, a)
      else if acs_busy a < acs_slots a then (Inr (), a\<lparr>acs_busy := acs_busy a + 1\<rparr>)
      else (Inl ErrBusy, a))"

definition authenticate_check ::
  "(string \<Rightarrow> string \<Rightarrow> string) \<Rightarrow> account_row list \<Rightarrow> string \<Rightarrow> string \<Rightarrow> bool \<Rightarrow> err + account" where
  "authenticate_check idkey rows username password cancelled =
     bind_res (guard_res (length username \<le> 128 \<and> length password \<le> 1024) ErrCredentials) (\<lambda>_.
     case find (\<lambda>r. sa_username r = username) rows of
       None \<Rightarrow> Inl ErrCredentials
     | Some r \<Rightarrow>
         (let valid = Verify idkey (sa_password_hash r) password
          in bind_res (guard_res (\<not> cancelled) ErrContext) (\<lambda>_.
             bind_res (guard_res (valid \<and> sa_enabled r) ErrCredentials) (\<lambda>_.
             Inr \<lparr>ac_ID = sa_id r, ac_AllowedFrom = sa_allowed_from r\<rparr>))))"

definition authenticate_leave :: "accounts \<Rightarrow> accounts" where
  "authenticate_leave a = a\<lparr>acs_busy := acs_busy a - 1\<rparr>"

end
