(* ===== verification/Message_Enqueue.thy ===== *)
theory Message_Enqueue
  imports Message_Base Go_Json Auth Sha256 Queue_Claim
begin

text \<open>
  Accepting a message into the queue (internal/message: postgres.go, idempotency.go, budget.go, schedule.go, cancel.go): the rows of a new message, the
  ledger that makes requests of the HTTP API idempotent, the budgets and the schedule of a website, and cancelling a
  message that has not been sent. The package github.com/google/uuid is the argument \<open>U\<close>: the canonical text of the identifier a text
  parses to. Identifiers are in their canonical text.
\<close>

subsection \<open>Data\<close>

record archive =
  av_Path :: string
  av_Size :: int
  av_SHA256 :: string

record envelope =
  el_Account :: account
  el_From :: string
  el_Recipients :: "string list"

record submission =
  sm_Replaces :: string
  sm_ScheduleAt :: go_time
  sm_ExpiresAt :: go_time
  sm_Stream :: string
  sm_Business :: business
  sm_ID :: string
  sm_Envelope :: envelope
  sm_Archive :: archive
  sm_MessageID :: string
  sm_HeaderFrom :: string
  sm_Subject :: string
  sm_ReceivedAt :: time
  sm_ArchivedAt :: time

record enqueue_result =
  er_MessageID :: string
  er_Replayed :: bool

text \<open>The tables of the API besides those the queue works on, and the columns of a message that the queue does not read.\<close>

record api_key_row =
  k_id :: string
  k_enabled :: bool
  k_environment :: string
  k_minute_limit :: int
  k_hour_limit :: int
  k_day_limit :: int

record ledger_row =
  l_api_key_id :: string
  l_key_sha256 :: string
  l_request_sha256 :: string
  l_message_id :: string

record usage_row =
  u_message_id :: string
  u_api_key_id :: string
  u_reserved_at :: time
  u_units :: int
  u_stream :: string

record message_meta =
  mm_id :: string
  mm_message_id :: string
  mm_subject :: string
  mm_queued_at :: time
  mm_idempotency_key :: "string option"
  mm_business :: business
  mm_replaces :: "string option"

record store =
  core :: db
  api_keys :: "api_key_row list"
  smtp_accounts :: "account_row list"
  ledger :: "ledger_row list"
  usage :: "usage_row list"
  meta :: "message_meta list"
  retired :: "string list"
  notified :: "string list"

abbreviation upd_core :: "(db \<Rightarrow> db) \<Rightarrow> store \<Rightarrow> store" where
  "upd_core f st \<equiv> st\<lparr>core := f (core st)\<rparr>"

subsection \<open>The fingerprint of a request (idempotency.go)\<close>

fun hex_decode :: "string \<Rightarrow> string option" where
  "hex_decode [] = Some []"
| "hex_decode [a] = None"
| "hex_decode (a # b # s) =
     (case (Go_Net.hex_digit a, Go_Net.hex_digit b) of
        (Some x, Some y) \<Rightarrow> map_option (\<lambda>t. chr (16 * x + y) # t) (hex_decode s)
      | _ \<Rightarrow> None)"

definition digest_text :: "string \<Rightarrow> bool" where
  "digest_text s = (case hex_decode s of None \<Rightarrow> False | Some b \<Rightarrow> length b = 32 \<and> hex_encode b = s)"

definition nil_uuid :: string where
  "nil_uuid = ''00000000-0000-0000-0000-000000000000''"

definition target_ok :: "(string \<Rightarrow> string option) \<Rightarrow> string \<Rightarrow> bool" where
  "target_ok U s = (case U s of None \<Rightarrow> False | Some t \<Rightarrow> t \<noteq> nil_uuid \<and> t = s)"

definition is_Inl :: "'e + 'a \<Rightarrow> bool" where
  "is_Inl r = (case r of Inl _ \<Rightarrow> True | Inr _ \<Rightarrow> False)"

definition opt_text :: "string \<Rightarrow> string \<Rightarrow> (string \<times> json) list" where
  "opt_text k v = (if v = [] then [] else [(k, JStr v)])"

definition business_json :: "business \<Rightarrow> json" where
  "business_json b = JObj [(''client_reference'', JStr (bu_ClientReference b)), (''tags'', JArr (map JStr (bu_Tags b)))]"

definition request_version :: "business \<Rightarrow> string \<Rightarrow> string \<Rightarrow> string \<Rightarrow> string \<Rightarrow> int" where
  "request_version business stream expiry schedule replaces =
     (if replaces \<noteq> [] then 6 else if schedule \<noteq> [] then 5 else if expiry \<noteq> [] then 4 else if stream \<noteq> [] then 3 else if Present business then 2 else 1)"

definition request_json :: "submission \<Rightarrow> business \<Rightarrow> string \<Rightarrow> string \<Rightarrow> string \<Rightarrow> json" where
  "request_json s business stream expiry schedule =
     JObj ([(''version'', JInt (request_version business stream expiry schedule (sm_Replaces s))), (''from'', JStr (el_From (sm_Envelope s))),
            (''recipients'', JArr (map JStr (el_Recipients (sm_Envelope s)))), (''sha256'', JStr (av_SHA256 (sm_Archive s))), (''size'', JInt (av_Size (sm_Archive s)))]
       @ (if Present business then [(''business'', business_json business)] else [])
       @ opt_text ''stream'' stream @ opt_text ''expires_at'' expiry @ opt_text ''schedule_at'' schedule @ opt_text ''replaces'' (sm_Replaces s))"

definition RequestFingerprint :: "(string \<Rightarrow> string option) \<Rightarrow> submission \<Rightarrow> err + string" where
  "RequestFingerprint U s =
     (let e = sm_Envelope s
      in bind_res (guard_res (digest_text (av_SHA256 (sm_Archive s)) \<and> 1 \<le> av_Size (sm_Archive s) \<and> el_From e \<noteq> [] \<and> el_Recipients e \<noteq> []
             \<and> length (el_Recipients e) \<le> 1000) ErrInvalidSubmission) (\<lambda>_.
         bind_res (guard_res (\<not> is_Inl (CanonicalAddress (el_From e))) ErrInvalidSubmission) (\<lambda>_.
         bind_res (guard_res (list_all (\<lambda>a. \<not> is_Inl (CanonicalAddress a)) (el_Recipients e)) ErrInvalidSubmission) (\<lambda>_.
         bind_res (Canonical (sm_Business s)) (\<lambda>business.
         bind_res (CanonicalStream (sm_Stream s)) (\<lambda>stream.
         bind_res (CanonicalExpiry (sm_ExpiresAt s)) (\<lambda>expiry.
         bind_res (CanonicalExpiry (sm_ScheduleAt s)) (\<lambda>schedule.
         bind_res (guard_res (schedule = [] \<or> IsZero (gt_instant (sm_ExpiresAt s)) \<or> gt_instant (sm_ExpiresAt s) > gt_instant (sm_ScheduleAt s)) ErrInvalidSchedule) (\<lambda>_.
         bind_res (guard_res (sm_Replaces s = [] \<or> target_ok U (sm_Replaces s)) ErrInvalidSubmission) (\<lambda>_.
         Inr (hex_encode (sha256 (json_text (request_json s business (if stream = ''normal'' then [] else stream) expiry schedule))))))))))))))"

subsection \<open>Budgets and schedule (budget.go, schedule.go)\<close>

definition admitSchedule :: "env \<Rightarrow> string \<Rightarrow> time \<Rightarrow> time \<Rightarrow> int \<Rightarrow> store \<Rightarrow> err + unit" where
  "admitSchedule E identity at expiry bytes st =
     (if IsZero at then Inr ()
      else bind_res (guard_res (IsZero expiry \<or> expiry > at) ErrInvalidSchedule) (\<lambda>_.
           bind_res (guard_res (at > clk E 31 \<and> at \<le> clk E 31 + 720 * Hour) ErrInvalidSchedule) (\<lambda>_.
           let waiting = (\<lambda>m. m_api_key_id m = Some identity \<and> m_environment m = ''production'' \<and> null_gt (m_schedule_at m) (clk E 32)
                 \<and> m_status m \<in> {QUEUED, TEMP_FAILED, PARTIAL_ACCEPTED, SENDING, DELIVERY_UNKNOWN})
           in guard_res (\<not> (count_where waiting (messages (core st)) \<ge> 100 \<or> sum_where waiting m_eml_size (messages (core st)) + bytes > 134217728)) ErrScheduleCapacity)))"

definition units_since :: "time \<Rightarrow> time \<Rightarrow> (usage_row \<Rightarrow> bool) \<Rightarrow> store \<Rightarrow> int" where
  "units_since t span sel st = sum_where (\<lambda>u. sel u \<and> u_reserved_at u > t - 24 * Hour \<and> u_reserved_at u > t - span) u_units (usage st)"

definition used_units :: "time \<Rightarrow> (usage_row \<Rightarrow> bool) \<Rightarrow> store \<Rightarrow> int list" where
  "used_units t sel st = [units_since t Minute sel st, units_since t Hour sel st, units_since t (24 * Hour) sel st]"

definition within_limits :: "int list \<Rightarrow> int list \<Rightarrow> int \<Rightarrow> bool" where
  "within_limits limits used units = list_all (\<lambda>(limit, n). limit > 0 \<longrightarrow> n + units \<le> limit) (zip limits used)"

definition batch_fits :: "int list \<Rightarrow> int \<Rightarrow> bool" where
  "batch_fits limits units = list_all (\<lambda>limit. limit > 0 \<longrightarrow> units \<le> limit) limits"

text \<open>The row is refused by its primary key, by the check on its units and by the reference to the ledger.\<close>

definition insert_usage :: "usage_row \<Rightarrow> store \<Rightarrow> err + store" where
  "insert_usage u st =
     (if u_units u < 1 \<or> u_units u > 1000 \<or> (\<exists>v \<in> set (usage st). u_message_id v = u_message_id u)
         \<or> (\<forall>l \<in> set (ledger st). \<not> (l_api_key_id l = u_api_key_id u \<and> l_message_id l = u_message_id u))
      then Inl ErrConstraint else Inr (st\<lparr>usage := usage st @ [u]\<rparr>))"

definition reserveSubmission :: "env \<Rightarrow> string \<Rightarrow> string \<Rightarrow> int \<Rightarrow> string \<Rightarrow> time \<Rightarrow> time \<Rightarrow> int \<Rightarrow> store \<Rightarrow> err + store" where
  "reserveSubmission E identity mid units stream expiresAt scheduleAt bytes st =
     bind_res (CanonicalStream stream) (\<lambda>stream.
     bind_res (query_row (\<lambda>k. k_id k = identity) (api_keys st)) (\<lambda>k.
     bind_res (guard_res (IsZero expiresAt \<or> \<not> expiresAt \<le> clk E 30) ErrExpiredSubmission) (\<lambda>_.
     bind_res (guard_res (IsZero expiresAt \<or> \<not> expiresAt > clk E 30 + 720 * Hour) ErrInvalidExpiry) (\<lambda>_.
     bind_res (admitSchedule E identity scheduleAt expiresAt bytes st) (\<lambda>_.
     bind_res (guard_res (k_enabled k) ErrSubmissionDisabled) (\<lambda>_.
     let limits = [k_minute_limit k, k_hour_limit k, k_day_limit k]
     in bind_res (guard_res (batch_fits limits units) ErrSubmissionBatchTooLarge) (\<lambda>_.
        bind_res (guard_res (within_limits limits (used_units (clk E 33) (\<lambda>u. u_api_key_id u = identity) st) units) ErrSubmissionBudget) (\<lambda>_.
        case find (\<lambda>s. st_api_key_id s = identity \<and> st_name s = stream) (message_streams (core st)) of
          None \<Rightarrow> Inl ErrStreamDenied
        | Some s \<Rightarrow>
            bind_res (guard_res (st_enabled s) ErrStreamDenied) (\<lambda>_.
            let limits = [st_minute_limit s, st_hour_limit s, st_day_limit s]
            in bind_res (guard_res (batch_fits limits units) ErrSubmissionBatchTooLarge) (\<lambda>_.
               bind_res (guard_res (within_limits limits (used_units (clk E 34) (\<lambda>u. u_api_key_id u = identity \<and> u_stream u = stream) st) units)
                  ErrStreamBudget) (\<lambda>_.
               insert_usage \<lparr>u_message_id = mid, u_api_key_id = identity, u_reserved_at = clk E 35, u_units = units, u_stream = stream\<rparr> st)))))))))))"

subsection \<open>Cancelling a pending message (cancel.go)\<close>

definition delivery_evidence :: "attempt \<Rightarrow> bool" where
  "delivery_evidence a = (a_result a = IN_PROGRESS \<or> a_data_armed_at a \<noteq> None
     \<or> (case a_evidence a of None \<Rightarrow> False | Some o' \<Rightarrow> \<not> IsZero (o_DataStartedAt o') \<or> \<not> IsZero (o_FinalResponseAt o')))"

definition cancel_unsafe :: "db \<Rightarrow> message \<Rightarrow> bool" where
  "cancel_unsafe d m = (m_locked_by m \<noteq> None \<or> m_status m \<notin> {QUEUED, TEMP_FAILED}
     \<or> (\<exists>a \<in> set (attempts d). a_message_id a = m_id m \<and> delivery_evidence a)
     \<or> (\<exists>ar \<in> set (attempt_recipients d). \<exists>a \<in> set (attempts d). a_id a = ar_attempt_id ar \<and> a_message_id a = m_id m \<and> ar_status ar \<in> {SMTP_ACCEPTED, DELIVERY_UNKNOWN})
     \<or> (\<exists>r \<in> set (recipients d). r_message_id r = m_id m \<and> r_status r \<notin> {QUEUED, TEMP_FAILED, PERM_FAILED, SUPPRESSED, EXPIRED}))"

definition cancel_json :: json where
  "cancel_json = JObj [(''version'', JInt 2), (''action'', JStr ''CANCEL''), (''reason'', JStr ''WEBSITE_CANCELLED''), (''scope'', JStr ''policy''),
     (''terminal'', JBool True), (''may_have_delivered'', JBool False)]"

definition cancel_recipient :: "time \<Rightarrow> rcpt \<Rightarrow> rcpt" where
  "cancel_recipient t r = r\<lparr>r_status := CANCELLED, r_retry_at := None, r_retry_automatic := False, r_completed_at := Some t, r_decision := Some cancel_json\<rparr>"

definition cancel_message :: "time \<Rightarrow> message \<Rightarrow> message" where
  "cancel_message t m = m\<lparr>m_status := CANCELLED, m_cancelled_at := Some t, m_completed_at := Some t, m_next_attempt_at := None\<rparr>"

definition cancel_rows :: "env \<Rightarrow> string \<Rightarrow> string \<Rightarrow> db \<Rightarrow> db" where
  "cancel_rows E mid replacement d =
     append_event \<lparr>e_message_id = mid, e_attempt_id = None, e_recipient_id = None, e_type = ''MESSAGE_CANCELLED'', e_time = clk E 38, e_source = ''api'',
         e_data = JObj [(''replacement_message_id'', JStr replacement)], e_sequence = None\<rparr>
       (upd_messages (\<lambda>m. m_id m = mid) (cancel_message (clk E 37))
         (upd_recipients (\<lambda>r. r_message_id r = mid \<and> r_status r \<in> {QUEUED, TEMP_FAILED}) (cancel_recipient (clk E 36)) d))"

definition cancelPendingTx :: "env \<Rightarrow> string \<Rightarrow> string \<Rightarrow> string \<Rightarrow> (db, bool) body" where
  "cancelPendingTx E identity mid replacement d =
     (case find (\<lambda>m. m_id m = mid \<and> m_source_type m = ''api'' \<and> m_api_key_id m = Some identity \<and> m_environment m = ''production'') (messages d) of
        None \<Rightarrow> Inl ErrControlNotFound
      | Some m \<Rightarrow>
          if m_cancelled_at m \<noteq> None then (if replacement \<noteq> [] then Inl ErrNotCancellable else Inr (True, d))
          else if cancel_unsafe d m then Inl ErrNotCancellable
          else Inr (False, cancel_rows E mid replacement d))"

definition CancelPending :: "env \<Rightarrow> string \<Rightarrow> string \<Rightarrow> (store, bool) body" where
  "CancelPending E identity mid st =
     bind_res (query_row (\<lambda>k. k_id k = identity) (api_keys st)) (\<lambda>k.
     bind_res (guard_res (k_enabled k) ErrSubmissionDisabled) (\<lambda>_.
     bind_res (cancelPendingTx E identity mid [] (core st)) (\<lambda>(replay, d). Inr (replay, st\<lparr>core := d\<rparr>))))"

subsection \<open>The rows of a new message (postgres.go)\<close>

text \<open>The identifier in the name of an archive file: the trigger messages_reject_retired_archive refuses a retired one.\<close>

definition uuid_shape :: "string \<Rightarrow> bool" where
  "uuid_shape s = (length s = 36 \<and> list_all (\<lambda>i. if i \<in> {8, 13, 18, 23} then s ! i = CHR ''-'' else s ! i \<in> set ''0123456789abcdef'') [0..<36])"

definition path_id :: "string \<Rightarrow> string option" where
  "path_id path = (let name = last (split_on CHR ''/'' path) in if length name = 40 \<and> drop 36 name = ''.eml'' \<and> uuid_shape (take 36 name) then Some (take 36 name) else None)"

definition whole_seconds :: "ts \<Rightarrow> bool" where
  "whole_seconds t = (case t of None \<Rightarrow> True | Some v \<Rightarrow> v mod Second = 0)"

text \<open>The checks, references, unique indexes and triggers of the table messages that an insertion can violate.\<close>

definition message_accepted :: "store \<Rightarrow> message \<Rightarrow> message_meta \<Rightarrow> bool" where
  "message_accepted st m mm \<longleftrightarrow>
     (\<forall>x \<in> set (messages (core st)). m_id x \<noteq> m_id m \<and> m_eml_path x \<noteq> m_eml_path m)
   \<and> m_id m \<notin> set (retired st) \<and> (case path_id (m_eml_path m) of None \<Rightarrow> True | Some i \<Rightarrow> i \<notin> set (retired st))
   \<and> m_source_type m \<in> {''smtp'', ''api'', ''internal''} \<and> 0 \<le> m_eml_size m \<and> length (m_eml_sha256 m) = 64 \<and> set (m_eml_sha256 m) \<subseteq> set ''0123456789abcdef''
   \<and> (case m_smtp_account_id m of None \<Rightarrow> True | Some a \<Rightarrow> \<exists>r \<in> set (smtp_accounts st). sa_id r = a)
   \<and> (case m_api_key_id m of None \<Rightarrow> mm_idempotency_key mm = None | Some k \<Rightarrow> \<exists>r \<in> set (api_keys st). k_id r = k)
   \<and> (\<forall>x \<in> set (messages (core st)). \<forall>y \<in> set (meta st). mm_id y = m_id x \<and> m_api_key_id x = m_api_key_id m \<and> m_api_key_id m \<noteq> None
        \<and> mm_idempotency_key mm \<noteq> None \<longrightarrow> mm_idempotency_key y \<noteq> mm_idempotency_key mm)
   \<and> business_constraint (mm_business mm) \<and> (m_source_type m = ''api'' \<and> m_api_key_id m \<noteq> None \<or> \<not> Present (mm_business mm))
   \<and> m_message_stream m \<in> {''normal'', ''otp'', ''security'', ''receipt''} \<and> (m_source_type m = ''api'' \<or> m_message_stream m = ''normal'')
   \<and> (m_source_type m = ''api'' \<and> m_api_key_id m \<noteq> None \<or> m_expires_at m = None \<and> m_schedule_at m = None \<and> m_environment m = ''production'')
   \<and> whole_seconds (m_expires_at m) \<and> whole_seconds (m_schedule_at m)
   \<and> (case (m_schedule_at m, m_expires_at m) of (Some s, Some e) \<Rightarrow> s < e | _ \<Rightarrow> True)
   \<and> m_environment m \<in> {''production'', ''sandbox''} \<and> (m_environment m = ''sandbox'' \<longleftrightarrow> m_status m = SANDBOX_STORED)
   \<and> (m_source_type m = ''api'' \<longrightarrow> (\<exists>r \<in> set (api_keys st). m_api_key_id m = Some (k_id r) \<and> k_environment r = m_environment m))
   \<and> (m_environment m = ''sandbox'' \<longrightarrow> m_locked_by m = None \<and> m_route_provider_id m = None \<and> m_attempt_count m = 0 \<and> m_next_attempt_at m = None)"

text \<open>The trigger message_queue_owner gives the owner its row of turns.\<close>

definition initialize_queue_owner :: "message \<Rightarrow> db \<Rightarrow> db" where
  "initialize_queue_owner m d =
     (if \<exists>w \<in> set (fair_owners d). ow_key w = queue_owner m then d
      else d\<lparr>fair_owners := fair_owners d @ [\<lparr>ow_key = queue_owner m, ow_last_ticket = 0, ow_cursor = 0\<rparr>]\<rparr>)"

definition insert_message :: "message \<Rightarrow> message_meta \<Rightarrow> store \<Rightarrow> err + store" where
  "insert_message m mm st =
     (if message_accepted st m mm
      then Inr (st\<lparr>core := initialize_queue_owner m ((core st)\<lparr>messages := messages (core st) @ [m]\<rparr>), meta := meta st @ [mm]\<rparr>)
      else Inl ErrConstraint)"

definition insert_recipient :: "rcpt \<Rightarrow> db \<Rightarrow> err + db" where
  "insert_recipient r d = (if \<exists>x \<in> set (recipients d). r_id x = r_id r then Inl ErrConstraint else Inr (d\<lparr>recipients := recipients d @ [r]\<rparr>))"

definition null_text :: "string \<Rightarrow> string option" where
  "null_text s = (if s = [] then None else Some s)"

definition pg_deadline :: "string \<Rightarrow> err + ts" where
  "pg_deadline s = (if s = [] then Inr None else case pg_timestamptz s of None \<Rightarrow> Inl ErrConstraint | Some t \<Rightarrow> Inr (Some t))"

definition first_attempt :: "string \<Rightarrow> time \<Rightarrow> ts \<Rightarrow> ts" where
  "first_attempt environment queued schedule =
     (if environment = ''production'' then Some (case schedule of None \<Rightarrow> queued | Some s \<Rightarrow> max queued s) else None)"

definition new_message :: "env \<Rightarrow> submission \<Rightarrow> string \<Rightarrow> string \<Rightarrow> string \<Rightarrow> status \<Rightarrow> string \<Rightarrow> ts \<Rightarrow> ts \<Rightarrow> message" where
  "new_message E s source apiKeyID environment status stream expires schedule =
     \<lparr>m_id = sm_ID s, m_source_type = source, m_smtp_account_id = null_text (ac_ID (el_Account (sm_Envelope s))), m_api_key_id = null_text apiKeyID,
      m_environment = environment, m_envelope_from = el_From (sm_Envelope s), m_header_from = Some (sm_HeaderFrom s), m_created_at = sm_ReceivedAt s,
      m_completed_at = None, m_status = status, m_eml_path = av_Path (sm_Archive s), m_eml_size = av_Size (sm_Archive s), m_eml_sha256 = av_SHA256 (sm_Archive s),
      m_archive_state = ''AVAILABLE'', m_last_error = None, m_next_attempt_at = first_attempt environment (host E) schedule, m_attempt_count = 0, m_locked_at = None,
      m_locked_by = None, m_lease_expires_at = None, m_route_provider_id = None, m_message_stream = stream, m_expires_at = expires, m_schedule_at = schedule,
      m_cancelled_at = None\<rparr>"

definition new_recipient :: "submission \<Rightarrow> status \<Rightarrow> string \<Rightarrow> string \<Rightarrow> rcpt" where
  "new_recipient s status rid address =
     \<lparr>r_id = rid, r_message_id = sm_ID s, r_address = address, r_status = status, r_provider_id = None, r_smtp_code = None, r_smtp_response = None,
      r_completed_at = None, r_attempt_count = 0, r_retry_started_at = None, r_retry_at = None, r_retry_automatic = False, r_decision = None\<rparr>"

definition enqueue_json :: "string \<Rightarrow> string \<Rightarrow> bool \<Rightarrow> string \<Rightarrow> string \<Rightarrow> string \<Rightarrow> business \<Rightarrow> json" where
  "enqueue_json source environment received stream schedule expiry business =
     JObj ([(''source'', JStr source)]
       @ (if environment = ''sandbox'' then [(''simulation'', JBool True), (''environment'', JStr ''sandbox'')] else [])
       @ (if received then [(''message_stream'', JStr stream)] @ opt_text ''schedule_at'' schedule @ opt_text ''expires_at'' expiry
            @ (if Present business then [(''business'', business_json business)] else []) else []))"

text \<open>The suppression list is applied to the new recipients; a message without any other recipient is finished at once.\<close>

definition enqueue_policy :: "env \<Rightarrow> string \<Rightarrow> string \<Rightarrow> db \<Rightarrow> db" where
  "enqueue_policy E mid environment d =
     (if environment = ''sandbox'' then upd_messages (\<lambda>m. m_id m = mid) (\<lambda>m. m\<lparr>m_completed_at := Some (clk E 22), m_next_attempt_at := None\<rparr>) d
      else let d = snd (Apply E mid [] False d)
           in upd_messages (\<lambda>m. m_id m = mid \<and> (\<forall>r \<in> set (recipients d). r_message_id r = mid \<longrightarrow> r_status r = SUPPRESSED))
                (\<lambda>m. m\<lparr>m_status := SUPPRESSED, m_completed_at := Some (now E), m_next_attempt_at := None\<rparr>) d)"

definition enqueue_events :: "env \<Rightarrow> submission \<Rightarrow> string \<Rightarrow> string \<Rightarrow> string \<Rightarrow> string \<Rightarrow> string \<Rightarrow> business \<Rightarrow> status \<Rightarrow> db \<Rightarrow> db" where
  "enqueue_events E s source environment stream schedule expiry business final d =
     (let kind = (if final = SUPPRESSED then ''MESSAGE_SUPPRESSED'' else if environment = ''sandbox'' then ''SANDBOX_STORED'' else ''MESSAGE_QUEUED'')
      in fold (\<lambda>(kind, at). append_event \<lparr>e_message_id = sm_ID s, e_attempt_id = None, e_recipient_id = None, e_type = kind, e_time = at, e_source = source,
             e_data = enqueue_json source environment (kind = ''MESSAGE_RECEIVED'') stream schedule expiry business, e_sequence = None\<rparr>)
           [(''MESSAGE_RECEIVED'', sm_ReceivedAt s), (''MESSAGE_ARCHIVED'', sm_ArchivedAt s), (kind, host E)] d)"

text \<open>
  The function \<open>ids\<close> gives the identifiers uuid.NewV7 returns, in order. The first part of enqueueTx validates the submission and reads
  the environment of the identity; the second writes the rows.
\<close>

definition stored_status :: "string \<Rightarrow> status" where
  "stored_status environment = (if environment = ''sandbox'' then SANDBOX_STORED else QUEUED)"

definition enqueue_rows ::
  "env \<Rightarrow> (nat \<Rightarrow> string) \<Rightarrow> submission \<Rightarrow> string \<Rightarrow> string \<Rightarrow> string \<Rightarrow> business \<Rightarrow> string \<Rightarrow> string \<Rightarrow> string \<Rightarrow> string \<Rightarrow> store \<Rightarrow> err + store" where
  "enqueue_rows E ids s source apiKeyID keyHash business expiry schedule stream environment st =
     bind_res (pg_deadline expiry) (\<lambda>expires.
     bind_res (pg_deadline schedule) (\<lambda>scheduled.
     bind_res (insert_message (new_message E s source apiKeyID environment (stored_status environment) stream expires scheduled)
        \<lparr>mm_id = sm_ID s, mm_message_id = sm_MessageID s, mm_subject = sm_Subject s, mm_queued_at = host E, mm_idempotency_key = null_text keyHash,
         mm_business = business, mm_replaces = None\<rparr> st) (\<lambda>st.
     bind_res (fold_res (\<lambda>(i, address). insert_recipient (new_recipient s (stored_status environment) (ids i) address))
        (enumerate 0 (el_Recipients (sm_Envelope s))) (core st)) (\<lambda>d.
     bind_res (query_row (\<lambda>m. m_id m = sm_ID s) (messages (enqueue_policy E (sm_ID s) environment d))) (\<lambda>m.
     Inr (st\<lparr>core := enqueue_events E s source environment stream schedule expiry business (m_status m) (enqueue_policy E (sm_ID s) environment d),
             notified := notified st @ (if m_status m = QUEUED then [sm_ID s] else [])\<rparr>))))))"

definition enqueue_environment :: "string \<Rightarrow> string \<Rightarrow> store \<Rightarrow> err + string" where
  "enqueue_environment source apiKeyID st =
     (if source = ''api'' then bind_res (query_row (\<lambda>k. k_id k = apiKeyID) (api_keys st)) (\<lambda>k. Inr (k_environment k)) else Inr ''production'')"

definition enqueueTx :: "env \<Rightarrow> (nat \<Rightarrow> string) \<Rightarrow> submission \<Rightarrow> string \<Rightarrow> string \<Rightarrow> string \<Rightarrow> store \<Rightarrow> err + store" where
  "enqueueTx E ids s source apiKeyID keyHash st =
     (case (Canonical (sm_Business s), CanonicalExpiry (sm_ExpiresAt s), CanonicalExpiry (sm_ScheduleAt s), CanonicalStream (sm_Stream s)) of
        (Inr business, Inr expiry, Inr schedule, Inr stream) \<Rightarrow>
          bind_res (guard_res (source = ''api'' \<or> \<not> Present business \<and> expiry = [] \<and> schedule = [] \<and> stream = ''normal'') ErrInvalidSubmission) (\<lambda>_.
          bind_res (enqueue_environment source apiKeyID st) (\<lambda>environment.
          enqueue_rows E ids s source apiKeyID keyHash business expiry schedule stream environment st))
      | _ \<Rightarrow> Inl ErrInvalidSubmission)"

definition Enqueue :: "env \<Rightarrow> (nat \<Rightarrow> string) \<Rightarrow> submission \<Rightarrow> (store, unit) body" where
  "Enqueue E ids s st = bind_res (enqueueTx E ids s ''smtp'' [] [] st) (\<lambda>st. Inr ((), st))"

subsection \<open>Idempotent requests (idempotency.go)\<close>

definition key_ok :: "string \<Rightarrow> bool" where
  "key_ok key = (1 \<le> length key \<and> length key \<le> 128 \<and> list_all (\<lambda>c. 33 \<le> byte c \<and> byte c \<le> 126) key)"

text \<open>
  The insertion into the ledger does nothing when the pair of identity and key is there; otherwise the reference to the identity
  and the unique message can refuse it.
\<close>

definition find_entry :: "string \<Rightarrow> string \<Rightarrow> store \<Rightarrow> ledger_row option" where
  "find_entry apiKeyID keyHash st = find (\<lambda>l. l_api_key_id l = apiKeyID \<and> l_key_sha256 l = keyHash) (ledger st)"

definition insert_ledger :: "ledger_row \<Rightarrow> store \<Rightarrow> err + store" where
  "insert_ledger l st =
     (if (\<exists>x \<in> set (ledger st). l_message_id x = l_message_id l) \<or> (\<forall>k \<in> set (api_keys st). k_id k \<noteq> l_api_key_id l) then Inl ErrConstraint
      else Inr (st\<lparr>ledger := ledger st @ [l]\<rparr>))"

text \<open>The trigger pending_control_guard and the index messages_one_replacement on the update of replaces_message_id.\<close>

definition set_replaces :: "string \<Rightarrow> string \<Rightarrow> string \<Rightarrow> store \<Rightarrow> err + store" where
  "set_replaces apiKeyID mid target st =
     (if (\<exists>p \<in> set (messages (core st)). m_id p = target \<and> m_cancelled_at p \<noteq> None \<and> m_api_key_id p = Some apiKeyID)
         \<and> (\<exists>m \<in> set (messages (core st)). m_id m = mid \<and> m_api_key_id m = Some apiKeyID \<and> m_source_type m = ''api'' \<and> m_environment m = ''production'')
         \<and> (\<forall>y \<in> set (meta st). mm_replaces y \<noteq> Some target)
      then Inr (st\<lparr>meta := update_where (\<lambda>y. mm_id y = mid) (\<lambda>y. y\<lparr>mm_replaces := Some target\<rparr>) (meta st)\<rparr>) else Inl ErrConstraint)"

text \<open>The references from the ledger and the usage to messages are checked at the end of the transaction.\<close>

definition deferred_ok :: "store \<Rightarrow> bool" where
  "deferred_ok st = ((\<forall>l \<in> set (ledger st). \<exists>m \<in> set (messages (core st)). m_id m = l_message_id l)
     \<and> (\<forall>u \<in> set (usage st). \<exists>m \<in> set (messages (core st)). m_id m = u_message_id u))"

definition replace_prior :: "env \<Rightarrow> string \<Rightarrow> submission \<Rightarrow> store \<Rightarrow> err + store" where
  "replace_prior E apiKeyID s st =
     (if sm_Replaces s = [] then Inr st
      else bind_res (query_row (\<lambda>k. k_id k = apiKeyID) (api_keys st)) (\<lambda>k.
           bind_res (guard_res (k_enabled k) ErrSubmissionDisabled) (\<lambda>_.
           bind_res (cancelPendingTx E apiKeyID (sm_Replaces s) (sm_ID s) (core st)) (\<lambda>(_, d). Inr (st\<lparr>core := d\<rparr>)))))"

text \<open>
  Publishing the archive happens inside the transaction, after the reservation, on a state of files that no rollback restores: the
  function returns the result of the transaction and the files.
\<close>

definition enqueue_new ::
  "env \<Rightarrow> (nat \<Rightarrow> string) \<Rightarrow> submission \<Rightarrow> string \<Rightarrow> string \<Rightarrow> (submission \<Rightarrow> 'f \<Rightarrow> (err + submission) \<times> 'f) \<Rightarrow> store \<Rightarrow> 'f \<Rightarrow> (err + enqueue_result \<times> store) \<times> 'f" where
  "enqueue_new E ids s apiKeyID keyHash publish st f =
     (case bind_res (replace_prior E apiKeyID s st)
         (reserveSubmission E apiKeyID (sm_ID s) (int (length (el_Recipients (sm_Envelope s)))) (sm_Stream s) (gt_instant (sm_ExpiresAt s))
            (gt_instant (sm_ScheduleAt s)) (av_Size (sm_Archive s))) of
        Inl e \<Rightarrow> (Inl e, f)
      | Inr st \<Rightarrow>
          (case publish s f of
             (Inl e, f) \<Rightarrow> (Inl e, f)
           | (Inr s, f) \<Rightarrow>
               (let s = s\<lparr>sm_Envelope := (sm_Envelope s)\<lparr>el_Account := (el_Account (sm_Envelope s))\<lparr>ac_ID := []\<rparr>\<rparr>\<rparr>
                in (bind_res (enqueueTx E ids s ''api'' apiKeyID keyHash st) (\<lambda>st.
                    bind_res (if sm_Replaces s = [] then Inr st else set_replaces apiKeyID (sm_ID s) (sm_Replaces s) st) (\<lambda>st.
                    bind_res (guard_res (deferred_ok st) ErrConstraint) (\<lambda>_.
                    Inr (\<lparr>er_MessageID = sm_ID s, er_Replayed = False\<rparr>, st)))), f))))"

definition enqueueIdempotent ::
  "(string \<Rightarrow> string option) \<Rightarrow> env \<Rightarrow> (nat \<Rightarrow> string) \<Rightarrow> submission \<Rightarrow> string \<Rightarrow> string \<Rightarrow> (submission \<Rightarrow> 'f \<Rightarrow> (err + submission) \<times> 'f) \<Rightarrow> store \<Rightarrow> 'f
     \<Rightarrow> (err + enqueue_result \<times> store) \<times> 'f" where
  "enqueueIdempotent U E ids s apiKeyID key publish st f =
     (if U apiKeyID = None \<or> U (sm_ID s) = None \<or> \<not> key_ok key then (Inl ErrInvalidSubmission, f)
      else case RequestFingerprint U s of
        Inl e \<Rightarrow> (Inl e, f)
      | Inr fingerprint \<Rightarrow>
          (let keyHash = hex_encode (sha256 key)
           in case find_entry apiKeyID keyHash st of
                Some l \<Rightarrow>
                  (if l_request_sha256 l \<noteq> fingerprint then (Inl ErrIdempotencyConflict, f)
                   else (Inr (\<lparr>er_MessageID = l_message_id l, er_Replayed = True\<rparr>, st), f))
              | None \<Rightarrow>
                  (case insert_ledger \<lparr>l_api_key_id = apiKeyID, l_key_sha256 = keyHash, l_request_sha256 = fingerprint, l_message_id = sm_ID s\<rparr> st of
                     Inl e \<Rightarrow> (Inl e, f)
                   | Inr st \<Rightarrow> enqueue_new E ids s apiKeyID keyHash publish st f)))"

definition EnqueueIdempotent ::
  "(string \<Rightarrow> string option) \<Rightarrow> env \<Rightarrow> (nat \<Rightarrow> string) \<Rightarrow> submission \<Rightarrow> string \<Rightarrow> string \<Rightarrow> (store, enqueue_result) body" where
  "EnqueueIdempotent U E ids s apiKeyID key st = fst (enqueueIdempotent U E ids s apiKeyID key (\<lambda>s f. (Inr s, f)) st ())"

end
