(* ===== verification/Queue_Arrival.thy ===== *)
theory Queue_Arrival
  imports Queue_Claiming Message_Enqueue
begin

text \<open>
  What accepting and cancelling messages means for the queue: a new message is the addition of rows nobody refers to, followed by a step that
  keeps the settled facts (the suppression list, the owner's row, the events), and cancelling is such a step.
\<close>

subsection \<open>Arrival of a message\<close>

text \<open>The rows a new message brings: identifiers not in use, nothing locked, nothing scheduled, no attempt.\<close>

definition fresh_message :: "message \<Rightarrow> rcpt list \<Rightarrow> db \<Rightarrow> bool" where
  "fresh_message m rs d \<longleftrightarrow> m_id m \<notin> m_id ` set (messages d) \<and> m_locked_by m = None \<and> m_status m \<noteq> SENDING
     \<and> distinct (map r_id rs) \<and> (\<forall>r \<in> set rs. r_id r \<notin> r_id ` set (recipients d) \<and> r_message_id r = m_id m \<and> r_status r \<noteq> SENDING
          \<and> r_retry_at r = None \<and> \<not> r_retry_automatic r)"

definition add_message :: "message \<Rightarrow> rcpt list \<Rightarrow> db \<Rightarrow> db" where
  "add_message m rs d = d\<lparr>messages := messages d @ [m], recipients := recipients d @ rs\<rparr>"

lemma distinct_map_append:
  assumes "distinct (map f xs)" and "distinct (map f ys)" and "\<forall>y \<in> set ys. f y \<notin> f ` set xs"
  shows "distinct (map f (xs @ ys))"
proof -
  have "f ` set xs \<inter> f ` set ys = {}"
  proof (rule ccontr)
    assume "f ` set xs \<inter> f ` set ys \<noteq> {}"
    then obtain z where z: "z \<in> f ` set xs" "z \<in> f ` set ys" by (metis disjoint_iff)
    from z(2) obtain y where "z = f y" "y \<in> set ys" by (rule imageE)
    with assms(3) z(1) show False by simp
  qed
  with assms(1,2) show ?thesis by simp
qed

lemma add_message_inv:
  assumes inv: "queue_inv d" and f: "fresh_message m rs d"
  shows "queue_inv (add_message m rs d)" and "job_of (add_message m rs d) j = job_of d j"
proof -
  let ?d = "add_message m rs d"
  have t: "attempts ?d = attempts d" "attempt_recipients ?d = attempt_recipients d" "messages ?d = messages d @ [m]" "recipients ?d = recipients d @ rs"
    "events ?d = events d" by (simp_all add: add_message_def)
  note keys = queue_invD(1) [OF inv]
  have noatt: "a_message_id a \<noteq> m_id m" if "a \<in> set (attempts d)" for a
    using inv_keysD(6) [OF keys that] f unfolding fresh_message_def by (metis image_eqI)
  have norow: "(aid, r_id r) \<notin> ar_keys d" if "r \<in> set rs" for aid r
  proof
    assume "(aid, r_id r) \<in> ar_keys d"
    then obtain x where "x \<in> set (recipients d)" "r_id x = r_id r" by (rule inv_keys_row [OF keys])
    with f that show False unfolding fresh_message_def by (metis image_eqI)
  qed
  have "inv_keys ?d" unfolding inv_keys_def t
  proof (intro conjI ballI)
    show "distinct (map m_id (messages d @ [m]))" "distinct (map a_id (attempts d))" "distinct (map (\<lambda>a. (a_message_id a, a_number a)) (attempts d))"
      using keys f by (simp_all add: inv_keys_def fresh_message_def)
    show "distinct (map r_id (recipients d @ rs))"
      by (rule distinct_map_append) (use keys f in \<open>simp_all add: inv_keys_def fresh_message_def\<close>)
    show "\<exists>x \<in> set (messages d @ [m]). m_id x = a_message_id a \<and> a_number a \<le> m_attempt_count x" if a: "a \<in> set (attempts d)" for a
    proof -
      obtain x where "x \<in> set (messages d)" "m_id x = a_message_id a" using inv_keysD(6) [OF keys a] by blast
      with inv_keysD(4) [OF keys a this] show ?thesis by (intro bexI [of _ x]) simp_all
    qed
    show "\<exists>x \<in> set (messages d @ [m]). m_id x = r_message_id r" if "r \<in> set (recipients d @ rs)" for r
      using that inv_keysD(7) [OF keys, of r] f by (auto simp: fresh_message_def)
    show "case x of (aid, rid) \<Rightarrow> \<exists>a \<in> set (attempts d). \<exists>r \<in> set (recipients d @ rs). a_id a = aid \<and> r_id r = rid \<and> a_message_id a = r_message_id r"
      if "x \<in> ar_keys d" for x
    proof -
      from that have "(fst x, snd x) \<in> ar_keys d" by simp
      then obtain a r where "a \<in> set (attempts d)" "r \<in> set (recipients d)" "a_id a = fst x" "r_id r = snd x" "a_message_id a = r_message_id r"
        by (rule inv_keys_row [OF keys])
      then show ?thesis unfolding split_beta set_append by blast
    qed
  qed
  moreover have "inv_lease ?d"
  proof -
    have "m_status m = SENDING \<longleftrightarrow> m_locked_by m \<noteq> None" "m_locked_by m = None" using f by (simp_all add: fresh_message_def)
    then show ?thesis using queue_invD(2) [OF inv] noatt unfolding inv_lease_def t set_append ball_Un by (simp add: ball_Un)
  qed
  moreover have "inv_one ?d" using queue_invD(3) [OF inv] unfolding inv_one_def t .
  moreover have "inv_gate ?d" using queue_invD(5) [OF inv] unfolding inv_gate_def t .
  moreover have "inv_rcpt ?d"
  proof -
    have "sending_ok ?d r" if "r \<in> set rs" for r
      using f that norow [OF that] unfolding sending_ok_def t fresh_message_def by auto
    moreover have "sending_ok ?d r = sending_ok d r" for r by (simp add: sending_ok_def t)
    ultimately show ?thesis using queue_invD(4) [OF inv] by (simp add: inv_rcpt_def t ball_Un)
  qed
  moreover have "inv_sure ?d"
  proof -
    have s: "settled ?d ar = settled d ar" "superseded ?d ar = superseded d ar" for ar by (simp_all add: settled_def acknowledged_def superseded_def t)
    have "r_id r \<noteq> ar_recipient_id ar" if "r \<in> set rs" "ar \<in> set (attempt_recipients d)" for r ar
      using norow [OF that(1), of "ar_attempt_id ar"] that(2) by (force simp: ar_key_def)
    then show ?thesis using queue_invD(6) [OF inv] unfolding inv_sure_def s t set_append ball_Un by auto
  qed
  ultimately show "queue_inv ?d" by (simp add: queue_inv_def)
  show "job_of ?d j = job_of d j" by (simp add: job_of_def t)
qed

subsection \<open>Inserting the rows\<close>

lemma insert_recipients_tables:
  assumes "fold_res (\<lambda>(i, a). insert_recipient (f i a)) xs d = Inr d'"
  shows "d' = d\<lparr>recipients := recipients d @ map (\<lambda>(i, a). f i a) xs\<rparr>"
    and "distinct (map (\<lambda>(i, a). r_id (f i a)) xs)" and "\<forall>(i, a) \<in> set xs. r_id (f i a) \<notin> r_id ` set (recipients d)"
proof -
  have "d' = d\<lparr>recipients := recipients d @ map (\<lambda>(i, a). f i a) xs\<rparr> \<and> distinct (map (\<lambda>(i, a). r_id (f i a)) xs)
    \<and> (\<forall>(i, a) \<in> set xs. r_id (f i a) \<notin> r_id ` set (recipients d))"
    using assms
  proof (induction xs arbitrary: d)
    case Nil
    then show ?case by simp
  next
    case (Cons x xs)
    obtain i a where x: "x = (i, a)" by fastforce
    from Cons.prems obtain d1 where d1: "insert_recipient (f i a) d = Inr d1" "fold_res (\<lambda>(i, a). insert_recipient (f i a)) xs d1 = Inr d'"
      by (auto simp: x bind_res_Inr_iff)
    then have new: "r_id (f i a) \<notin> r_id ` set (recipients d)" and d1': "d1 = d\<lparr>recipients := recipients d @ [f i a]\<rparr>"
      by (auto simp: insert_recipient_def image_iff split: if_split_asm)
    from Cons.IH [OF d1(2)] have IH: "d' = d1\<lparr>recipients := recipients d1 @ map (\<lambda>(i, a). f i a) xs\<rparr>" "distinct (map (\<lambda>(i, a). r_id (f i a)) xs)"
      "\<forall>(i, a) \<in> set xs. r_id (f i a) \<notin> r_id ` set (recipients d1)" by blast+
    have "r_id (f i a) \<notin> (\<lambda>(i, a). r_id (f i a)) ` set xs" using IH(3) by (auto simp: d1')
    moreover have "\<forall>(i, a) \<in> set xs. r_id (f i a) \<notin> r_id ` set (recipients d)" using IH(3) by (auto simp: d1')
    ultimately show ?case using IH(1,2) new by (simp add: x d1')
  qed
  then show "d' = d\<lparr>recipients := recipients d @ map (\<lambda>(i, a). f i a) xs\<rparr>" "distinct (map (\<lambda>(i, a). r_id (f i a)) xs)"
    "\<forall>(i, a) \<in> set xs. r_id (f i a) \<notin> r_id ` set (recipients d)" by blast+
qed

lemma initialize_queue_owner_tables [simp]:
  "messages (initialize_queue_owner m d) = messages d" "recipients (initialize_queue_owner m d) = recipients d" "attempts (initialize_queue_owner m d) = attempts d"
  "attempt_recipients (initialize_queue_owner m d) = attempt_recipients d" "events (initialize_queue_owner m d) = events d"
  "suppressions (initialize_queue_owner m d) = suppressions d" "pg_lower (initialize_queue_owner m d) = pg_lower d"
  by (simp_all add: initialize_queue_owner_def)

lemma enqueue_events_tables [simp]:
  "messages (enqueue_events E s src en str sch ex b fin d) = messages d" "recipients (enqueue_events E s src en str sch ex b fin d) = recipients d"
  "attempts (enqueue_events E s src en str sch ex b fin d) = attempts d" "attempt_recipients (enqueue_events E s src en str sch ex b fin d) = attempt_recipients d"
  "keeps_events d (enqueue_events E s src en str sch ex b fin d)"
  by (auto simp: enqueue_events_def Let_def)

text \<open>What the policy does to the row of the message and to the rows of its recipients.\<close>

definition policy_message :: "env \<Rightarrow> string \<Rightarrow> bool \<Rightarrow> message \<Rightarrow> message" where
  "policy_message E environment all_suppressed m =
     (if environment = ''sandbox'' then m\<lparr>m_completed_at := Some (clk E 22), m_next_attempt_at := None\<rparr>
      else if all_suppressed then m\<lparr>m_status := SUPPRESSED, m_completed_at := Some (now E), m_next_attempt_at := None\<rparr> else m)"

definition policy_rcpt :: "env \<Rightarrow> string \<Rightarrow> string \<Rightarrow> db \<Rightarrow> rcpt \<Rightarrow> rcpt" where
  "policy_rcpt E mid environment d = (if environment = ''sandbox'' then id else apply_rows (clk E 21) (apply_hits (clk E 20) mid False d))"

lemma enqueue_policy_tables:
  "\<exists>b. messages (enqueue_policy E mid environment d) = update_where (\<lambda>m. m_id m = mid) (policy_message E environment b) (messages d)
     \<and> (b \<longleftrightarrow> (\<forall>r \<in> set (recipients (enqueue_policy E mid environment d)). r_message_id r = mid \<longrightarrow> r_status r = SUPPRESSED))"
  "recipients (enqueue_policy E mid environment d) = map (policy_rcpt E mid environment d) (recipients d)"
  "attempts (enqueue_policy E mid environment d) = attempts d" "attempt_recipients (enqueue_policy E mid environment d) = attempt_recipients d"
  "keeps_events d (enqueue_policy E mid environment d)"
  using keeps_events_Apply [of d E mid "[]" False]
  by (auto simp: enqueue_policy_def policy_message_def policy_rcpt_def Let_def update_where_def)

lemma policy_rcpt_cases:
  assumes keys: "inv_keys d" and r: "r \<in> set (recipients d)"
  shows "policy_rcpt E mid environment d r = r
    \<or> r_message_id r = mid \<and> r_status r \<in> {QUEUED, TEMP_FAILED} \<and> (\<exists>sid. policy_rcpt E mid environment d r = suppress_recipient (clk E 21) sid r)"
proof (cases "environment = ''sandbox'' \<or> r_id r \<notin> fst ` set (apply_hits (clk E 20) mid False d)")
  case True
  then show ?thesis using apply_rows_cases [of "clk E 21" "apply_hits (clk E 20) mid False d" r] by (auto simp: policy_rcpt_def)
next
  case False
  then obtain r' where r': "r' \<in> set (recipients d)" "r_id r' = r_id r" "r_message_id r' = mid" "r_status r' \<in> set (apply_states False)"
    by (auto dest!: apply_hits_mem)
  then have "r' = r" using inv_keysD(2) [OF keys] r by blast
  with r' False apply_rows_cases [of "clk E 21" "apply_hits (clk E 20) mid False d" r] show ?thesis by (auto simp: policy_rcpt_def apply_states_def)
qed

text \<open>The parts of an accepted submission, in the order the code computes them.\<close>

definition new_rows :: "(nat \<Rightarrow> string) \<Rightarrow> submission \<Rightarrow> string \<Rightarrow> rcpt list" where
  "new_rows ids s environment = map (\<lambda>(i, a). new_recipient s (stored_status environment) (ids i) a) (enumerate 0 (el_Recipients (sm_Envelope s)))"

lemma enqueueTx_Inr:
  assumes "enqueueTx E ids s source apiKeyID keyHash st = Inr st'"
  obtains business expiry schedule stream environment expires scheduled m mm d2 m' where
    "Canonical (sm_Business s) = Inr business" "CanonicalExpiry (sm_ExpiresAt s) = Inr expiry" "CanonicalExpiry (sm_ScheduleAt s) = Inr schedule"
    "CanonicalStream (sm_Stream s) = Inr stream" "source = ''api'' \<or> environment = ''production''"
    "pg_deadline expiry = Inr expires" "pg_deadline schedule = Inr scheduled"
    "m = new_message E s source apiKeyID environment (stored_status environment) stream expires scheduled" "message_accepted st m mm"
    "mm = \<lparr>mm_id = sm_ID s, mm_message_id = sm_MessageID s, mm_subject = sm_Subject s, mm_queued_at = host E, mm_idempotency_key = null_text keyHash,
       mm_business = business, mm_replaces = None\<rparr>"
    "d2 = (initialize_queue_owner m ((core st)\<lparr>messages := messages (core st) @ [m]\<rparr>))\<lparr>recipients := recipients (core st) @ new_rows ids s environment\<rparr>"
    "distinct (map r_id (new_rows ids s environment))" "\<forall>r \<in> set (new_rows ids s environment). r_id r \<notin> r_id ` set (recipients (core st))"
    "query_row (\<lambda>m. m_id m = sm_ID s) (messages (enqueue_policy E (sm_ID s) environment d2)) = Inr m'"
    "st' = st\<lparr>core := enqueue_events E s source environment stream schedule expiry business (m_status m') (enqueue_policy E (sm_ID s) environment d2),
       meta := meta st @ [mm], notified := notified st @ (if m_status m' = QUEUED then [sm_ID s] else [])\<rparr>"
proof -
  from assms obtain business expiry schedule stream where c: "Canonical (sm_Business s) = Inr business" "CanonicalExpiry (sm_ExpiresAt s) = Inr expiry"
    "CanonicalExpiry (sm_ScheduleAt s) = Inr schedule" "CanonicalStream (sm_Stream s) = Inr stream"
    unfolding enqueueTx_def prod.case by (auto split: sum.split_asm)
  from assms obtain environment where env: "source = ''api'' \<or> environment = ''production''"
    and rest: "enqueue_rows E ids s source apiKeyID keyHash business expiry schedule stream environment st = Inr st'"
    unfolding enqueueTx_def c prod.case sum.case bind_res_Inr_iff by (auto simp: enqueue_environment_def split: if_split_asm)
  from rest obtain expires scheduled st1 d2 m' where r: "pg_deadline expiry = Inr expires" "pg_deadline schedule = Inr scheduled"
    "insert_message (new_message E s source apiKeyID environment (stored_status environment) stream expires scheduled)
        \<lparr>mm_id = sm_ID s, mm_message_id = sm_MessageID s, mm_subject = sm_Subject s, mm_queued_at = host E, mm_idempotency_key = null_text keyHash,
         mm_business = business, mm_replaces = None\<rparr> st = Inr st1"
    "fold_res (\<lambda>(i, address). insert_recipient (new_recipient s (stored_status environment) (ids i) address)) (enumerate 0 (el_Recipients (sm_Envelope s))) (core st1) = Inr d2"
    "query_row (\<lambda>m. m_id m = sm_ID s) (messages (enqueue_policy E (sm_ID s) environment d2)) = Inr m'"
    "st' = st1\<lparr>core := enqueue_events E s source environment stream schedule expiry business (m_status m') (enqueue_policy E (sm_ID s) environment d2),
       notified := notified st1 @ (if m_status m' = QUEUED then [sm_ID s] else [])\<rparr>"
    unfolding enqueue_rows_def bind_res_Inr_iff by (elim exE conjE) (simp only: sum.inject)
  let ?m = "new_message E s source apiKeyID environment (stored_status environment) stream expires scheduled"
  from r(3) have acc: "message_accepted st ?m \<lparr>mm_id = sm_ID s, mm_message_id = sm_MessageID s, mm_subject = sm_Subject s, mm_queued_at = host E,
      mm_idempotency_key = null_text keyHash, mm_business = business, mm_replaces = None\<rparr>"
    and st1: "st1 = st\<lparr>core := initialize_queue_owner ?m ((core st)\<lparr>messages := messages (core st) @ [?m]\<rparr>),
      meta := meta st @ [\<lparr>mm_id = sm_ID s, mm_message_id = sm_MessageID s, mm_subject = sm_Subject s, mm_queued_at = host E,
      mm_idempotency_key = null_text keyHash, mm_business = business, mm_replaces = None\<rparr>]\<rparr>"
    by (simp_all add: insert_message_def split: if_split_asm)
  note i = insert_recipients_tables [OF r(4)]
  have map_ids: "map r_id (new_rows ids s environment)
      = map (\<lambda>(i, a). r_id (new_recipient s (stored_status environment) (ids i) a)) (enumerate 0 (el_Recipients (sm_Envelope s)))"
    unfolding new_rows_def map_map by (rule map_cong [OF refl]) auto
  have "distinct (map r_id (new_rows ids s environment))" unfolding map_ids by (rule i(2))
  moreover have "\<forall>r \<in> set (new_rows ids s environment). r_id r \<notin> r_id ` set (recipients (core st))" using i(3) by (auto simp: new_rows_def st1)
  moreover have "d2 = (initialize_queue_owner ?m ((core st)\<lparr>messages := messages (core st) @ [?m]\<rparr>))\<lparr>recipients := recipients (core st) @ new_rows ids s environment\<rparr>"
    using i(1) by (simp add: st1 new_rows_def)
  ultimately show thesis by (intro that [OF c env r(1,2) refl acc refl _ _ _ r(5)]) (simp_all add: r(6) st1)
qed

lemma new_message_simps [simp]:
  "m_id (new_message E s source key en status stream ex sch) = sm_ID s" "m_locked_by (new_message E s source key en status stream ex sch) = None"
  "m_status (new_message E s source key en status stream ex sch) = status" "m_api_key_id (new_message E s source key en status stream ex sch) = null_text key"
  "m_source_type (new_message E s source key en status stream ex sch) = source" "m_environment (new_message E s source key en status stream ex sch) = en"
  by (simp_all add: new_message_def)

lemma message_accepted_new: "message_accepted st m mm \<Longrightarrow> \<forall>x \<in> set (messages (core st)). m_id x \<noteq> m_id m \<and> m_eml_path x \<noteq> m_eml_path m"
  unfolding message_accepted_def by (rule conjunct1)

lemma new_rows_mem:
  assumes "r \<in> set (new_rows ids s environment)"
  shows "r_message_id r = sm_ID s" "r_status r = stored_status environment" "r_retry_at r = None" "\<not> r_retry_automatic r" "r_attempt_count r = 0"
    "r_address r \<in> set (el_Recipients (sm_Envelope s))"
  using assms by (auto simp: new_rows_def new_recipient_def in_set_enumerate_eq)

lemma enqueueTx_arrival:
  assumes inv: "queue_inv (core st)" and enq: "enqueueTx E ids s source apiKeyID keyHash st = Inr st'"
  obtains m environment where "fresh_message m (new_rows ids s environment) (core st)" "good_step (add_message m (new_rows ids s environment) (core st)) (core st')"
    "m_id m = sm_ID s" "m_status m = stored_status environment" "m_api_key_id m = null_text apiKeyID" "m_source_type m = source" "m_environment m = environment"
proof -
  obtain business expiry schedule stream environment expires scheduled m mm d2 m' where
    "Canonical (sm_Business s) = Inr business" "CanonicalExpiry (sm_ExpiresAt s) = Inr expiry" "CanonicalExpiry (sm_ScheduleAt s) = Inr schedule"
    "CanonicalStream (sm_Stream s) = Inr stream" "source = ''api'' \<or> environment = ''production''"
    "pg_deadline expiry = Inr expires" "pg_deadline schedule = Inr scheduled"
    and m: "m = new_message E s source apiKeyID environment (stored_status environment) stream expires scheduled" "message_accepted st m mm"
    and "mm = \<lparr>mm_id = sm_ID s, mm_message_id = sm_MessageID s, mm_subject = sm_Subject s, mm_queued_at = host E, mm_idempotency_key = null_text keyHash,
       mm_business = business, mm_replaces = None\<rparr>"
    and d2: "d2 = (initialize_queue_owner m ((core st)\<lparr>messages := messages (core st) @ [m]\<rparr>))\<lparr>recipients := recipients (core st) @ new_rows ids s environment\<rparr>"
    and ids: "distinct (map r_id (new_rows ids s environment))" "\<forall>r \<in> set (new_rows ids s environment). r_id r \<notin> r_id ` set (recipients (core st))"
    and "query_row (\<lambda>m. m_id m = sm_ID s) (messages (enqueue_policy E (sm_ID s) environment d2)) = Inr m'"
    and st': "st' = st\<lparr>core := enqueue_events E s source environment stream schedule expiry business (m_status m') (enqueue_policy E (sm_ID s) environment d2),
       meta := meta st @ [mm], notified := notified st @ (if m_status m' = QUEUED then [sm_ID s] else [])\<rparr>"
    by (rule enqueueTx_Inr [OF enq])
  let ?rs = "new_rows ids s environment" and ?mid = "sm_ID s"
  let ?d1 = "add_message m ?rs (core st)"
  have new: "m_id m \<notin> m_id ` set (messages (core st))" using message_accepted_new [OF m(2)] by auto
  have fresh: "fresh_message m ?rs (core st)"
    unfolding fresh_message_def using new ids m(1) new_rows_mem [of _ ids s environment] by (auto simp: stored_status_def)
  note inv1 = add_message_inv(1) [OF inv fresh]
  have t: "messages d2 = messages ?d1" "recipients d2 = recipients ?d1" "attempts d2 = attempts ?d1" "attempt_recipients d2 = attempt_recipients ?d1"
    "events d2 = events ?d1" "suppressions d2 = suppressions ?d1" "pg_lower d2 = pg_lower ?d1"
    by (simp_all add: d2 add_message_def)
  then have keys2: "inv_keys d2" using queue_invD(1) [OF inv1] by (simp add: inv_keys_def)
  have un: "unlocked ?d1 ?mid" using new m(1) by (auto simp: unlocked_def add_message_def image_iff)
  note p = enqueue_policy_tables(2-4) [of E ?mid environment d2] enqueue_policy_tables(5) [of d2 E ?mid environment]
  obtain b where b: "messages (enqueue_policy E ?mid environment d2) = update_where (\<lambda>m. m_id m = ?mid) (policy_message E environment b) (messages d2)"
    using enqueue_policy_tables(1) by blast
  have supp: "r_key (suppress_recipient t sid r) = r_key r" "r_retry_automatic (suppress_recipient t sid r) = False" for t sid r
    by (simp_all add: suppress_recipient_def r_key_def)
  have key: "r_key (policy_rcpt E ?mid environment d2 r) = r_key r" for r
    using apply_rows_cases [of "clk E 21" "apply_hits (clk E 20) ?mid False d2" r] supp by (auto simp: policy_rcpt_def)
  have "good_step ?d1 (core st')"
  proof (rule unlocked_good [OF inv1 un])
    show "messages (core st') = update_where (\<lambda>m. m_id m = ?mid) (policy_message E environment b) (messages ?d1)" by (simp add: st' b t)
    show "recipients (core st') = map (policy_rcpt E ?mid environment d2) (recipients ?d1)" by (simp add: st' p t)
    have "keeps_events ?d1 (enqueue_policy E ?mid environment d2)" using p(4) by (simp add: keeps_events_def t)
    then show "keeps_events ?d1 (core st')" unfolding st' by (simp add: keeps_events_trans)
    show "m_key (policy_message E environment b m) = m_key m" "m_locked_by (policy_message E environment b m) = m_locked_by m" for m
      by (simp_all add: policy_message_def m_key_def)
    show "m_status (policy_message E environment b x) \<noteq> SENDING" if "x \<in> set (messages ?d1)" "m_id x = ?mid" for x
    proof -
      have "x = m" using that new m(1) by (auto simp: add_message_def image_iff)
      then show ?thesis by (simp add: policy_message_def m(1) stored_status_def)
    qed
    show "policy_rcpt E ?mid environment d2 r = r \<or> r_message_id r = ?mid \<and> keeps_facts r (policy_rcpt E ?mid environment d2 r)
        \<and> r_retry_at (policy_rcpt E ?mid environment d2 r) = None \<and> r_status (policy_rcpt E ?mid environment d2 r) \<noteq> SENDING
        \<and> (r_retry_automatic (policy_rcpt E ?mid environment d2 r) \<longrightarrow> r_retry_started_at (policy_rcpt E ?mid environment d2 r) \<noteq> None)
        \<and> (r_status (policy_rcpt E ?mid environment d2 r) = QUEUED \<longrightarrow> claimable r)" if "r \<in> set (recipients ?d1)" for r
      using policy_rcpt_cases [OF keys2, of r E ?mid environment] that supp by (auto simp: t keeps_facts_def finished_statuses_def)
  qed (simp_all add: st' p t key)
  with that [OF fresh] m(1) show thesis by simp
qed

subsection \<open>Cancelling\<close>

lemma cancelPendingTx_good:
  assumes inv: "queue_inv d" and c: "cancelPendingTx E identity mid replacement d = Inr (replay, d')"
  shows "good_step d d'"
proof -
  from c obtain m where m: "find (\<lambda>m. m_id m = mid \<and> m_source_type m = ''api'' \<and> m_api_key_id m = Some identity \<and> m_environment m = ''production'') (messages d) = Some m"
    and d': "d' = d \<or> \<not> cancel_unsafe d m \<and> d' = cancel_rows E mid replacement d"
    by (auto simp: cancelPendingTx_def split: option.split_asm if_split_asm)
  from d' show ?thesis
  proof
    assume "d' = d"
    with inv show ?thesis by (simp add: good_step_refl)
  next
    assume u: "\<not> cancel_unsafe d m \<and> d' = cancel_rows E mid replacement d"
    have mem: "m \<in> set (messages d)" "m_id m = mid" using m by (auto simp: find_Some_iff)
    have "unlocked d mid" unfolding unlocked_def using inv_keysD(1) [OF queue_invD(1) [OF inv] _ mem(1)] mem(2) u by (auto simp: cancel_unsafe_def)
    then show ?thesis
    proof (rule unlocked_good [OF inv])
      let ?g = "\<lambda>r. if r_message_id r = mid \<and> r_status r \<in> {QUEUED, TEMP_FAILED} then cancel_recipient (clk E 36) r else r"
      show "recipients d' = map ?g (recipients d)" "messages d' = update_where (\<lambda>m. m_id m = mid) (cancel_message (clk E 37)) (messages d)"
        using u by (simp_all add: cancel_rows_def update_where_def)
      show "keeps_events d d'" using u by (auto simp: cancel_rows_def)
      show "r_key (?g r) = r_key r" for r by (simp add: cancel_recipient_def r_key_def)
      show "?g r = r \<or> r_message_id r = mid \<and> keeps_facts r (?g r) \<and> r_retry_at (?g r) = None \<and> r_status (?g r) \<noteq> SENDING
          \<and> (r_retry_automatic (?g r) \<longrightarrow> r_retry_started_at (?g r) \<noteq> None) \<and> (r_status (?g r) = QUEUED \<longrightarrow> claimable r)" for r
        by (auto simp: cancel_recipient_def keeps_facts_def finished_statuses_def r_key_def)
    qed (use u in \<open>simp_all add: cancel_rows_def cancel_message_def m_key_def\<close>)
  qed
qed

end
