(* ===== verification/Queue_System.thy ===== *)
theory Queue_System
  imports Queue_Arrival
begin

text \<open>
  The queue as a transition system. A state is the database together with the jobs handed to workers; the steps are the
  transactions of internal/queue, of the suppression list and of internal/message that accept or cancel a message, in any
  order and with any clock. The invariant holds in every reachable state.
\<close>

subsection \<open>The claim as one step\<close>

lemma take_ticket_tables [simp]:
  "messages (take_ticket w c d) = messages d" "recipients (take_ticket w c d) = recipients d" "attempts (take_ticket w c d) = attempts d"
  "attempt_recipients (take_ticket w c d) = attempt_recipients d" "events (take_ticket w c d) = events d" "provider_quota (take_ticket w c d) = provider_quota d"
  "providers (take_ticket w c d) = providers d" "quota_groups (take_ticket w c d) = quota_groups d" "suppressions (take_ticket w c d) = suppressions d" "keeps_events a (take_ticket w c d) = keeps_events a d"
  by (simp_all add: take_ticket_def keeps_events_def)

lemma claim_done_ticket: "claim_done E m p ids d j d' \<Longrightarrow> claim_done E m p ids d j (take_ticket w c d')"
  unfolding claim_done_def take_ticket_tables .

lemma order_limit_head: "order_limit key n p rows = r # rs \<Longrightarrow> r \<in> set rows \<and> p r"
  using order_limit_mem [of r key n p rows] by simp

lemma select_message_head:
  "select_message R E d owner cursor = m # ms \<Longrightarrow> m \<in> set (messages d) \<and> queue_owner m = owner \<and> eligible R E (clk E 1) d m"
  unfolding select_message_def Let_def by (drule order_limit_head) simp

lemma selectFair_Inr:
  assumes "selectFair R E d = Inr (owner, cursor, m)"
  obtains w ws where "select_owner R E d = w # ws" "ow_key w = owner" "m \<in> set (messages d)" "queue_owner m = owner" "eligible R E (clk E 1) d m"
proof -
  from assms obtain w ws m' ms where "select_owner R E d = w # ws" "select_message R E d (ow_key w) (ow_cursor w) = m # ms" "ow_key w = owner"
    unfolding selectFair_def by (auto split: list.split_asm)
  with select_message_head [OF this(2)] that show thesis by blast
qed

lemma select_provider_head:
  "select_provider R E d m = p # ps \<Longrightarrow> p \<in> set (providers d) \<and> eligibleProvider R (clk E 2) d m p \<and> \<not> locked_providers E (pv_id p)"
  unfolding select_provider_def by (drule order_limit_head) simp

lemma claim_ids_choice:
  assumes "inv_keys d" and "r \<in> set (recipients d)" "r_id r \<in> set (claim_ids R E mid n d)"
  shows "r_message_id r = mid \<and> claimRecipient R (clk E 6) d r"
proof -
  from assms(3) obtain x where x: "x \<in> set (order_limit r_id (nat n) (\<lambda>r. r_message_id r = mid \<and> claimRecipient R (clk E 6) d r) (recipients d))" "r_id x = r_id r"
    by (auto simp: claim_ids_def)
  from order_limit_mem [OF x(1)] inv_keysD(2) [OF assms(1,2)] x(2) show ?thesis by metis
qed

lemma claim_tx_Inr:
  assumes "claim_tx R E d = Inr (j, d')" and inv: "inv_keys d"
  obtains m p n w ws where "select_owner R E d = w # ws" "queue_owner m = ow_key w" "m \<in> set (messages d)" "eligible R E (clk E 1) d m"
    and "p \<in> set (providers d)" "eligibleProvider R (clk E 2) d m p"
    and "admission R E (pv_id p) d = Inr n" "live_attempts (clk E 3) d (pv_id p) < pv_max_connections p"
    and "m_schedule_at m = None \<or> null_le (m_schedule_at m) (clk E 5)" "m_expires_at m = None \<or> null_gt (m_expires_at m) (clk E 5)"
    and "claim_done E m p (claim_ids R E (m_id m) (min n FairRecipientQuantum) d) d j d'"
    and "claim_choice m (claim_ids R E (m_id m) (min n FairRecipientQuantum) d) d"
    and "\<exists>c d0. d' = take_ticket (ow_key w) c d0 \<and> fair_owners d0 = fair_owners d \<and> next_ticket d0 = next_ticket d"
proof -
  from assms(1) obtain owner cursor m p ps d0 where s: "selectFair R E d = Inr (owner, cursor, m)" "select_provider R E d m = p # ps"
    "claim_message R E m p d = Inr (j, d0)" "d' = take_ticket owner cursor d0"
    unfolding claim_tx_def bind_res_Inr_iff by (elim exE conjE) (auto simp: bind_res_Inr_iff split: list.splits)
  obtain w ws where w: "select_owner R E d = w # ws" "ow_key w = owner" "m \<in> set (messages d)" "queue_owner m = owner" "eligible R E (clk E 1) d m"
    by (rule selectFair_Inr [OF s(1)])
  obtain n where n: "admission R E (pv_id p) d = Inr n" "live_attempts (clk E 3) d (pv_id p) < pv_max_connections p"
    "m_schedule_at m = None \<or> null_le (m_schedule_at m) (clk E 5)" "m_expires_at m = None \<or> null_gt (m_expires_at m) (clk E 5)"
    "claim_done E m p (claim_ids R E (m_id m) (min n FairRecipientQuantum) d) d j d0" "fair_owners d0 = fair_owners d" "next_ticket d0 = next_ticket d"
    by (rule claim_message_Inr [OF s(3)])
  have "claim_choice m (claim_ids R E (m_id m) (min n FairRecipientQuantum) d) d"
    unfolding claim_choice_def using w(3,5) claim_ids_choice [OF inv] by (auto simp: eligible_def claimRecipient_def)
  with that [OF w(1) _ w(3,5) _ _ n(1-4)] select_provider_head [OF s(2)] claim_done_ticket [OF n(5)] n(6,7) w(2,4) s(4) show thesis by blast
qed

lemma claim_tx_inv:
  assumes inv: "queue_inv d" and tx: "claim_tx R E d = Inr (j, d')"
  shows "queue_inv d'" "job_of d' j" "\<And>j0. job_of d j0 \<Longrightarrow> job_of d' j0" "keeps_events d d'" "list_all2 keeps_facts (recipients d) (recipients d')"
proof -
  obtain m p ids where c: "claim_done E m p ids d j d'" "claim_choice m ids d" using claim_tx_Inr [OF tx queue_invD(1) [OF inv]] by metis
  show "queue_inv d'" "job_of d' j" "\<And>j0. job_of d j0 \<Longrightarrow> job_of d' j0" "keeps_events d d'"
    using claim_keeps_inv [OF inv c(2,1)] claim_job_of [OF inv c(1)] claim_doneD(10) [OF c(1)] by blast+
  show "list_all2 keeps_facts (recipients d) (recipients d')" unfolding claim_doneD(7) [OF c(1)]
  proof (rule facts.rows_update)
    fix r assume "r \<in> set (recipients d)" "r_id r \<in> set ids"
    then have "r_status r = QUEUED" using c(2) by (simp add: claim_choice_def)
    then show "keeps_facts r (send_recipient E (pv_id p) r)" by (simp add: keeps_facts_def finished_statuses_def)
  qed
qed

subsection \<open>Steps\<close>

inductive qstep :: "repo \<Rightarrow> db \<times> job list \<Rightarrow> db \<times> job list \<Rightarrow> bool" for R :: repo where
  arrive: "fresh_message m rs d \<Longrightarrow> qstep R (d, js) (add_message m rs d, js)"
| claimed: "Claim R E1 E2 E3 d = (Inr j, d') \<Longrightarrow> qstep R (d, js) (d', j # js)"
| idle: "Claim R E1 E2 E3 d = (Inl e, d') \<Longrightarrow> qstep R (d, js) (d', js)"
| arm: "j \<in> set js \<Longrightarrow> qstep R (d, js) (commit_tx (ArmData E j) d, js)"
| note_event: "j \<in> set js \<Longrightarrow> qstep R (d, js) (commit_tx (Record E j e) d, js)"
| finish: "j \<in> set js \<Longrightarrow> sane_result out \<Longrightarrow> qstep R (d, js) (commit_tx (Finish R E j out) d, js)"
| recover: "qstep R (d, js) (commit_tx (Recover E) d, js)"
| schedule: "Schedule R E1 E2 d = (res, d') \<Longrightarrow> qstep R (d, js) (d', js)"
| resolve: "qstep R (d, js) (commit_tx (ResolveUnknown E v) d, js)"
| suppress: "qstep R (d, js) (commit_tx (Add E v) d, js)"
| release: "qstep R (d, js) (commit_tx (Release E sid actor reason) d, js)"
| accept: "enqueueTx E ids s source apiKeyID keyHash st = Inr st' \<Longrightarrow> qstep R (core st, js) (core st', js)"
| cancel: "qstep R (d, js) (commit_tx (cancelPendingTx E identity mid replacement) d, js)"

text \<open>Every state that can arise from an empty queue, with any lower-casing function and any providers, owners and streams.\<close>

inductive reachable :: "repo \<Rightarrow> db \<times> job list \<Rightarrow> bool" for R :: repo where
  start: "messages d = [] \<Longrightarrow> recipients d = [] \<Longrightarrow> attempts d = [] \<Longrightarrow> attempt_recipients d = [] \<Longrightarrow> reachable R (d, [])"
| step: "reachable R s \<Longrightarrow> qstep R s s' \<Longrightarrow> reachable R s'"

inductive_cases qstepE: "qstep R s s'"

definition sys_inv :: "db \<times> job list \<Rightarrow> bool" where
  "sys_inv s \<longleftrightarrow> queue_inv (fst s) \<and> (\<forall>j \<in> set (snd s). job_of (fst s) j)"

lemma sys_inv_good: "sys_inv (d, js) \<Longrightarrow> good_step d d' \<Longrightarrow> sys_inv (d', js)"
  using job_of_keys [of d d'] by (auto simp: sys_inv_def good_step_def)

lemma Claim_tables:
  assumes inv: "queue_inv d" and cl: "Claim R E1 E2 E3 d = (res, d')"
  obtains d2 where "good_step d d2" and "(\<exists>j. res = Inr j \<and> claim_tx R E3 d2 = Inr (j, d')) \<or> (\<exists>e. res = Inl e \<and> d' = d2)"
proof -
  obtain d1 where d1: "SweepExpired E1 d = Inr ((), d1)" by (simp add: SweepExpired_def Let_def)
  obtain d2 where d2: "SweepSuppressed E2 d1 = Inr ((), d2)" by (simp add: SweepSuppressed_def Let_def)
  note g1 = SweepExpired_good [OF inv d1]
  have "good_step d1 d2" using SweepSuppressed_good [OF _ d2] g1 by (simp add: good_step_def)
  with g1 have g: "good_step d d2" by (rule good_step_trans)
  from cl have "res = run_tx (claim_tx R E3) d2" "d' = commit_tx (claim_tx R E3) d2" by (simp_all add: Claim_def d1 d2)
  then have "(\<exists>j. res = Inr j \<and> claim_tx R E3 d2 = Inr (j, d')) \<or> (\<exists>e. res = Inl e \<and> d' = d2)"
    by (cases "claim_tx R E3 d2") (auto simp: run_tx_def)
  with g that show thesis by blast
qed

lemma Schedule_good:
  assumes "queue_inv d" and "Schedule R E1 E2 d = (res, d')"
  shows "good_step d d'" and "res = Inr ()"
proof -
  obtain d1 where d1: "SweepExpired E1 d = Inr ((), d1)" by (simp add: SweepExpired_def Let_def)
  note g1 = SweepExpired_good [OF assms(1) d1]
  then have "queue_inv d1" by (simp add: good_step_def)
  then obtain d2 where d2: "schedule_tx R E2 d1 = Inr ((), d2)" "good_step d1 d2" by (rule schedule_tx_good)
  have "res = Inr ()" "d' = d2" using assms(2) by (simp_all add: Schedule_def d1 run_tx_def d2(1))
  with g1 d2(2) show "good_step d d'" "res = Inr ()" by (auto intro: good_step_trans)
qed

lemma policy_tables:
  assumes "queue_inv d" and "messages d' = messages d" "recipients d' = recipients d" "attempts d' = attempts d" "attempt_recipients d' = attempt_recipients d" "events d' = events d"
  shows "good_step d d'"
proof -
  have "queue_inv d'" using assms(1)
    unfolding queue_inv_def inv_keys_def inv_lease_def inv_one_def inv_rcpt_def sending_ok_def inv_gate_def inv_sure_def superseded_def settled_def acknowledged_def
      assms(2-6) .
  then show ?thesis by (simp add: good_step_def keeps_keys_def unlocked_def keeps_events_def facts.rows_refl assms(2-6))
qed

lemma Add_tables: "Add E v d = Inr (i, d') \<Longrightarrow> messages d' = messages d \<and> recipients d' = recipients d \<and> attempts d' = attempts d
    \<and> attempt_recipients d' = attempt_recipients d \<and> events d' = events d"
  by (auto simp: Add_def Let_def bind_res_Inr_iff append_audit_def)

lemma Release_tables: "Release E i actor reason d = Inr (u, d') \<Longrightarrow> messages d' = messages d \<and> recipients d' = recipients d \<and> attempts d' = attempts d
    \<and> attempt_recipients d' = attempt_recipients d \<and> events d' = events d"
  by (auto simp: Release_def Let_def bind_res_Inr_iff append_audit_def)

lemma commit_good:
  assumes "queue_inv d" and "\<And>x d'. b d = Inr (x, d') \<Longrightarrow> good_step d d'"
  shows "good_step d (commit_tx b d)"
  by (rule commit_tx_invariant) (use assms good_step_refl in \<open>auto\<close>)

text \<open>
  What a step can be, whatever its kind: a step that keeps the settled facts, one of those followed by a claim, an arrival followed by one, or
  the resolution of an uncertain delivery by an operator.
\<close>

inductive shape :: "repo \<Rightarrow> db \<times> job list \<Rightarrow> db \<times> job list \<Rightarrow> bool" for R :: repo where
  good: "good_step d d' \<Longrightarrow> shape R (d, js) (d', js)"
| taken: "good_step d d2 \<Longrightarrow> claim_tx R E d2 = Inr (j, d') \<Longrightarrow> shape R (d, js) (d', j # js)"
| new: "fresh_message m rs d \<Longrightarrow> good_step (add_message m rs d) d' \<Longrightarrow> shape R (d, js) (d', js)"
| resolved: "ResolveUnknown E v d = Inr (i, d') \<Longrightarrow> shape R (d, js) (d', js)"

inductive_cases shapeE: "shape R (d, js) (d', js')"

lemma qstep_shape:
  assumes "qstep R s s'" and "sys_inv s"
  shows "shape R s s'"
proof -
  have inv: "queue_inv (fst s)" using assms(2) by (simp add: sys_inv_def)
  show ?thesis using assms(1)
  proof cases
    case (arrive m rs d js)
    have "good_step (add_message m rs d) (add_message m rs d)" using add_message_inv(1) [of d m rs] arrive inv by (intro good_step_refl) simp
    with arrive show ?thesis by (auto intro: shape.new)
  next
    case (claimed E1 E2 E3 d j d' js)
    then obtain d2 where "good_step d d2" "claim_tx R E3 d2 = Inr (j, d')" using Claim_tables [of d R E1 E2 E3 "Inr j" d'] inv by auto
    then show ?thesis using claimed by (auto intro: shape.taken)
  next
    case (idle E1 E2 E3 d e d' js)
    then have "good_step d d'" using Claim_tables [of d R E1 E2 E3 "Inl e" d'] inv by auto
    then show ?thesis using idle by (simp add: shape.good)
  next
    case (arm j js d E)
    then have "good_step d (commit_tx (ArmData E j) d)" using inv ArmData_good by (intro commit_good) auto
    then show ?thesis using arm by (simp add: shape.good)
  next
    case (note_event j js d E e)
    then have "good_step d (commit_tx (Record E j e) d)" using inv Record_good by (intro commit_good) auto
    then show ?thesis using note_event by (simp add: shape.good)
  next
    case (finish j js out d E)
    then have "good_step d (commit_tx (Finish R E j out) d)" using assms(2) Finish_good by (intro commit_good) (auto simp: sys_inv_def)
    then show ?thesis using finish by (simp add: shape.good)
  next
    case (recover d js E)
    then have "good_step d (commit_tx (Recover E) d)" using inv Recover_good by (intro commit_good) auto
    then show ?thesis using recover by (simp add: shape.good)
  next
    case (schedule E1 E2 d res d' js)
    then have "good_step d d'" using inv Schedule_good(1) by auto
    then show ?thesis using schedule by (simp add: shape.good)
  next
    case (resolve d js E v)
    then show ?thesis
    proof (cases "ResolveUnknown E v d")
      case (Inl e)
      then show ?thesis using resolve inv good_step_refl by (simp add: shape.good)
    next
      case (Inr x)
      then have "commit_tx (ResolveUnknown E v) d = snd x" "ResolveUnknown E v d = Inr (fst x, snd x)" by (simp_all add: commit_tx_def split_beta)
      then show ?thesis using resolve by (metis shape.resolved)
    qed
  next
    case (suppress d js E v)
    then have "good_step d (commit_tx (Add E v) d)" using inv Add_tables by (intro commit_good) (auto intro!: policy_tables)
    then show ?thesis using suppress by (simp add: shape.good)
  next
    case (release d js E sid actor reason)
    then have "good_step d (commit_tx (Release E sid actor reason) d)" using inv Release_tables by (intro commit_good) (auto intro!: policy_tables)
    then show ?thesis using release by (simp add: shape.good)
  next
    case (accept E ids s source apiKeyID keyHash st st' js)
    then have "queue_inv (core st)" using inv by simp
    from enqueueTx_arrival [OF this accept(3)] accept(1,2) show ?thesis by (metis shape.new)
  next
    case (cancel d js E identity mid replacement)
    then have "good_step d (commit_tx (cancelPendingTx E identity mid replacement) d)" using inv cancelPendingTx_good by (intro commit_good) auto
    then show ?thesis using cancel by (simp add: shape.good)
  qed
qed

lemma shape_inv:
  assumes "shape R s s'" and "sys_inv s"
  shows "sys_inv s'"
  using assms(1)
proof cases
  case (good d d' js)
  then show ?thesis using sys_inv_good assms(2) by simp
next
  case (taken d d2 E j d' js)
  then have "sys_inv (d2, js)" using sys_inv_good assms(2) by simp
  then have d2: "queue_inv d2" "\<forall>x \<in> set js. job_of d2 x" by (simp_all add: sys_inv_def)
  with claim_tx_inv [OF d2(1) taken(4)] taken show ?thesis by (simp add: sys_inv_def)
next
  case (new m rs d d' js)
  then have "sys_inv (add_message m rs d, js)" using assms(2) add_message_inv [of d m rs] by (simp add: sys_inv_def)
  then show ?thesis using sys_inv_good new by simp
next
  case (resolved E v d i d' js)
  then have inv: "queue_inv d" "\<forall>x \<in> set js. job_of d x" using assms(2) by (simp_all add: sys_inv_def)
  note res = ResolveUnknown_inv [OF inv(1) resolved(3)]
  show ?thesis using res(1) inv(2) job_of_keys [OF res(2)] resolved by (simp add: sys_inv_def)
qed

lemma qstep_inv: "qstep R s s' \<Longrightarrow> sys_inv s \<Longrightarrow> sys_inv s'"
  using qstep_shape shape_inv by blast

lemma empty_inv:
  assumes "messages d = []" "recipients d = []" "attempts d = []" "attempt_recipients d = []"
  shows "queue_inv d"
  by (simp add: queue_inv_def inv_keys_def inv_lease_def inv_one_def inv_rcpt_def inv_gate_def inv_sure_def assms)

lemma reachable_sys_inv: "reachable R s \<Longrightarrow> sys_inv s"
proof (induction rule: reachable.induct)
  case (start d)
  then show ?case using empty_inv by (simp add: sys_inv_def)
next
  case (step s s')
  then show ?case using qstep_inv by blast
qed

end
