(* ===== verification/Queue_Sample.thy ===== *)
theory Queue_Sample
  imports Queue_System
begin

text \<open>
  A small queue to evaluate the operations on: two owners with one message each, one provider, and the first claim.
\<close>

definition sample_provider :: provider_row where
  "sample_provider = \<lparr>pv_id = ''p'', pv_name = ''P'', pv_enabled = True, pv_host = ''h'', pv_port = 587, pv_security = ''starttls'', pv_username = ''u'',
     pv_ciphertext = [], pv_nonce = [], pv_priority = 1, pv_hourly_limit = Some 10, pv_daily_limit = None, pv_max_connections = 2,
     pv_timeout_seconds = 30, pv_from_domains = [''b''], pv_health_check_enabled = False, pv_quota_group_id = None, pv_revision = 1\<rparr>"

definition sample_message :: "string \<Rightarrow> string \<Rightarrow> message" where
  "sample_message mid account = \<lparr>m_id = mid, m_source_type = ''smtp'', m_smtp_account_id = Some account, m_api_key_id = None,
     m_environment = ''production'', m_envelope_from = ''a@b'', m_header_from = Some ''a@b'', m_created_at = 1, m_completed_at = None,
     m_status = QUEUED, m_eml_path = [], m_eml_size = 0, m_eml_sha256 = [], m_archive_state = ''AVAILABLE'', m_last_error = None,
     m_next_attempt_at = Some 1, m_attempt_count = 0, m_locked_at = None, m_locked_by = None, m_lease_expires_at = None,
     m_route_provider_id = None, m_message_stream = ''normal'', m_expires_at = None, m_schedule_at = None, m_cancelled_at = None\<rparr>"

definition sample_rcpt :: "string \<Rightarrow> string \<Rightarrow> rcpt" where
  "sample_rcpt rid mid = \<lparr>r_id = rid, r_message_id = mid, r_address = ''c@d'', r_status = QUEUED, r_provider_id = None, r_smtp_code = None,
     r_smtp_response = None, r_completed_at = None, r_attempt_count = 0, r_retry_started_at = None, r_retry_at = None,
     r_retry_automatic = False, r_decision = None\<rparr>"

definition sample_start :: db where
  "sample_start = (empty_db (\<lambda>s. s))\<lparr>providers := [sample_provider],
     fair_owners := [\<lparr>ow_key = ''smtp:A'', ow_last_ticket = 0, ow_cursor = 0\<rparr>, \<lparr>ow_key = ''smtp:B'', ow_last_ticket = 1, ow_cursor = 0\<rparr>], next_ticket := 2\<rparr>"

definition sample_db :: db where
  "sample_db = add_message (sample_message ''m2'' ''B'') [sample_rcpt ''r2'' ''m2''] (add_message (sample_message ''m1'' ''A'') [sample_rcpt ''r1'' ''m1''] sample_start)"

definition sample_repo :: repo where
  "sample_repo = \<lparr>RetryEnabled = True, FailoverEnabled = False, HealthEnabled = False\<rparr>"

lemma sample_reachable: "reachable sample_repo (sample_db, [])"
proof -
  have "reachable sample_repo (sample_start, [])" by (rule reachable.start) (simp_all add: sample_start_def empty_db_def)
  moreover have "qstep sample_repo (sample_start, []) (add_message (sample_message ''m1'' ''A'') [sample_rcpt ''r1'' ''m1''] sample_start, [])"
    by (rule qstep.arrive) (simp add: fresh_message_def sample_start_def empty_db_def sample_message_def sample_rcpt_def)
  moreover have "qstep sample_repo (add_message (sample_message ''m1'' ''A'') [sample_rcpt ''r1'' ''m1''] sample_start, []) (sample_db, [])"
    unfolding sample_db_def
    by (rule qstep.arrive) (simp add: fresh_message_def sample_start_def empty_db_def sample_message_def sample_rcpt_def add_message_def)
  ultimately show ?thesis by (blast intro: reachable.step)
qed

text \<open>The tables of the sample, and what the claim reads from them.\<close>

lemma sample_tables [simp]:
  "messages sample_db = [sample_message ''m1'' ''A'', sample_message ''m2'' ''B'']" "recipients sample_db = [sample_rcpt ''r1'' ''m1'', sample_rcpt ''r2'' ''m2'']"
  "attempts sample_db = []" "attempt_recipients sample_db = []" "providers sample_db = [sample_provider]" "provider_quota sample_db = []"
  "quota_groups sample_db = []" "suppressions sample_db = []" "message_streams sample_db = []" "provider_health sample_db = []" "events sample_db = []"
  "fair_owners sample_db = [\<lparr>ow_key = ''smtp:A'', ow_last_ticket = 0, ow_cursor = 0\<rparr>, \<lparr>ow_key = ''smtp:B'', ow_last_ticket = 1, ow_cursor = 0\<rparr>]"
  "next_ticket sample_db = 2" "pg_lower sample_db = (\<lambda>s. s)"
  by (simp_all add: sample_db_def add_message_def sample_start_def empty_db_def)

lemma sample_env_simps [simp]:
  "now sample_env = 10" "clk sample_env n = 10 + int n" "locked_messages sample_env x = False" "locked_providers sample_env x = False"
  "locked_owners sample_env x = False" "fresh_token sample_env = ''t1''" "fresh_id sample_env = ''s1''" "host sample_env = 10"
  by (simp_all add: sample_env_def)

lemma sample_sweeps: "SweepExpired sample_env sample_db = Inr ((), sample_db)" "SweepSuppressed sample_env sample_db = Inr ((), sample_db)"
  by (simp_all add: SweepExpired_def SweepSuppressed_def order_limit_def sample_message_def sample_rcpt_def suppressed_address_def)

lemma sample_provider_fits:
  assumes "m = sample_message ''m1'' ''A'' \<or> m = sample_message ''m2'' ''B''"
  shows "eligibleProvider sample_repo t sample_db m sample_provider"
proof -
  have dom: "domain_part ''a@b'' = ''b''" by (simp add: domain_part_def)
  show ?thesis using assms
    by (auto simp: eligibleProvider_def providerRequirements_def controlRequirements_def quotaAvailable_def sharedQuotaAvailable_def reserved_units_def
        live_attempts_def sample_message_def dom sample_repo_def) (simp_all add: sample_provider_def reserved_units_def)
qed

lemma sample_eligible:
  assumes "m = sample_message ''m1'' ''A'' \<or> m = sample_message ''m2'' ''B''"
  shows "eligible sample_repo sample_env t sample_db m"
  using assms sample_provider_fits [OF assms]
  by (auto simp: eligible_def claimRecipient_def suppressed_address_def sample_rcpt_def) (simp_all add: sample_message_def)

lemma sample_owner:
  "select_owner sample_repo sample_env sample_db = [\<lparr>ow_key = ''smtp:A'', ow_last_ticket = 0, ow_cursor = 0\<rparr>]"
  using sample_eligible by (simp add: select_owner_def order_limit_def) (simp add: sample_message_def queue_owner_def)

definition sample_job :: job where
  "sample_job = \<lparr>j_Stream = ''normal'', j_ID = ''m1'', j_Token = ''t1'', j_AttemptID = ''s1'', j_From = ''a@b'', j_Path = [], j_SHA256 = [], j_Size = 0,
     j_Provider = job_provider sample_provider, j_Recipients = [\<lparr>rc_ID = ''r1'', rc_Address = ''c@d''\<rparr>]\<rparr>"

lemma sample_fair: "selectFair sample_repo sample_env sample_db = Inr (''smtp:A'', 1, sample_message ''m1'' ''A'')"
proof -
  have w: "weights sample_db ''smtp:A'' = [(''normal'', 1), (''otp'', 1), (''receipt'', 1), (''security'', 1)]"
    by (simp add: weights_def lane_names_def lane_weight_def)
  have t: "turns sample_db ''smtp:A'' 0 = [(''normal'', 0), (''otp'', 1), (''receipt'', 2), (''security'', 3)]"
    by (simp add: turns_def w lane_total_def lane_distance_def)
  have "select_message sample_repo sample_env sample_db ''smtp:A'' 0 = [sample_message ''m1'' ''A'']"
    using sample_eligible by (simp add: select_message_def t order_limit_def) (simp add: sample_message_def queue_owner_def)
  moreover have "m_message_stream (sample_message ''m1'' ''A'') = ''normal''" by (simp add: sample_message_def)
  ultimately show ?thesis by (simp add: selectFair_def sample_owner t w lane_total_def)
qed

lemma sample_provider_chosen: "select_provider sample_repo sample_env sample_db (sample_message ''m1'' ''A'') = [sample_provider]"
  using sample_provider_fits by (simp add: select_provider_def order_limit_def)

lemma sample_claim_message:
  "\<exists>d'. claim_message sample_repo sample_env (sample_message ''m1'' ''A'') sample_provider sample_db = Inr (sample_job, d')"
proof -
  have adm: "admission sample_repo sample_env ''p'' sample_db = Inr 10"
    by (simp add: admission_def controlRequirements_def quotaAvailable_def sharedQuotaAvailable_def reserved_units_def sample_repo_def)
      (simp add: sample_provider_def reserved_units_def)
  have live: "live_attempts t sample_db i = 0" for t i by (simp add: live_attempts_def)
  have pv: "pv_id sample_provider = ''p''" "pv_max_connections sample_provider = 2" by (simp_all add: sample_provider_def)
  have m: "m_id (sample_message ''m1'' ''A'') = ''m1''" "m_schedule_at (sample_message x y) = None" "m_expires_at (sample_message x y) = None"
    "m_route_provider_id (sample_message x y) = None" "m_attempt_count (sample_message x y) = 0" "m_message_stream (sample_message x y) = ''normal''"
    "m_envelope_from (sample_message x y) = ''a@b''" "m_eml_path (sample_message x y) = []" "m_eml_sha256 (sample_message x y) = []"
    "m_eml_size (sample_message x y) = 0" for x y by (simp_all add: sample_message_def)
  have r: "r_id (sample_rcpt x y) = x" "r_message_id (sample_rcpt x y) = y" "r_address (sample_rcpt x y) = ''c@d''" for x y by (simp_all add: sample_rcpt_def)
  have ids: "claim_ids sample_repo sample_env ''m1'' (min 10 FairRecipientQuantum) d = [''r1'']"
    if "recipients d = recipients sample_db" "suppressions d = []" for d
    using that by (simp add: claim_ids_def order_limit_def r FairRecipientQuantum_def claimRecipient_def suppressed_address_def) (simp add: sample_rcpt_def)
  have h: "HealthEnabled sample_repo = False" by (simp add: sample_repo_def)
  show ?thesis
    by (simp add: claim_message_def live pv adm m Let_def ids r insert_attempt_def insert_attempt_rcpt_def reserveControls_def insert_quota_def
        recordFailover_def h sample_job_def query_row_def job_provider_def)
qed

definition sample_claimed :: db where
  "sample_claimed = snd (Claim sample_repo sample_env sample_env sample_env sample_db)"

lemma sample_claim_tx:
  obtains d0 where "claim_message sample_repo sample_env (sample_message ''m1'' ''A'') sample_provider sample_db = Inr (sample_job, d0)"
    and "claim_tx sample_repo sample_env sample_db = Inr (sample_job, take_ticket ''smtp:A'' 1 d0)"
  using sample_claim_message that by (auto simp: claim_tx_def sample_fair sample_provider_chosen)

lemma sample_claim:
  "claim_tx sample_repo sample_env sample_db = Inr (sample_job, sample_claimed)"
  "Claim sample_repo sample_env sample_env sample_env sample_db = (Inr sample_job, sample_claimed)"
proof -
  obtain d0 where "claim_tx sample_repo sample_env sample_db = Inr (sample_job, take_ticket ''smtp:A'' 1 d0)" by (rule sample_claim_tx)
  then show "claim_tx sample_repo sample_env sample_db = Inr (sample_job, sample_claimed)"
    "Claim sample_repo sample_env sample_env sample_env sample_db = (Inr sample_job, sample_claimed)"
    by (simp_all add: sample_claimed_def Claim_def sample_sweeps run_tx_def)
qed

lemma sample_claimed_reachable: "reachable sample_repo (sample_claimed, [sample_job])"
  by (rule reachable.step [OF sample_reachable qstep.claimed [OF sample_claim(2)]])

lemma sample_claimed_tables:
  "attempts sample_claimed = [new_attempt sample_env sample_job 1]"
  "attempt_recipients sample_claimed = [new_attempt_rcpt sample_job \<lparr>rc_ID = ''r1'', rc_Address = ''c@d''\<rparr>]"
  "messages sample_claimed = [lease_message sample_env ''t1'' sample_provider (sample_message ''m1'' ''A''), sample_message ''m2'' ''B'']"
  "recipients sample_claimed = [send_recipient sample_env ''p'' (sample_rcpt ''r1'' ''m1''), sample_rcpt ''r2'' ''m2'']"
  "fair_owners sample_claimed = [\<lparr>ow_key = ''smtp:A'', ow_last_ticket = 2, ow_cursor = 1\<rparr>, \<lparr>ow_key = ''smtp:B'', ow_last_ticket = 1, ow_cursor = 0\<rparr>]"
  "next_ticket sample_claimed = 3" "suppressions sample_claimed = []" "providers sample_claimed = [sample_provider]"
proof -
  obtain d0 where d0: "claim_message sample_repo sample_env (sample_message ''m1'' ''A'') sample_provider sample_db = Inr (sample_job, d0)"
    "claim_tx sample_repo sample_env sample_db = Inr (sample_job, take_ticket ''smtp:A'' 1 d0)" by (rule sample_claim_tx)
  then have e: "sample_claimed = take_ticket ''smtp:A'' 1 d0" using sample_claim(1) by simp
  obtain ids where c: "claim_done sample_env (sample_message ''m1'' ''A'') sample_provider ids sample_db sample_job d0"
    and t: "fair_owners d0 = fair_owners sample_db" "next_ticket d0 = next_ticket sample_db" using claim_message_Inr [OF d0(1)] by metis
  note c' = claim_doneD [OF c]
  have r: "r_id (sample_rcpt x y) = x" for x y by (simp add: sample_rcpt_def)
  have m: "m_id (sample_message x y) = x" "m_attempt_count (sample_message x y) = 0" for x y by (simp_all add: sample_message_def)
  have j: "j_Recipients sample_job = [\<lparr>rc_ID = ''r1'', rc_Address = ''c@d''\<rparr>]" by (simp add: sample_job_def)
  have "''r1'' \<in> set ids" "''r2'' \<notin> set ids" using c'(13) by (auto simp: j r split: if_split_asm)
  then show "attempts sample_claimed = [new_attempt sample_env sample_job 1]"
    "attempt_recipients sample_claimed = [new_attempt_rcpt sample_job \<lparr>rc_ID = ''r1'', rc_Address = ''c@d''\<rparr>]"
    "messages sample_claimed = [lease_message sample_env ''t1'' sample_provider (sample_message ''m1'' ''A''), sample_message ''m2'' ''B'']"
    "recipients sample_claimed = [send_recipient sample_env ''p'' (sample_rcpt ''r1'' ''m1''), sample_rcpt ''r2'' ''m2'']"
    by (simp_all add: e c'(6,7,8,9) j r m) (simp add: sample_provider_def)
  show "fair_owners sample_claimed = [\<lparr>ow_key = ''smtp:A'', ow_last_ticket = 2, ow_cursor = 1\<rparr>, \<lparr>ow_key = ''smtp:B'', ow_last_ticket = 1, ow_cursor = 0\<rparr>]"
    "next_ticket sample_claimed = 3" by (simp_all add: e take_ticket_def t)
  show "suppressions sample_claimed = []" "providers sample_claimed = [sample_provider]" using c by (simp_all add: e claim_done_def)
qed

end
