(* ===== verification/Queue_Properties.thy ===== *)
theory Queue_Properties
  imports Queue_Sample
begin

text \<open>
  What the queue promises: the invariant of every reachable state, the evidence behind every recipient that is sent, the
  exclusiveness of leases, the recipients' life as an abstract ledger, the claim's limits and its fairness.
\<close>

subsection \<open>Reachable states\<close>

lemma reachable_inv: "reachable R (d, js) \<Longrightarrow> queue_inv d"
  using reachable_sys_inv [of R "(d, js)"] by (simp add: sys_inv_def)

text \<open>
  C15: In every state the queue can reach, whatever the order of the transactions and the clocks, the tables satisfy the invariant: keys and
  references, one attempt in progress for each locked message and none for the others, the recipients of that attempt being sent, at
  most one outcome of the gate before DATA, and settled evidence behind every recipient that may be sent again. Every job a
  worker holds names its attempt and exactly that attempt's recipients.
\<close>

theorem queue_invariant_reachable:
  assumes "reachable R (d, js)"
  shows "queue_inv d
     \<and> list_all (job_of d) js"
  using reachable_sys_inv [OF assms] by (auto simp: sys_inv_def list_all_iff)

theorem queue_invariant_reachable_witness:
  "queue_inv sample_claimed \<and> list_all (job_of sample_claimed) [sample_job]"
  using queue_invariant_reachable [OF sample_claimed_reachable] by blast

text \<open>
  C16: A claim never sends a message again to a recipient that may already have it. For each recipient of the job, every
  row of this or an earlier attempt is settled: an accepted or uncertain outcome among them has been resolved by an operator who asked for a
  retry and acknowledged the risk of a duplicate.
\<close>

theorem claim_only_settled_recipients:
  assumes "reachable R (d, js)" and "Claim R E1 E2 E3 d = (Inr j, d')"
    and "ar \<in> set (attempt_recipients d')" and "ar_recipient_id ar \<in> rc_ID ` set (j_Recipients j)"
  shows "settled d' ar"
proof -
  have inv: "queue_inv d" by (rule reachable_inv [OF assms(1)])
  obtain d2 where d2: "good_step d d2" "claim_tx R E3 d2 = Inr (j, d')" using Claim_tables [OF inv assms(2)] by auto
  then have inv2: "queue_inv d2" by (simp add: good_step_def)
  obtain m p ids where c: "claim_done E3 m p ids d2 j d'" "claim_choice m ids d2" using claim_tx_Inr [OF d2(2) queue_invD(1) [OF inv2]] by metis
  note c' = claim_doneD [OF c(1)]
  from assms(3) consider rc where "ar = new_attempt_rcpt j rc" | "ar \<in> set (attempt_recipients d2)" by (auto simp: c'(9))
  then show ?thesis
  proof cases
    case 1
    then show ?thesis by (simp add: settled_def)
  next
    case 2
    obtain r where r: "r \<in> set (recipients d2)" "r_id r = ar_recipient_id ar" "r_id r \<in> set ids" using assms(4) unfolding c'(5) by auto
    then have "claimable r" using c(2) by (auto simp: claim_choice_def claimable_def)
    then have "settled d2 ar" using queue_invD(6) [OF inv2] 2 r unfolding inv_sure_def by blast
    then show ?thesis by (rule keeps_settled [OF c'(10)])
  qed
qed

theorem claim_only_settled_recipients_witness:
  "settled sample_claimed (new_attempt_rcpt sample_job \<lparr>rc_ID = ''r1'', rc_Address = ''c@d''\<rparr>)"
  by (rule claim_only_settled_recipients [OF sample_reachable sample_claim(2)]) (simp_all add: sample_claimed_tables sample_job_def)

subsection \<open>Leases\<close>

lemma Finish_open:
  assumes "Finish R E j out d = Inr x"
  shows "\<exists>a \<in> set (attempts d). open_attempt j a"
proof -
  from assms obtain a where "query_row (open_attempt j) (attempts d) = Inr a"
    unfolding Finish_def bind_res_Inr_iff by blast
  from query_row_Inr [OF this] show ?thesis by blast
qed

lemma ArmData_open: "ArmData E j d = Inr x \<Longrightarrow> \<exists>a \<in> set (attempts d). open_attempt j a"
  using ArmData_Inr [of E j d "fst x" "snd x"] by (metis prod.collapse)

text \<open>
  C17: A lease is exclusive. In a reachable state two jobs for the same message cannot both pass the fence of ArmData or Finish unless they are the
  same attempt with the same token, so a worker whose lease was recovered and claimed again can neither send DATA nor record a result.
\<close>

theorem lease_exclusive:
  assumes "reachable R (d, js)"
    and "(\<exists>x. ArmData E1 j1 d = Inr x) \<or> (\<exists>x. Finish R E1 j1 out1 d = Inr x)"
    and "(\<exists>x. ArmData E2 j2 d = Inr x) \<or> (\<exists>x. Finish R E2 j2 out2 d = Inr x)"
    and "j_ID j1 = j_ID j2"
  shows "j_AttemptID j1 = j_AttemptID j2 \<and> j_Token j1 = j_Token j2"
proof -
  have inv: "queue_inv d" by (rule reachable_inv [OF assms(1)])
  obtain a1 a2 where a: "a1 \<in> set (attempts d)" "open_attempt j1 a1" "a2 \<in> set (attempts d)" "open_attempt j2 a2"
    using assms(2,3) Finish_open ArmData_open by metis
  then have "a1 = a2" using active_unique [OF inv, of a1 a2] assms(4) by (simp add: open_attempt_def)
  with a show ?thesis by (simp add: open_attempt_def)
qed

lemma sample_arm:
  obtains d' where "ArmData sample_env sample_job sample_claimed = Inr (None, d')"
proof -
  have m: "m_id (lease_message E t p x) = m_id x" "m_environment (lease_message E t p x) = m_environment x" "m_expires_at (lease_message E t p x) = m_expires_at x"
    "m_schedule_at (lease_message E t p x) = m_schedule_at x" "m_lease_expires_at (lease_message E t p x) = Some (now E + (pv_timeout_seconds p + 30) * Second)"
    for E t p x by (simp_all add: lease_message_def)
  have x: "m_id (sample_message i k) = i" "m_environment (sample_message i k) = ''production''" "m_expires_at (sample_message i k) = None"
    "m_schedule_at (sample_message i k) = None" "m_locked_by (sample_message i k) = None" for i k by (simp_all add: sample_message_def)
  have j: "j_ID sample_job = ''m1''" "j_Token sample_job = ''t1''" "j_AttemptID sample_job = ''s1''" by (simp_all add: sample_job_def)
  have l: "fence (Some (clk sample_env 0)) sample_job sample_claimed = Inr ()"
    by (simp add: fence_def sample_claimed_tables m x j sample_provider_def Second_def)
  have ap: "Apply sample_env ''m1'' ''s1'' True sample_claimed = (0, sample_claimed)"
    by (simp add: Apply_def apply_hits_def sample_claimed_tables)
  have "\<exists>d'. ArmData sample_env sample_job sample_claimed = Inr (None, d')"
    unfolding ArmData_def l by (simp add: ap j query_row_def sample_claimed_tables open_attempt_def arm_permission_def Let_def m x
        arm_triggers_def arm_attempt_def)
  with that show thesis by blast
qed

theorem lease_exclusive_witness:
  "\<not> (\<exists>x. ArmData sample_env (sample_job\<lparr>j_AttemptID := ''s0'', j_Token := ''t0''\<rparr>) sample_claimed = Inr x)"
proof
  assume stale: "\<exists>x. ArmData sample_env (sample_job\<lparr>j_AttemptID := ''s0'', j_Token := ''t0''\<rparr>) sample_claimed = Inr x"
  obtain d' where "ArmData sample_env sample_job sample_claimed = Inr (None, d')" by (rule sample_arm)
  then have "\<exists>x. ArmData sample_env sample_job sample_claimed = Inr x" by blast
  with stale show False
    using lease_exclusive [OF sample_claimed_reachable, of sample_env sample_job _ sample_env "sample_job\<lparr>j_AttemptID := ''s0'', j_Token := ''t0''\<rparr>"]
    by (simp add: sample_job_def)
qed

text \<open>
  C18: Permission to transmit DATA is given at most once for an attempt, and only while the worker's lease on the message is live, the message
  is neither expired nor scheduled for later, and no recipient being sent is suppressed; it is recorded before it is returned.
\<close>

theorem data_permission:
  assumes "reachable R (d, js)" and arm: "ArmData E j d = Inr (None, d')"
  shows "(\<exists>m \<in> set (messages d). m_id m = j_ID j \<and> m_locked_by m = Some (j_Token j) \<and> null_gt (m_lease_expires_at m) (clk E 0)
      \<and> (m_expires_at m = None \<or> null_gt (m_expires_at m) (clk E 3)) \<and> (m_schedule_at m = None \<or> null_le (m_schedule_at m) (clk E 3)))
     \<and> (\<forall>r \<in> set (recipients d). r_message_id r = j_ID j \<and> r_status r = SENDING \<longrightarrow> \<not> suppressed_address (clk E 20) d (r_address r))
     \<and> (\<exists>a \<in> set (attempts d'). open_attempt j a \<and> a_data_armed_at a = Some (clk E 3))
     \<and> ArmData E' j d' \<noteq> Inr x"
proof (intro conjI)
  have inv: "queue_inv d" by (rule reachable_inv [OF assms(1)])
  note keys = queue_invD(1) [OF inv] and good = ArmData_good [OF inv arm]
  obtain a where a: "a \<in> set (attempts d)" "open_attempt j a" "a_data_armed_at a = None" "a_expiry_blocked_at a = None"
    and f: "fence (Some (clk E 0)) j d = Inr ()" and hits: "apply_hits (clk E 20) (j_ID j) True d = []"
    and perm: "arm_permission E j (snd (Apply E (j_ID j) (j_AttemptID j) True d)) = Inr (None, d')"
    by (rule ArmData_Inr [OF arm]) auto
  obtain m b where m: "m \<in> set (messages d)" "m_id m = j_ID j"
    and att: "attempts d' = update_where (\<lambda>a. a_id a = j_AttemptID j \<and> a_claim_token a = j_Token j \<and> a_result a = IN_PROGRESS
           \<and> a_data_armed_at a = None \<and> a_expiry_blocked_at a = None) (arm_attempt (clk E 3) m) (attempts d)"
    and t: "null_le (m_expires_at m) (clk E 3) \<or> arm_triggers (clk E 3) (clk E 4) m"
    and b: "b \<in> set (attempts d')" "a_id b = j_AttemptID j" "a_expiry_blocked_at b = None"
    by (rule arm_permission_Inr [OF perm]) (auto split: if_split_asm)
  let ?a = "arm_attempt (clk E 3) m a"
  have a': "?a \<in> set (attempts d')" unfolding att set_update_where by (rule image_eqI [of _ _ a]) (use a in \<open>simp_all add: open_attempt_def\<close>)
  have "inv_keys d'" using good by (simp add: good_step_def queue_inv_def)
  note uniq = inv_keysD(3) [OF this]
  have "b = ?a" by (rule uniq [OF b(1) a']) (use b(2) a(2) in \<open>simp add: arm_attempt_def open_attempt_def\<close>)
  then have live: "\<not> null_le (m_expires_at m) (clk E 3)" using b(3) by (auto simp: arm_attempt_def split: if_split_asm)
  with t have trig: "arm_triggers (clk E 3) (clk E 4) m" by blast
  then have armed: "a_data_armed_at ?a = Some (clk E 3)" by (auto simp: arm_attempt_def arm_triggers_def)
  obtain m0 where m0: "m0 \<in> set (messages d)" "m_id m0 = j_ID j" "m_locked_by m0 = Some (j_Token j)" "null_gt (m_lease_expires_at m0) (clk E 0)"
    using f by (auto simp: fence_def)
  have "m0 = m" using inv_keysD(1) [OF keys m0(1) m(1)] m0(2) m(2) by simp
  with m0 trig show "\<exists>m \<in> set (messages d). m_id m = j_ID j \<and> m_locked_by m = Some (j_Token j) \<and> null_gt (m_lease_expires_at m) (clk E 0)
      \<and> (m_expires_at m = None \<or> null_gt (m_expires_at m) (clk E 3)) \<and> (m_schedule_at m = None \<or> null_le (m_schedule_at m) (clk E 3))"
    by (intro bexI [of _ m]) (auto simp: arm_triggers_def)
  show "\<forall>r \<in> set (recipients d). r_message_id r = j_ID j \<and> r_status r = SENDING \<longrightarrow> \<not> suppressed_address (clk E 20) d (r_address r)"
    using hits unfolding apply_hits_empty_iff by (simp add: apply_states_def)
  show "\<exists>a \<in> set (attempts d'). open_attempt j a \<and> a_data_armed_at a = Some (clk E 3)"
    using a' armed a(2) by (intro bexI [of _ ?a]) (simp_all add: arm_attempt_def open_attempt_def)
  show "ArmData E' j d' \<noteq> Inr x"
  proof
    assume again: "ArmData E' j d' = Inr x"
    obtain c where c: "c \<in> set (attempts d')" "open_attempt j c" "a_data_armed_at c = None"
      using ArmData_Inr [of E' j d' "fst x" "snd x"] again by (metis prod.collapse)
    have "c = ?a" by (rule uniq [OF c(1) a']) (use c(2) a(2) in \<open>simp add: arm_attempt_def open_attempt_def\<close>)
    with c(3) armed show False by simp
  qed
qed

theorem data_permission_witness:
  "\<exists>d'. ArmData sample_env sample_job sample_claimed = Inr (None, d') \<and> (\<exists>a \<in> set (attempts d'). a_data_armed_at a = Some 13)
     \<and> ArmData sample_env sample_job d' \<noteq> Inr (None, d')"
proof -
  obtain d' where d': "ArmData sample_env sample_job sample_claimed = Inr (None, d')" by (rule sample_arm)
  show ?thesis using d' data_permission [OF sample_claimed_reachable d', where E' = sample_env and x = "(None, d')"] by (intro exI [of _ d']) auto
qed

end
