(* ===== verification/Queue_Ledger.thy ===== *)
theory Queue_Ledger
  imports Queue_Properties
begin

text \<open>
  The queue implements a ledger: for each recipient whether it is still open, uncertain, or closed for good with a status. The abstract
  steps say what may happen to a ledger; the transactions of the queue are shown to be such steps.
\<close>

subsection \<open>The abstract specification\<close>

datatype phase = Open | Uncertain | Closed status

type_synonym ledger = "string \<rightharpoonup> phase"

text \<open>
  Open entries may move anywhere; entries may be added; an uncertain entry is settled only by an explicit resolution, which reopens it or closes
  it as delivered or failed.
\<close>

inductive lstep :: "ledger \<Rightarrow> ledger \<Rightarrow> bool" where
  progress: "dom l' = dom l \<Longrightarrow> (\<And>i p. l i = Some p \<Longrightarrow> p \<noteq> Open \<Longrightarrow> l' i = Some p) \<Longrightarrow> lstep l l'"
| arrival: "l \<subseteq>\<^sub>m l' \<Longrightarrow> lstep l l'"
| resolution: "l i = Some Uncertain \<Longrightarrow> p \<in> {Open, Closed DELIVERED, Closed PERM_FAILED} \<Longrightarrow> lstep l (l(i \<mapsto> p))"

lemma lstep_closed: "lstep l l' \<Longrightarrow> l i = Some (Closed st) \<Longrightarrow> l' i = Some (Closed st)"
  by (induction rule: lstep.induct) (auto simp: map_le_def dom_def)

lemma lsteps_closed: "lstep\<^sup>*\<^sup>* l l' \<Longrightarrow> l i = Some (Closed st) \<Longrightarrow> l' i = Some (Closed st)"
  by (induction rule: rtranclp_induct) (auto intro: lstep_closed)

lemma lstep_dom: "lstep l l' \<Longrightarrow> dom l \<subseteq> dom l'"
  by (induction rule: lstep.induct) (auto dest: map_le_implies_dom_le)

lemma lsteps_dom: "lstep\<^sup>*\<^sup>* l l' \<Longrightarrow> dom l \<subseteq> dom l'"
  by (induction rule: rtranclp_induct) (use lstep_dom in blast)+

subsection \<open>Simulation\<close>

locale simulation =
  fixes cstep :: "'c \<Rightarrow> 'c \<Rightarrow> bool" and astep :: "'a \<Rightarrow> 'a \<Rightarrow> bool" and abs :: "'c \<Rightarrow> 'a" and inv :: "'c \<Rightarrow> bool"
  assumes inv_step: "inv c \<Longrightarrow> cstep c c' \<Longrightarrow> inv c'" and sim_step: "inv c \<Longrightarrow> cstep c c' \<Longrightarrow> astep (abs c) (abs c')"
begin

lemma sim_run:
  assumes "cstep\<^sup>*\<^sup>* c c'" and "inv c"
  shows "inv c' \<and> astep\<^sup>*\<^sup>* (abs c) (abs c')"
  using assms
proof (induction rule: rtranclp_induct)
  case base
  then show ?case by simp
next
  case (step y z)
  then show ?case using inv_step sim_step by (meson rtranclp.rtrancl_into_rtrancl)
qed

lemma sim_stable:
  assumes "cstep\<^sup>*\<^sup>* c c'" and "inv c" and "P (abs c)" and "\<And>a a'. astep a a' \<Longrightarrow> P a \<Longrightarrow> P a'"
  shows "P (abs c')"
proof -
  have "astep\<^sup>*\<^sup>* (abs c) (abs c')" using sim_run [OF assms(1,2)] by blast
  then show ?thesis using assms(3) by (induction rule: rtranclp_induct) (use assms(4) in blast)+
qed

end

subsection \<open>The ledger of a database\<close>

definition phase_of :: "rcpt \<Rightarrow> phase" where
  "phase_of r = (if r_status r = DELIVERY_UNKNOWN then Uncertain else if r_status r \<in> finished_statuses then Closed (r_status r) else Open)"

definition ledger_of :: "db \<times> job list \<Rightarrow> ledger" where
  "ledger_of s = map_of (map (\<lambda>r. (r_id r, phase_of r)) (recipients (fst s)))"

lemma keeps_facts_phase: "keeps_facts r r' \<Longrightarrow> phase_of r \<noteq> Open \<Longrightarrow> phase_of r' = phase_of r"
  by (auto simp: phase_of_def keeps_facts_def split: if_split_asm)

lemma keeps_facts_ids: "list_all2 keeps_facts rs rs' \<Longrightarrow> map r_id rs' = map r_id rs"
  by (induction rule: list_all2_induct) (simp_all add: keeps_facts_def r_key_def)

lemma keeps_facts_ledger:
  assumes "list_all2 keeps_facts rs rs'" and "map_of (map (\<lambda>r. (r_id r, phase_of r)) rs) i = Some p" and "p \<noteq> Open"
  shows "map_of (map (\<lambda>r. (r_id r, phase_of r)) rs') i = Some p"
  using assms(1,2)
proof (induction rule: list_all2_induct)
  case (Cons r rs r' rs')
  have "r_id r' = r_id r" using Cons(1) by (simp add: keeps_facts_def r_key_def)
  then show ?case using Cons(3,4) keeps_facts_phase [OF Cons(1)] assms(3) by (simp split: if_split_asm)
qed simp

lemma ledger_progress: "list_all2 keeps_facts (recipients d) (recipients d') \<Longrightarrow> lstep (ledger_of (d, js)) (ledger_of (d', js'))"
proof (rule lstep.progress)
  assume f: "list_all2 keeps_facts (recipients d) (recipients d')"
  have "set (map r_id (recipients d')) = set (map r_id (recipients d))" by (simp only: keeps_facts_ids [OF f])
  then show "dom (ledger_of (d', js')) = dom (ledger_of (d, js))" by (simp add: ledger_of_def dom_map_of_conv_image_fst image_image)
  show "ledger_of (d', js') i = Some p" if "ledger_of (d, js) i = Some p" "p \<noteq> Open" for i p
    using keeps_facts_ledger [OF f] that by (simp add: ledger_of_def)
qed

lemma ledger_arrival: "ledger_of (d, js) \<subseteq>\<^sub>m ledger_of (add_message m rs d, js')"
  by (simp add: ledger_of_def add_message_def)

lemma map_of_update:
  assumes keep: "\<And>x. r_id (f x) = r_id x" and "distinct (map r_id rs)" and "r \<in> set rs"
  shows "map_of (map (\<lambda>x. (r_id x, phase_of x)) (map (\<lambda>x. if r_id x = r_id r then f x else x) rs))
       = (map_of (map (\<lambda>x. (r_id x, phase_of x)) rs))(r_id r \<mapsto> phase_of (f r))"
  using assms(2,3)
proof (induction rs)
  case (Cons x rs)
  show ?case
  proof (cases "r = x")
    case True
    then have "r_id r \<notin> r_id ` set rs" using Cons.prems(1) by simp
    then have "map (\<lambda>x. if r_id x = r_id r then f x else x) rs = rs" by (intro map_idI) (metis image_eqI)
    then show ?thesis using True keep by (simp add: fun_eq_iff)
  next
    case False
    then have "r \<in> set rs" "r_id x \<noteq> r_id r" using Cons.prems by (simp, metis distinct.simps(2) image_eqI list.simps(9) list.set_map set_ConsD)
    then show ?thesis using Cons by (simp add: fun_eq_iff)
  qed
qed simp

lemma ledger_resolution:
  assumes inv: "queue_inv d" and res: "ResolveUnknown E v d = Inr (i, d')"
  shows "lstep (ledger_of (d, js)) (ledger_of (d', js))"
proof -
  obtain st r m ar a rest where s: "resolve_valid E v = Inr st" and r: "r \<in> set (recipients d)" "r_id r = rs_RecipientID v" "r_status r = DELIVERY_UNKNOWN"
    and w: "resolve_write E v st m a d = Inr (i, d')" by (rule ResolveUnknown_Inr [OF res])
  have dist: "distinct (map r_id (recipients d))" using queue_invD(1) [OF inv] by (simp add: inv_keys_def)
  have "recipients d' = map (\<lambda>x. if r_id x = r_id r then resolved_recipient E v st x else x) (recipients d)" using resolve_write_tables(1) [OF w] r(2) by simp
  then have l: "ledger_of (d', js) = (ledger_of (d, js))(r_id r \<mapsto> phase_of (resolved_recipient E v st r))"
    unfolding ledger_of_def using map_of_update [of "resolved_recipient E v st", OF _ dist r(1)] by (simp add: resolved_recipient_def)
  have "st \<in> {QUEUED, DELIVERED, PERM_FAILED}"
    using s by (auto simp: resolve_valid_def resolution_status_def bind_res_Inr_iff split: if_split_asm)
  then have "phase_of (resolved_recipient E v st r) \<in> {Open, Closed DELIVERED, Closed PERM_FAILED}"
    by (auto simp: phase_of_def resolved_recipient_def finished_statuses_def)
  moreover have "ledger_of (d, js) (r_id r) = Some Uncertain"
    using r(1,3) dist by (auto simp: ledger_of_def phase_of_def comp_def intro!: map_of_is_SomeI)
  ultimately show ?thesis unfolding l by (rule lstep.resolution [rotated])
qed

lemma shape_ledger:
  assumes "shape R s s'" and "sys_inv s"
  shows "lstep\<^sup>*\<^sup>* (ledger_of s) (ledger_of s')"
  using assms(1)
proof cases
  case (good d d' js)
  then have "lstep (ledger_of (d, js)) (ledger_of (d', js))" using ledger_progress by (simp add: good_step_def)
  then show ?thesis using good by blast
next
  case (taken d d2 E j d' js)
  then have "queue_inv d2" "list_all2 keeps_facts (recipients d) (recipients d2)" by (simp_all add: good_step_def)
  with claim_tx_inv(5) [OF _ taken(4)] have "list_all2 keeps_facts (recipients d) (recipients d')" using facts.rows_trans by blast
  then have "lstep (ledger_of (d, js)) (ledger_of (d', j # js))" by (rule ledger_progress)
  then show ?thesis using taken by blast
next
  case (new m rs d d' js)
  have "lstep (ledger_of (d, js)) (ledger_of (add_message m rs d, js))" by (rule lstep.arrival) (rule ledger_arrival)
  moreover have "lstep (ledger_of (add_message m rs d, js)) (ledger_of (d', js))" using ledger_progress new by (simp add: good_step_def)
  ultimately show ?thesis using new by (simp add: converse_rtranclp_into_rtranclp)
next
  case (resolved E v d i d' js)
  then have "lstep (ledger_of (d, js)) (ledger_of (d', js))" using assms(2) ledger_resolution by (simp add: sys_inv_def)
  then show ?thesis using resolved by blast
qed

text \<open>A transaction may do several abstract steps at once: accepting a message adds its recipients and closes the suppressed ones.\<close>

interpretation queue_sim: simulation "qstep R" "lstep\<^sup>*\<^sup>*" ledger_of sys_inv for R
  by unfold_locales (use qstep_inv shape_ledger qstep_shape in \<open>blast+\<close>)



end
