(* ===== verification/Queue_Limits.thy ===== *)
theory Queue_Limits
  imports Queue_Properties
begin

text \<open>
  The claim's limits: its quantum of recipients, the quotas of the provider and of its group, the provider's connections; and its fairness to
  the owners of the messages.
\<close>

subsection \<open>The size of a claim\<close>

lemma filter_ids_length:
  assumes "distinct (map r_id rs)"
  shows "length (filter (\<lambda>r. r_id r \<in> set ids) rs) \<le> length ids"
proof -
  let ?f = "filter (\<lambda>r. r_id r \<in> set ids) rs"
  have "distinct (map r_id ?f)" using assms by (simp add: distinct_map_filter)
  then have "length ?f = card (set (map r_id ?f))" by (metis distinct_card length_map)
  also have "\<dots> \<le> card (set ids)" by (intro card_mono) auto
  also have "\<dots> \<le> length ids" by (rule card_length)
  finally show ?thesis .
qed

lemma claim_units:
  assumes keys: "inv_keys d" and c: "claim_done E m p (claim_ids R E (m_id m) (min n FairRecipientQuantum) d) d j d'"
  shows "1 \<le> int (length (j_Recipients j))" "int (length (j_Recipients j)) \<le> n" "int (length (j_Recipients j)) \<le> 16"
proof -
  let ?ids = "claim_ids R E (m_id m) (min n FairRecipientQuantum) d"
  have ne: "j_Recipients j \<noteq> []" using c unfolding claim_done_def by blast
  then show one: "1 \<le> int (length (j_Recipients j))" by (cases "j_Recipients j") simp_all
  have "length (j_Recipients j) = length (filter (\<lambda>r. r_id r \<in> set ?ids) (recipients d))" using claim_doneD(13) [OF c] by (metis length_map)
  also have "\<dots> \<le> length ?ids" using keys by (intro filter_ids_length) (simp add: inv_keys_def)
  also have "\<dots> \<le> nat (min n FairRecipientQuantum)" by (simp add: claim_ids_def order_limit_length)
  finally have "int (length (j_Recipients j)) \<le> min n FairRecipientQuantum" using one by linarith
  then show "int (length (j_Recipients j)) \<le> n" "int (length (j_Recipients j)) \<le> 16" by (simp_all add: FairRecipientQuantum_def)
qed

lemma claim_reserved:
  assumes "claim_done E m p ids d j d'"
  shows "reserved_units after d' (pv_id p) \<le> reserved_units after d (pv_id p) + int (length (j_Recipients j))"
    and "group_reserved after d' g \<le> group_reserved after d g + int (length (j_Recipients j))"
  using assms by (simp_all add: claim_done_def reserved_units_def group_reserved_def sum_where_append)

lemma claim_connections:
  assumes inv: "queue_inv d" and ch: "claim_choice m ids d" and c: "claim_done E m p ids d j d'"
  shows "live_attempts t d' pid \<le> live_attempts t d pid + 1"
proof -
  note c' = claim_doneD [OF c]
  let ?live = "\<lambda>d a. a_provider_id a = pid \<and> a_result a = IN_PROGRESS \<and> (\<exists>x \<in> set (messages d). m_id x = a_message_id a \<and> null_gt (m_lease_expires_at x) t)"
  have "?live d' a \<longrightarrow> ?live d a" if a: "a \<in> set (attempts d)" for a
  proof (intro impI conjI, elim conjE bexE)
    assume l: "?live d' a"
    then obtain x where x: "x \<in> set (messages d')" "m_id x = a_message_id a" "null_gt (m_lease_expires_at x) t" by blast
    from x(1) obtain y where y: "y \<in> set (messages d)" "x = (if m_id y = m_id m then lease_message E (fresh_token E) p y else y)" unfolding c'(6) by (rule update_where_memE)
    have "m_id y \<noteq> m_id m" using claim_free(2) [OF inv ch a] l x(2) y(2) by (auto split: if_split_asm)
    with x y show "\<exists>x \<in> set (messages d). m_id x = a_message_id a \<and> null_gt (m_lease_expires_at x) t" by auto
  qed simp_all
  then have "count_where (?live d') (attempts d) \<le> count_where (?live d) (attempts d)" by (intro count_where_mono) blast
  then show ?thesis by (simp add: live_attempts_def c'(8) count_where_append)
qed

lemma admission_Inr:
  assumes "admission R E pid d = Inr n"
  obtains p where "p \<in> set (providers d)" "pv_id p = pid" "n = min (quotaAvailable (clk E 4) d p) (sharedQuotaAvailable (clk E 4) d p)"
proof -
  from assms obtain p where p: "find (\<lambda>p. pv_id p = pid \<and> controlRequirements R (clk E 4) d p) (providers d) = Some p"
    "n = min (quotaAvailable (clk E 4) d p) (sharedQuotaAvailable (clk E 4) d p)" by (auto simp: admission_def split: option.split_asm)
  from p(1) have "p \<in> set (providers d)" "pv_id p = pid" by (auto simp: find_Some_iff)
  with that p(2) show thesis by blast
qed

text \<open>
  C20: A claim stays within its limits: it takes between one and sixteen recipients, the reservation it makes fits the hourly and the daily
  quota of the provider and of its quota group in the windows that end at the check, and the provider has at most its number of
  connections in attempts with a live lease.
\<close>

theorem claim_within_limits:
  assumes "reachable R (d, js)" and "Claim R E1 E2 E d = (Inr j, d')"
  shows "1 \<le> length (j_Recipients j)
     \<and> length (j_Recipients j) \<le> 16
     \<and> (\<exists>p \<in> set (providers d'). pv_id p = p_ID (j_Provider j) \<and> live_attempts (clk E 3) d' (pv_id p) \<le> pv_max_connections p)
     \<and> (\<exists>p \<in> set (providers d'). pv_id p = p_ID (j_Provider j)
       \<and> (case pv_hourly_limit p of None \<Rightarrow> True | Some l \<Rightarrow> reserved_units (clk E 4 - Hour) d' (pv_id p) \<le> l)
       \<and> (case pv_daily_limit p of None \<Rightarrow> True | Some l \<Rightarrow> reserved_units (clk E 4 - 24 * Hour) d' (pv_id p) \<le> l)
       \<and> (case find (\<lambda>g. pv_quota_group_id p = Some (g_id g)) (quota_groups d') of None \<Rightarrow> True
          | Some g \<Rightarrow> (g_hourly_limit g = 0 \<or> group_reserved (clk E 4 - Hour) d' (g_id g) \<le> g_hourly_limit g)
                    \<and> (g_daily_limit g = 0 \<or> group_reserved (clk E 4 - 24 * Hour) d' (g_id g) \<le> g_daily_limit g)))"
proof (intro conjI)
  have inv: "queue_inv d" by (rule reachable_inv [OF assms(1)])
  obtain d2 where d2: "good_step d d2" "claim_tx R E d2 = Inr (j, d')" using Claim_tables [OF inv assms(2)] by auto
  then have inv2: "queue_inv d2" by (simp add: good_step_def)
  note keys = queue_invD(1) [OF inv2]
  obtain m p n where p: "p \<in> set (providers d2)" and n: "admission R E (pv_id p) d2 = Inr n" and conn: "live_attempts (clk E 3) d2 (pv_id p) < pv_max_connections p"
    and c: "claim_done E m p (claim_ids R E (m_id m) (min n FairRecipientQuantum) d2) d2 j d'"
    and ch: "claim_choice m (claim_ids R E (m_id m) (min n FairRecipientQuantum) d2) d2"
    using claim_tx_Inr [OF d2(2) keys] by metis
  note u = claim_units [OF keys c]
  have pid: "p_ID (j_Provider j) = pv_id p" by (rule claim_doneD(4) [OF c])
  have same: "providers d' = providers d2" "quota_groups d' = quota_groups d2" using c by (simp_all add: claim_done_def)
  show "1 \<le> length (j_Recipients j)" "length (j_Recipients j) \<le> 16" using u(1,3) by simp_all
  show "\<exists>p \<in> set (providers d'). pv_id p = p_ID (j_Provider j) \<and> live_attempts (clk E 3) d' (pv_id p) \<le> pv_max_connections p"
    using claim_connections [OF inv2 ch c, of "clk E 3" "pv_id p"] conn p by (intro bexI [of _ p]) (simp_all add: pid same)
  obtain q where q: "q \<in> set (providers d2)" "pv_id q = pv_id p" "n = min (quotaAvailable (clk E 4) d2 q) (sharedQuotaAvailable (clk E 4) d2 q)"
    by (rule admission_Inr [OF n])
  have r: "reserved_units x d' (pv_id q) \<le> reserved_units x d2 (pv_id q) + n" "group_reserved x d' g \<le> group_reserved x d2 g + n" for x g
    using claim_reserved [OF c] u(2) q(2) by (metis add_left_mono order_trans)+
  have own: "case pv_hourly_limit q of None \<Rightarrow> True | Some l \<Rightarrow> n + reserved_units (clk E 4 - Hour) d2 (pv_id q) \<le> l"
    "case pv_daily_limit q of None \<Rightarrow> True | Some l \<Rightarrow> n + reserved_units (clk E 4 - 24 * Hour) d2 (pv_id q) \<le> l"
    by (simp_all add: q(3) quotaAvailable_def min_def split: option.split)
  have grp: "(g_hourly_limit g = 0 \<or> n + group_reserved (clk E 4 - Hour) d2 (g_id g) \<le> g_hourly_limit g)
      \<and> (g_daily_limit g = 0 \<or> n + group_reserved (clk E 4 - 24 * Hour) d2 (g_id g) \<le> g_daily_limit g)"
    if "find (\<lambda>g. pv_quota_group_id q = Some (g_id g)) (quota_groups d2) = Some g" for g
    by (simp add: q(3) sharedQuotaAvailable_def that min_def)
  have "case pv_hourly_limit q of None \<Rightarrow> True | Some l \<Rightarrow> reserved_units (clk E 4 - Hour) d' (pv_id q) \<le> l"
    using own(1) r(1) [of "clk E 4 - Hour"] by (simp split: option.split_asm option.split)
  moreover have "case pv_daily_limit q of None \<Rightarrow> True | Some l \<Rightarrow> reserved_units (clk E 4 - 24 * Hour) d' (pv_id q) \<le> l"
    using own(2) r(1) [of "clk E 4 - 24 * Hour"] by (simp split: option.split_asm option.split)
  moreover have "case find (\<lambda>g. pv_quota_group_id q = Some (g_id g)) (quota_groups d') of None \<Rightarrow> True
          | Some g \<Rightarrow> (g_hourly_limit g = 0 \<or> group_reserved (clk E 4 - Hour) d' (g_id g) \<le> g_hourly_limit g)
                    \<and> (g_daily_limit g = 0 \<or> group_reserved (clk E 4 - 24 * Hour) d' (g_id g) \<le> g_daily_limit g)"
    unfolding same(2)
  proof (split option.split, intro conjI allI impI)
    fix g assume g: "find (\<lambda>g. pv_quota_group_id q = Some (g_id g)) (quota_groups d2) = Some g"
    show "g_hourly_limit g = 0 \<or> group_reserved (clk E 4 - Hour) d' (g_id g) \<le> g_hourly_limit g"
      "g_daily_limit g = 0 \<or> group_reserved (clk E 4 - 24 * Hour) d' (g_id g) \<le> g_daily_limit g"
      using grp [OF g] r(2) [of "clk E 4 - Hour" "g_id g"] r(2) [of "clk E 4 - 24 * Hour" "g_id g"] by linarith+
  qed simp
  ultimately show "\<exists>p \<in> set (providers d'). pv_id p = p_ID (j_Provider j)
       \<and> (case pv_hourly_limit p of None \<Rightarrow> True | Some l \<Rightarrow> reserved_units (clk E 4 - Hour) d' (pv_id p) \<le> l)
       \<and> (case pv_daily_limit p of None \<Rightarrow> True | Some l \<Rightarrow> reserved_units (clk E 4 - 24 * Hour) d' (pv_id p) \<le> l)
       \<and> (case find (\<lambda>g. pv_quota_group_id p = Some (g_id g)) (quota_groups d') of None \<Rightarrow> True
          | Some g \<Rightarrow> (g_hourly_limit g = 0 \<or> group_reserved (clk E 4 - Hour) d' (g_id g) \<le> g_hourly_limit g)
                    \<and> (g_daily_limit g = 0 \<or> group_reserved (clk E 4 - 24 * Hour) d' (g_id g) \<le> g_daily_limit g))"
    using q(1,2) by (intro bexI [of _ q]) (simp_all add: pid same(1))
qed

theorem claim_within_limits_witness:
  "length (j_Recipients sample_job) \<le> 16 \<and> live_attempts 13 sample_claimed ''p'' \<le> 2 \<and> reserved_units (14 - Hour) sample_claimed ''p'' \<le> 10"
proof -
  note w = claim_within_limits [OF sample_reachable sample_claim(2)]
  have e: "clk sample_env 3 = 13" "clk sample_env 4 = 14" "p_ID (j_Provider sample_job) = ''p''" "pv_max_connections sample_provider = 2"
    "pv_hourly_limit sample_provider = Some 10" "pv_id sample_provider = ''p''"
    by (simp_all add: sample_job_def job_provider_def sample_provider_def)
  have "live_attempts 13 sample_claimed ''p'' \<le> 2" using w by (simp add: sample_claimed_tables e)
  moreover have "reserved_units (14 - Hour) sample_claimed ''p'' \<le> 10"
  proof -
    obtain q where "q \<in> set [sample_provider]" "case pv_hourly_limit q of None \<Rightarrow> True | Some l \<Rightarrow> reserved_units (14 - Hour) sample_claimed (pv_id q) \<le> l"
      using w unfolding sample_claimed_tables e by blast
    then show ?thesis by (simp add: e)
  qed
  ultimately show ?thesis using w by blast
qed

subsection \<open>Fairness\<close>

text \<open>The tickets of the owners are below the next ticket of the sequence, and \<open>ahead\<close> counts the owners served before an owner.\<close>

definition tickets_ok :: "db \<Rightarrow> bool" where
  "tickets_ok d \<longleftrightarrow> distinct (map ow_key (fair_owners d)) \<and> (\<forall>w \<in> set (fair_owners d). ow_last_ticket w < next_ticket d)"

definition ahead :: "db \<Rightarrow> owner_row \<Rightarrow> nat" where
  "ahead d w = length (filter (\<lambda>v. (ow_last_ticket v, ow_key v) < (ow_last_ticket w, ow_key w)) (fair_owners d))"

lemma filter_map_length:
  assumes "\<And>x. x \<in> set xs \<Longrightarrow> p (f x) \<Longrightarrow> p x"
  shows "length (filter p (map f xs)) \<le> length (filter p xs)"
  using assms by (induction xs) auto

lemma filter_map_less:
  assumes "\<And>x. x \<in> set xs \<Longrightarrow> p (f x) \<Longrightarrow> p x" and "s \<in> set xs" "p s" "\<not> p (f s)"
  shows "length (filter p (map f xs)) < length (filter p xs)"
proof -
  from assms(2) obtain ys zs where xs: "xs = ys @ s # zs" by (metis split_list)
  have "length (filter p (map f ys)) \<le> length (filter p ys)" "length (filter p (map f zs)) \<le> length (filter p zs)"
    by (rule filter_map_length; use assms(1) xs in simp)+
  then show ?thesis using assms(3,4) xs by simp
qed

lemma take_ticket_ok: "tickets_ok d \<Longrightarrow> tickets_ok (take_ticket key c d)"
  by (auto simp: tickets_ok_def take_ticket_def map_update_where set_update_where)



end
