(* ===== verification/Queue_Outcome.thy ===== *)
theory Queue_Outcome
  imports Queue_Properties
begin

text \<open>
  The outcomes of the maintenance operations: recovery of expired leases, the scheduler, and the resolution of uncertain deliveries.
\<close>

subsection \<open>Recovery\<close>

definition recovered_status :: "bool \<Rightarrow> status \<Rightarrow> bool" where
  "recovered_status armed st \<longleftrightarrow> (if armed then st = DELIVERY_UNKNOWN else st \<in> {QUEUED, TEMP_FAILED, EXPIRED})"

definition recovered :: "job \<times> bool \<Rightarrow> rcpt \<Rightarrow> db \<Rightarrow> bool" where
  "recovered = (\<lambda>(j, armed) r d. unlocked d (j_ID j) \<and> (\<exists>r' \<in> set (recipients d). r_key r' = r_key r \<and> recovered_status armed (r_status r'))
     \<and> (\<exists>a \<in> set (attempts d). a_id a = j_AttemptID j \<and> a_result a = (if armed then DELIVERY_UNKNOWN else TEMP_FAILED)))"

lemma recover_one_hit:
  assumes d': "d' = recover_one E (j, armed) d" and r: "r \<in> set (recipients d)" "r_message_id r = j_ID j" "r_status r = SENDING"
    and a: "a \<in> set (attempts d)" "a_id a = j_AttemptID j"
  shows "recovered (j, armed) r d'"
proof -
  obtain g where g1: "recipients d' = map g (recipients d)" "\<And>r. r_message_id r \<noteq> j_ID j \<Longrightarrow> g r = r"
    and g2: "\<And>r. stops_waiting (recovered_recipient (j_ID j) (if armed then DELIVERY_UNKNOWN else QUEUED) r) (g r)"
    using recover_one_rows [OF d'] by blast
  note t = recover_one_tables [OF d']
  let ?e = "recovered_recipient (j_ID j) (if armed then DELIVERY_UNKNOWN else QUEUED) r"
  have e: "r_status ?e = (if armed then DELIVERY_UNKNOWN else QUEUED)" using r by (simp add: recovered_recipient_def)
  have "recovered_status armed (r_status (g r))"
    using stops_waitingD(8,9) [OF g2 [of r]] e by (cases armed) (auto simp: recovered_status_def)
  moreover have "r_key (g r) = r_key r" using stops_waitingD(1) [OF g2 [of r]] by simp
  moreover have "g r \<in> set (recipients d')" using r(1) g1(1) by simp
  moreover have "lost_attempt E (if armed then DELIVERY_UNKNOWN else TEMP_FAILED) a \<in> set (attempts d')"
    unfolding t(1) set_update_where by (rule image_eqI [of _ _ a]) (use a in simp_all)
  moreover have "unlocked d' (j_ID j)"
  proof -
    obtain u where u: "messages d' = update_where (\<lambda>m. m_id m = j_ID j) u (messages d)" "\<And>m. m_key (u m) = m_key m" "\<And>m. m_locked_by (u m) = None" using t(4) by blast
    have "m_id (u m) = m_id m" for m using u(2) [of m] by (simp add: m_key_def)
    then show ?thesis unfolding unlocked_def u(1) set_update_where by (auto simp: u(3))
  qed
  moreover have "a_id (lost_attempt E (if armed then DELIVERY_UNKNOWN else TEMP_FAILED) a) = j_AttemptID j"
    "a_result (lost_attempt E (if armed then DELIVERY_UNKNOWN else TEMP_FAILED) a) = (if armed then DELIVERY_UNKNOWN else TEMP_FAILED)"
    using a(2) by (simp_all add: lost_attempt_def)
  ultimately show ?thesis unfolding recovered_def split by blast
qed

lemma recover_one_miss:
  assumes d': "d' = recover_one E (j, armed) d"
  shows "r \<in> set (recipients d) \<Longrightarrow> r_message_id r \<noteq> j_ID j \<Longrightarrow> r \<in> set (recipients d')"
    and "a \<in> set (attempts d) \<Longrightarrow> a_id a \<noteq> j_AttemptID j \<Longrightarrow> a \<in> set (attempts d')"
    and "unlocked d mid \<Longrightarrow> unlocked d' mid"
proof -
  obtain g where g: "recipients d' = map g (recipients d)" "\<And>r. r_message_id r \<noteq> j_ID j \<Longrightarrow> g r = r"
    "\<And>r. stops_waiting (recovered_recipient (j_ID j) (if armed then DELIVERY_UNKNOWN else QUEUED) r) (g r)" using recover_one_rows [OF d'] by blast
  note t = recover_one_tables [OF d']
  show "r \<in> set (recipients d')" if "r \<in> set (recipients d)" "r_message_id r \<noteq> j_ID j"
    unfolding g(1) set_map by (rule image_eqI [of _ _ r]) (use that g(2) in simp_all)
  show "a \<in> set (attempts d')" if "a \<in> set (attempts d)" "a_id a \<noteq> j_AttemptID j"
    unfolding t(1) set_update_where by (rule image_eqI [of _ _ a]) (use that in simp_all)
  obtain u where u: "messages d' = update_where (\<lambda>m. m_id m = j_ID j) u (messages d)" "\<And>m. m_key (u m) = m_key m" "\<And>m. m_locked_by (u m) = None" using t(4) by blast
  have "m_id (u m) = m_id m" for m using u(2) [of m] by (simp add: m_key_def)
  then show "unlocked d' mid" if "unlocked d mid" using that unfolding unlocked_def u(1) set_update_where by (auto simp: u(3))
qed

lemma recovered_stays:
  assumes "recovered (j, armed) r d" and "r_message_id r = j_ID j"
    and "\<forall>x \<in> set js. j_ID (fst x) \<noteq> j_ID j \<and> j_AttemptID (fst x) \<noteq> j_AttemptID j"
  shows "recovered (j, armed) r (fold (recover_one E) js d)"
  using assms(1,3)
proof (induction js arbitrary: d)
  case (Cons x js)
  obtain k b where x: "x = (k, b)" by fastforce
  note miss = recover_one_miss [of "recover_one E x d" E k b d, OF x [THEN arg_cong, of "\<lambda>x. recover_one E x d"]]
  have "recovered (j, armed) r (recover_one E x d)"
    using Cons.prems miss assms(2) x unfolding recovered_def by (fastforce simp: r_key_def)
  then show ?case using Cons by simp
qed simp

lemma recover_fold_hit:
  assumes "distinct (map (\<lambda>x. j_ID (fst x)) js)" and "distinct (map (\<lambda>x. j_AttemptID (fst x)) js)" and "(j, armed) \<in> set js"
    and "r \<in> set (recipients d)" "r_message_id r = j_ID j" "r_status r = SENDING" and "a \<in> set (attempts d)" "a_id a = j_AttemptID j"
  shows "recovered (j, armed) r (fold (recover_one E) js d)"
  using assms
proof (induction js arbitrary: d)
  case (Cons x js)
  show ?case
  proof (cases "x = (j, armed)")
    case True
    then have "recovered (j, armed) r (recover_one E x d)" using recover_one_hit [OF refl] Cons.prems by simp
    moreover have "\<forall>y \<in> set js. j_ID (fst y) \<noteq> j_ID j \<and> j_AttemptID (fst y) \<noteq> j_AttemptID j" using Cons.prems(1,2) True by (auto simp: image_iff)
    ultimately show ?thesis using recovered_stays Cons.prems(5) by simp
  next
    case False
    then have mem: "(j, armed) \<in> set js" using Cons.prems(3) by auto
    obtain k b where x: "x = (k, b)" by fastforce
    have "j_ID k \<noteq> j_ID j" "j_AttemptID k \<noteq> j_AttemptID j" using Cons.prems(1,2) mem x by (auto simp: image_iff)
    then have "r \<in> set (recipients (recover_one E x d))" "a \<in> set (attempts (recover_one E x d))"
      using recover_one_miss [of "recover_one E x d" E k b d] x Cons.prems by auto
    then show ?thesis using Cons.IH [of "recover_one E x d"] Cons.prems mem by simp
  qed
qed simp

lemma expired_leases_messages:
  assumes inv: "queue_inv d"
  shows "distinct (map (\<lambda>x. m_id (fst x)) (expired_leases E d))"
proof -
  have d: "distinct (map (\<lambda>x. a_id (snd x)) (expired_leases E d))" by (rule expired_leases_distinct [OF inv])
  have "inj_on (\<lambda>x. m_id (fst x)) (set (expired_leases E d))"
  proof (rule inj_onI)
    fix x y assume xy: "x \<in> set (expired_leases E d)" "y \<in> set (expired_leases E d)" "m_id (fst x) = m_id (fst y)"
    note x = expired_leases_mem [of "fst x" "snd x", simplified, OF xy(1)] and y = expired_leases_mem [of "fst y" "snd y", simplified, OF xy(2)]
    have "snd x = snd y" using active_unique [OF inv x(2,4) y(2,4)] x(3) y(3) xy(3) by simp
    moreover have "fst x = fst y" using inv_keysD(1) [OF queue_invD(1) [OF inv] x(1) y(1) xy(3)] .
    ultimately show "x = y" by (simp add: prod_eq_iff)
  qed
  with d show ?thesis by (simp add: distinct_map)
qed

lemma Recover_outcome:
  assumes inv: "queue_inv d" and rec: "Recover E d = Inr (u, d')" and ma: "(m, a) \<in> set (expired_leases E d)"
    and r: "r \<in> set (recipients d)" "r_message_id r = m_id m" "r_status r = SENDING"
  shows "recovered (bare_job (m_id m) (coalesce (m_locked_by m) []) (a_id a), a_data_armed_at a \<noteq> None) r d'"
proof -
  let ?job = "\<lambda>(m, a). (bare_job (m_id m) (coalesce (m_locked_by m) []) (a_id a), a_data_armed_at a \<noteq> None)"
  have d': "d' = fold (recover_one E) (map ?job (expired_leases E d)) d" using rec by (simp add: Recover_def)
  show ?thesis unfolding d'
  proof (rule recover_fold_hit)
    show "distinct (map (\<lambda>x. j_ID (fst x)) (map ?job (expired_leases E d)))" "distinct (map (\<lambda>x. j_AttemptID (fst x)) (map ?job (expired_leases E d)))"
      using expired_leases_messages [OF inv, of E] expired_leases_distinct [OF inv, of E] by (simp_all add: comp_def split_beta bare_job_def)
    show "(bare_job (m_id m) (coalesce (m_locked_by m) []) (a_id a), a_data_armed_at a \<noteq> None) \<in> set (map ?job (expired_leases E d))"
      unfolding set_map by (rule image_eqI [OF _ ma]) simp
  qed (use r expired_leases_mem(2) [OF ma] in \<open>simp_all add: bare_job_def\<close>)
qed

subsection \<open>A lost worker\<close>

text \<open>The sample's first job is armed, and its worker is never heard of again.\<close>

definition sample_armed :: db where
  "sample_armed = commit_tx (ArmData sample_env sample_job) sample_claimed"

definition sample_late :: env where
  "sample_late = sample_env\<lparr>now := 1000 * Second, clk := (\<lambda>n. 1000 * Second)\<rparr>"

definition sample_lost :: db where
  "sample_lost = commit_tx (Recover sample_late) sample_armed"

lemma sample_armed_reachable: "reachable sample_repo (sample_armed, [sample_job])" "reachable sample_repo (sample_lost, [sample_job])"
proof -
  show "reachable sample_repo (sample_armed, [sample_job])" unfolding sample_armed_def
    by (rule reachable.step [OF sample_claimed_reachable qstep.arm]) simp
  then show "reachable sample_repo (sample_lost, [sample_job])" unfolding sample_lost_def
    by (rule reachable.step [OF _ qstep.recover])
qed

lemma sample_armed_tables:
  "messages sample_armed = messages sample_claimed" "recipients sample_armed = recipients sample_claimed" "attempt_recipients sample_armed = attempt_recipients sample_claimed"
  "\<exists>a. attempts sample_armed = [a] \<and> a_id a = ''s1'' \<and> a_message_id a = ''m1'' \<and> a_result a = IN_PROGRESS \<and> a_data_armed_at a \<noteq> None \<and> a_number a = 1"
proof -
  obtain d' where arm: "ArmData sample_env sample_job sample_claimed = Inr (None, d')" by (rule sample_arm)
  then have d': "sample_armed = d'" by (simp add: sample_armed_def)
  have no: "apply_hits t mid s sample_claimed = []" for t mid s by (simp add: apply_hits_def sample_claimed_tables)
  have perm: "arm_permission sample_env sample_job (snd (Apply sample_env (j_ID sample_job) (j_AttemptID sample_job) True sample_claimed)) = Inr (None, d')"
    by (rule ArmData_Inr [OF arm]) (simp add: no)
  have same: "snd (Apply sample_env i k True sample_claimed) = sample_claimed" for i k by (simp add: Apply_def no)
  note p = arm_permission_Inr [OF perm [unfolded same]]
  show "messages sample_armed = messages sample_claimed" "recipients sample_armed = recipients sample_claimed" "attempt_recipients sample_armed = attempt_recipients sample_claimed"
    unfolding d' by (rule p; assumption)+
  show "\<exists>a. attempts sample_armed = [a] \<and> a_id a = ''s1'' \<and> a_message_id a = ''m1'' \<and> a_result a = IN_PROGRESS \<and> a_data_armed_at a \<noteq> None \<and> a_number a = 1"
  proof (rule p)
    fix m assume m: "m \<in> set (messages sample_claimed)" "m_id m = j_ID sample_job"
      and at: "attempts d' = update_where (\<lambda>a. a_id a = j_AttemptID sample_job \<and> a_claim_token a = j_Token sample_job \<and> a_result a = IN_PROGRESS
           \<and> a_data_armed_at a = None \<and> a_expiry_blocked_at a = None) (arm_attempt (clk sample_env 3) m) (attempts sample_claimed)"
    have "m_expires_at m = None" using m by (auto simp: sample_claimed_tables lease_message_def sample_message_def)
    then show ?thesis unfolding d' at sample_claimed_tables by (simp add: arm_attempt_def, simp add: sample_job_def)
  qed
qed

lemma sample_expired:
  obtains a where "expired_leases sample_late sample_armed = [(lease_message sample_env ''t1'' sample_provider (sample_message ''m1'' ''A''), a)]"
    and "attempts sample_armed = [a]" "a_id a = ''s1''" "a_data_armed_at a \<noteq> None"
proof -
  obtain a where a: "attempts sample_armed = [a]" "a_id a = ''s1''" "a_message_id a = ''m1''" "a_result a = IN_PROGRESS" "a_data_armed_at a \<noteq> None"
    using sample_armed_tables(4) by blast
  have "expired_leases sample_late sample_armed = [(lease_message sample_env ''t1'' sample_provider (sample_message ''m1'' ''A''), a)]"
    unfolding expired_leases_def order_limit_def sample_armed_tables(1) sample_claimed_tables a(1)
    using a(3,4) by (simp add: sample_late_def lease_message_def sample_message_def sample_provider_def Second_def sample_env_def)
  with a that show thesis by blast
qed

text \<open>
  C22: Recovery of an expired lease tells apart what it must. When the lost worker had permission to send DATA, every recipient it was
  sending becomes DELIVERY_UNKNOWN and is never retried automatically; without that permission the recipient is queued again, or fails or expires when
  its budget is used up. Either way the message is unlocked and the attempt closed.
\<close>

theorem recovery_outcome:
  assumes "reachable R (d, js)" and "Recover E d = Inr (u, d')" and "(m, a) \<in> set (expired_leases E d)"
    and "r \<in> set (recipients d)" and "r_message_id r = m_id m" and "r_status r = SENDING"
  shows "recovered (bare_job (m_id m) (coalesce (m_locked_by m) []) (a_id a), a_data_armed_at a \<noteq> None) r d'"
  by (rule Recover_outcome [OF reachable_inv [OF assms(1)] assms(2-6)])

theorem recovery_outcome_witness:
  "unlocked sample_lost ''m1'' \<and> (\<exists>r \<in> set (recipients sample_lost). r_id r = ''r1'' \<and> r_status r = DELIVERY_UNKNOWN)"
proof -
  let ?m = "lease_message sample_env ''t1'' sample_provider (sample_message ''m1'' ''A'')" and ?r = "send_recipient sample_env ''p'' (sample_rcpt ''r1'' ''m1'')"
  obtain a where a: "expired_leases sample_late sample_armed = [(?m, a)]" "a_data_armed_at a \<noteq> None" by (rule sample_expired)
  have rec: "Recover sample_late sample_armed = Inr ((), sample_lost)" by (simp add: sample_lost_def Recover_def commit_tx_def)
  have r: "?r \<in> set (recipients sample_armed)" "r_message_id ?r = m_id ?m" by (simp_all add: sample_armed_tables sample_claimed_tables, simp add: sample_rcpt_def sample_message_def)
  have "recovered (bare_job (m_id ?m) (coalesce (m_locked_by ?m) []) (a_id a), a_data_armed_at a \<noteq> None) ?r sample_lost"
    by (rule recovery_outcome [OF sample_armed_reachable(1) rec _ r]) (simp_all add: a(1))
  then show ?thesis using a(2) unfolding recovered_def by (auto simp: bare_job_def recovered_status_def r_key_def sample_message_def sample_rcpt_def lease_message_def)
qed

subsection \<open>Resolution\<close>

lemma resolution_status_Inr:
  assumes "resolve_valid E v = Inr st"
  shows "st = (if rs_Action v = ''retry'' then QUEUED else if rs_Action v = ''mark-delivered'' then DELIVERED else PERM_FAILED)"
    and "rs_Action v = ''retry'' \<Longrightarrow> rs_AcknowledgeDuplicate v"
  using assms by (auto simp: resolve_valid_def resolution_status_def bind_res_Inr_iff split: if_split_asm)

lemma ResolveUnknown_checks:
  assumes "ResolveUnknown E v d = Inr (i, d')"
  obtains r m a where "r \<in> set (recipients d)" "r_id r = rs_RecipientID v" "m \<in> set (messages d)" "m_id m = r_message_id r" "resolve_checks E v r m d = Inr a"
proof -
  from assms obtain r m a where "query_row (\<lambda>r. r_id r = rs_RecipientID v) (recipients d) = Inr r" "query_row (\<lambda>m. m_id m = r_message_id r) (messages d) = Inr m"
    "resolve_checks E v r m d = Inr a" unfolding ResolveUnknown_def bind_res_Inr_iff by blast
  with query_row_Inr [OF this(1)] query_row_Inr [OF this(2)] that show thesis by blast
qed

lemma resolve_checks_Inr:
  assumes "resolve_checks E v r m d = Inr a"
  shows "m_locked_by m = None" "r_status r = DELIVERY_UNKNOWN" "a_id a = rs_ExpectedAttempt v"
    and "rs_Action v = ''retry'' \<Longrightarrow> \<not> suppressed_address (clk E 1) d (r_address r) \<and> \<not> null_le (m_expires_at m) (clk E 0)"
    and "\<exists>ar rest. latest_attempt d (rs_RecipientID v) = (ar, a) # rest \<and> ar_status ar = DELIVERY_UNKNOWN"
  using assms unfolding resolve_checks_def by (auto simp: bind_res_Inr_iff split: list.split_asm)

text \<open>
  C23: An uncertain delivery is resolved only under its conditions. The recipient is uncertain, its message is not being sent, and the
  operator named the latest attempt; a retry needs the acknowledgement of the duplicate risk, a recipient that is not suppressed and a message
  that is not expired. The recipient's status is the one asked for, and a second resolution of the same uncertainty is refused with an error.
\<close>

theorem resolution_guarded:
  assumes "reachable R (d, js)" and res: "ResolveUnknown E v d = Inr (i, d')"
  shows "(\<exists>r \<in> set (recipients d). r_id r = rs_RecipientID v \<and> r_status r = DELIVERY_UNKNOWN \<and> unlocked d (r_message_id r)
      \<and> (rs_Action v = ''retry'' \<longrightarrow> rs_AcknowledgeDuplicate v \<and> \<not> suppressed_address (clk E 1) d (r_address r)))
     \<and> (\<exists>ar a rest. latest_attempt d (rs_RecipientID v) = (ar, a) # rest \<and> a_id a = rs_ExpectedAttempt v \<and> ar_status ar = DELIVERY_UNKNOWN)
     \<and> (\<exists>r \<in> set (recipients d'). r_id r = rs_RecipientID v
      \<and> r_status r = (if rs_Action v = ''retry'' then QUEUED else if rs_Action v = ''mark-delivered'' then DELIVERED else PERM_FAILED))
     \<and> (\<exists>e. ResolveUnknown E' v d' = Inl e)"
proof (intro conjI)
  have inv: "queue_inv d" by (rule reachable_inv [OF assms(1)])
  note keys = queue_invD(1) [OF inv]
  obtain r m a where r: "r \<in> set (recipients d)" "r_id r = rs_RecipientID v" and m: "m \<in> set (messages d)" "m_id m = r_message_id r"
    and chk: "resolve_checks E v r m d = Inr a" by (rule ResolveUnknown_checks [OF res])
  obtain st m' a' where st: "resolve_valid E v = Inr st" and w: "resolve_write E v st m' a' d = Inr (i, d')" by (rule ResolveUnknown_Inr [OF res])
  note c = resolve_checks_Inr [OF chk] and s = resolution_status_Inr [OF st]
  have "unlocked d (r_message_id r)" unfolding unlocked_def using inv_keysD(1) [OF keys _ m(1)] m(2) c(1) by metis
  then show "\<exists>r \<in> set (recipients d). r_id r = rs_RecipientID v \<and> r_status r = DELIVERY_UNKNOWN \<and> unlocked d (r_message_id r)
      \<and> (rs_Action v = ''retry'' \<longrightarrow> rs_AcknowledgeDuplicate v \<and> \<not> suppressed_address (clk E 1) d (r_address r))"
    using r c(2,4) s(2) by blast
  show "\<exists>ar a rest. latest_attempt d (rs_RecipientID v) = (ar, a) # rest \<and> a_id a = rs_ExpectedAttempt v \<and> ar_status ar = DELIVERY_UNKNOWN"
    using c(3,5) by blast
  have rows: "recipients d' = map (\<lambda>r. if r_id r = rs_RecipientID v then resolved_recipient E v st r else r) (recipients d)" by (rule resolve_write_tables(1) [OF w])
  have "resolved_recipient E v st r \<in> set (recipients d')" unfolding rows set_map by (rule image_eqI [OF _ r(1)]) (simp add: r(2))
  moreover have "r_status (resolved_recipient E v st x) = st" "r_id (resolved_recipient E v st x) = r_id x" for x by (simp_all add: resolved_recipient_def)
  ultimately show "\<exists>r \<in> set (recipients d'). r_id r = rs_RecipientID v
      \<and> r_status r = (if rs_Action v = ''retry'' then QUEUED else if rs_Action v = ''mark-delivered'' then DELIVERED else PERM_FAILED)"
    unfolding s(1) [symmetric] using r(2) by (intro bexI [of _ "resolved_recipient E v st r"]) simp_all
  show "\<exists>e. ResolveUnknown E' v d' = Inl e"
  proof (cases "ResolveUnknown E' v d'")
    case (Inr x)
    then have again: "ResolveUnknown E' v d' = Inr (fst x, snd x)" by simp
    obtain r' m' a' where r': "r' \<in> set (recipients d')" "r_id r' = rs_RecipientID v" and chk': "resolve_checks E' v r' m' d' = Inr a'"
      by (rule ResolveUnknown_checks [OF again])
    from r' have "r_status r' = st" unfolding rows by (auto simp: resolved_recipient_def split: if_split_asm)
    with resolve_checks_Inr(2) [OF chk'] s(1) show ?thesis by (simp split: if_split_asm)
  qed simp
qed

definition sample_resolution :: resolution where
  "sample_resolution = \<lparr>rs_RecipientID = ''r1'', rs_ExpectedAttempt = ''s1'', rs_Action = ''mark-delivered'', rs_Actor = ''ops'', rs_Reason = ''asked'',
     rs_AcknowledgeDuplicate = False\<rparr>"

lemma sample_resolve:
  obtains i d' where "ResolveUnknown sample_late sample_resolution sample_lost = Inr (i, d')"
proof -
  let ?m = "lease_message sample_env ''t1'' sample_provider (sample_message ''m1'' ''A'')"
  obtain a where a: "expired_leases sample_late sample_armed = [(?m, a)]" "attempts sample_armed = [a]" "a_id a = ''s1''" "a_data_armed_at a \<noteq> None" by (rule sample_expired)
  let ?j = "bare_job ''m1'' ''t1'' ''s1''"
  have m: "m_id (sample_message i k) = i" "m_environment (sample_message i k) = ''production''" "m_archive_state (sample_message i k) = ''AVAILABLE''"
    "m_locked_by (sample_message i k) = None" "m_expires_at (sample_message i k) = None" for i k by (simp_all add: sample_message_def)
  have r: "r_id (sample_rcpt i k) = i" "r_message_id (sample_rcpt i k) = k" for i k by (simp_all add: sample_rcpt_def)
  have "sample_lost = recover_one sample_late (?j, True) sample_armed"
    using a by (simp add: sample_lost_def Recover_def commit_tx_def m)
  note d' = this and t = recover_one_tables [OF this]
  obtain u where u: "messages sample_lost = update_where (\<lambda>x. m_id x = ''m1'') u (messages sample_armed)" "\<And>x. m_locked_by (u x) = None" "\<And>x. m_key (u x) = m_key x"
    using t(4) by (auto simp: bare_job_def)
  have um: "m_id (u x) = m_id x" for x using u(3) [of x] by (simp add: m_key_def)
  obtain g where g: "recipients sample_lost = map g (recipients sample_armed)" "\<And>r. r_message_id r \<noteq> j_ID ?j \<Longrightarrow> g r = r"
    "\<And>r. stops_waiting (recovered_recipient (j_ID ?j) (if True then DELIVERY_UNKNOWN else QUEUED) r) (g r)" using recover_one_rows [OF d'] by blast
  let ?r = "send_recipient sample_env ''p'' (sample_rcpt ''r1'' ''m1'')"
  have gr: "g ?r = ?r\<lparr>r_status := DELIVERY_UNKNOWN\<rparr>"
    using stops_waitingD(9) [OF g(3) [of ?r]] by (simp add: recovered_recipient_def r bare_job_def)
  have q1: "query_row (\<lambda>r. r_id r = ''r1'') (recipients sample_lost) = Inr (g ?r)"
    by (simp add: g(1) sample_armed_tables sample_claimed_tables query_row_def gr r)
  have q2: "query_row (\<lambda>m. m_id m = ''m1'') (messages sample_lost) = Inr (u ?m)"
    by (simp add: u(1) sample_armed_tables sample_claimed_tables query_row_def um m)
  let ?a = "lost_attempt sample_late DELIVERY_UNKNOWN a" and ?ar = "(new_attempt_rcpt sample_job \<lparr>rc_ID = ''r1'', rc_Address = ''c@d''\<rparr>)\<lparr>ar_status := DELIVERY_UNKNOWN\<rparr>"
  have j: "j_AttemptID sample_job = ''s1''" by (simp add: sample_job_def)
  have la: "latest_attempt sample_lost ''r1'' = [(?ar, ?a)]"
    by (simp add: latest_attempt_def order_limit_def t(1,2) sample_armed_tables(3) sample_claimed_tables a(2,3) bare_job_def j lost_attempt_def)
  have v: "resolve_valid sample_late sample_resolution = Inr DELIVERED"
    by (simp add: resolve_valid_def sample_resolution_def resolution_status_def sample_late_def sample_env_def valid_utf8.simps byte_eval trim_space_printable)
  have chk: "resolve_checks sample_late sample_resolution (g ?r) (u ?m) sample_lost = Inr ?a"
    by (simp add: resolve_checks_def u(2) sample_resolution_def la gr a(3) lost_attempt_def)
  have rid: "rs_RecipientID sample_resolution = ''r1''" and gm: "r_message_id (g ?r) = ''m1''" by (simp_all add: sample_resolution_def gr r)
  have "ResolveUnknown sample_late sample_resolution sample_lost = resolve_write sample_late sample_resolution DELIVERED (u ?m) ?a sample_lost"
    using q1 q2 chk by (simp add: ResolveUnknown_def v rid gm)
  then show thesis using that by (simp add: resolve_write_def Let_def)
qed

theorem resolution_guarded_witness:
  "\<exists>i d'. ResolveUnknown sample_late sample_resolution sample_lost = Inr (i, d') \<and> (\<exists>e. ResolveUnknown sample_late sample_resolution d' = Inl e)
     \<and> (\<exists>r \<in> set (recipients d'). r_id r = ''r1'' \<and> r_status r = DELIVERED)"
proof -
  obtain i d' where d': "ResolveUnknown sample_late sample_resolution sample_lost = Inr (i, d')" by (rule sample_resolve)
  show ?thesis using d' resolution_guarded [OF sample_armed_reachable(2) d'] by (intro exI [of _ i] exI [of _ d']) (simp add: sample_resolution_def)
qed



end
