(* ===== verification/Message_Fingerprint.thy ===== *)
theory Message_Fingerprint
  imports Message_Enqueue
begin

text \<open>
  The fingerprint of a request identifies it: the JSON text that is hashed determines every field of the request, so two requests
  with the same fingerprint are the same request unless SHA-256 collides.
\<close>

subsection \<open>Hexadecimal text\<close>

lemma hex_digit_round_trip:
  assumes "n < 16"
  shows "Go_Net.hex_digit (Sha256.hex_digit n) = Some n" and "byte (Sha256.hex_digit n) < 128"
proof -
  have "list_all (\<lambda>n. Go_Net.hex_digit (Sha256.hex_digit n) = Some n \<and> byte (Sha256.hex_digit n) < 128) [0..<16]" by code_simp
  with assms show "Go_Net.hex_digit (Sha256.hex_digit n) = Some n" "byte (Sha256.hex_digit n) < 128" by (auto simp: list_all_iff)
qed

lemma nibbles: "of_char c div 16 < (16 :: nat)" "of_char c mod 16 < (16 :: nat)"
proof -
  have "(of_char c :: nat) < 16 * 16" using byte_less [of c] by (simp add: byte_def [symmetric])
  then show "of_char c div 16 < (16 :: nat)" by (rule less_mult_imp_div_less)
qed simp

lemma hex_round_trip: "hex_decode (hex_encode s) = Some s"
proof (induction s)
  case Nil
  show ?case by (simp add: hex_encode_def)
next
  case (Cons c s)
  note d = nibbles [of c]
  have "chr (16 * (of_char c div 16) + of_char c mod 16) = c" by (simp add: chr_def)
  with Cons show ?case by (simp add: hex_encode_def hex_digit_round_trip [OF d(1)] hex_digit_round_trip [OF d(2)])
qed

lemma hex_encode_inj: "hex_encode s = hex_encode t \<longleftrightarrow> s = t"
  using hex_round_trip [of s] hex_round_trip [of t] by (metis option.inject)

lemma hex_encode_ascii: "ascii (hex_encode s)"
proof (induction s)
  case (Cons c s)
  note d = nibbles [of c]
  have "hex_encode (c # s) = [Sha256.hex_digit (of_char c div 16), Sha256.hex_digit (of_char c mod 16)] @ hex_encode s" by (simp add: hex_encode_def)
  with Cons hex_digit_round_trip(2) [OF d(1)] hex_digit_round_trip(2) [OF d(2)] show ?case by simp
qed (simp add: hex_encode_def)

subsection \<open>Every text of a request is ASCII\<close>

lemma digest_ascii: "digest_text s \<Longrightarrow> ascii s"
  unfolding digest_text_def using hex_encode_ascii by (auto split: option.split_asm)

lemma CanonicalAddress_ascii: "\<not> is_Inl (CanonicalAddress a) \<Longrightarrow> ascii a"
proof -
  assume "\<not> is_Inl (CanonicalAddress a)"
  then obtain v where "CanonicalAddress a = Inr v" by (auto simp: is_Inl_def split: sum.split_asm)
  then show ?thesis by (auto simp: CanonicalAddress_def bind_res_Inr_iff ascii_def list_all_iff)
qed

lemma alnum_ascii: "lower_alnum c \<Longrightarrow> byte c < 128" "alnum c \<Longrightarrow> byte c < 128" "c \<in> set ''._:-'' \<Longrightarrow> byte c < 128" "c \<in> set ''_-'' \<Longrightarrow> byte c < 128"
  by (auto simp: lower_alnum_def alnum_def is_digit_def byte_def less_eq_char_def)

lemma ValidReference_ascii: "ValidReference s \<Longrightarrow> ascii s"
  by (auto simp: ValidReference_def ascii_def list_all_iff alnum_ascii split: list.split_asm)

lemma ValidTag_ascii: "ValidTag s \<Longrightarrow> ascii s"
  by (auto simp: ValidTag_def ascii_def list_all_iff alnum_ascii split: list.split_asm)

lemma Canonical_plain: "Canonical b = Inr c \<Longrightarrow> plain (business_json c)"
  by (auto simp: Canonical_Inr business_json_def byte_def list_all_iff intro: ValidReference_ascii ValidTag_ascii)

lemma stream_ascii: "CanonicalStream n = Inr s \<Longrightarrow> ascii s"
  by (drule CanonicalStream_Inr) (auto simp: byte_def)

lemma rfc3339_ascii: "ascii (rfc3339 t)"
proof -
  have d: "ascii xs" if "list_all is_digit xs" for xs using that by (auto simp: ascii_def list_all_iff is_digit_def)
  have p: "ascii (pad2 i)" "ascii (pad4 i)" for i by (rule d, rule digits_pad)+
  show ?thesis by (simp add: rfc3339_def split_beta Let_def p byte_def)
qed

lemma expiry_ascii: "CanonicalExpiry t = Inr s \<Longrightarrow> ascii s"
  using rfc3339_ascii by (auto simp: CanonicalExpiry_def split: if_split_asm)

text \<open>What the documentation of github.com/google/uuid says of String: five groups of lower-case hexadecimal digits.\<close>

definition uuid_texts :: "(string \<Rightarrow> string option) \<Rightarrow> bool" where
  "uuid_texts U \<longleftrightarrow> (\<forall>x t. U x = Some t \<longrightarrow> uuid_shape t)"

lemma uuid_shape_ascii: "uuid_shape s \<Longrightarrow> ascii s"
proof -
  assume u: "uuid_shape s"
  have h: "byte c < 128" if "c \<in> set ''0123456789abcdef''" for c using that by (auto simp: byte_def)
  have d: "byte CHR ''-'' < 128" by (simp add: byte_def)
  have len: "length s = 36" and all: "\<forall>i \<in> set [0..<36]. if i \<in> {8, 13, 18, 23} then s ! i = CHR ''-'' else s ! i \<in> set ''0123456789abcdef''"
    using u unfolding uuid_shape_def list_all_iff by blast+
  have "byte (s ! i) < 128" if "i < length s" for i
  proof -
    have "i \<in> set [0..<36]" using that by (simp only: len set_upt atLeastLessThan_iff le0 simp_thms)
    with all have "if i \<in> {8, 13, 18, 23} then s ! i = CHR ''-'' else s ! i \<in> set ''0123456789abcdef''" by (rule bspec)
    then show ?thesis using h [of "s ! i"] d by (metis (full_types))
  qed
  then show ?thesis by (auto simp: ascii_def list_all_length)
qed

subsection \<open>The document determines the request\<close>

definition same_request :: "submission \<Rightarrow> submission \<Rightarrow> bool" where
  "same_request s t \<longleftrightarrow> el_From (sm_Envelope s) = el_From (sm_Envelope t) \<and> el_Recipients (sm_Envelope s) = el_Recipients (sm_Envelope t)
     \<and> av_SHA256 (sm_Archive s) = av_SHA256 (sm_Archive t) \<and> av_Size (sm_Archive s) = av_Size (sm_Archive t)
     \<and> Canonical (sm_Business s) = Canonical (sm_Business t) \<and> CanonicalStream (sm_Stream s) = CanonicalStream (sm_Stream t)
     \<and> gt_instant (sm_ExpiresAt s) = gt_instant (sm_ExpiresAt t) \<and> gt_instant (sm_ScheduleAt s) = gt_instant (sm_ScheduleAt t)
     \<and> sm_Replaces s = sm_Replaces t"

lemma RequestFingerprint_Inr:
  assumes "RequestFingerprint U s = Inr f"
  obtains business stream expiry schedule where
    "digest_text (av_SHA256 (sm_Archive s))" "\<not> is_Inl (CanonicalAddress (el_From (sm_Envelope s)))"
    "list_all (\<lambda>a. \<not> is_Inl (CanonicalAddress a)) (el_Recipients (sm_Envelope s))"
    "Canonical (sm_Business s) = Inr business" "CanonicalStream (sm_Stream s) = Inr stream" "CanonicalExpiry (sm_ExpiresAt s) = Inr expiry"
    "CanonicalExpiry (sm_ScheduleAt s) = Inr schedule" "sm_Replaces s = [] \<or> target_ok U (sm_Replaces s)"
    "f = hex_encode (sha256 (json_text (request_json s business (if stream = ''normal'' then [] else stream) expiry schedule)))"
    "el_Recipients (sm_Envelope s) \<noteq> []" "length (el_Recipients (sm_Envelope s)) \<le> 1000"
  using assms unfolding RequestFingerprint_def Let_def by (auto simp: bind_res_Inr_iff)

lemma request_json_plain:
  assumes "uuid_texts U" and "digest_text (av_SHA256 (sm_Archive s))" "\<not> is_Inl (CanonicalAddress (el_From (sm_Envelope s)))"
    "list_all (\<lambda>a. \<not> is_Inl (CanonicalAddress a)) (el_Recipients (sm_Envelope s))" "Canonical b = Inr business"
    "ascii stream" "ascii expiry" "ascii schedule" "sm_Replaces s = [] \<or> target_ok U (sm_Replaces s)"
  shows "plain (request_json s business stream expiry schedule)"
proof -
  have "ascii (sm_Replaces s)" using assms(1,9) uuid_shape_ascii by (auto simp: target_ok_def uuid_texts_def split: option.split_asm)
  moreover have "list_all ascii (el_Recipients (sm_Envelope s))" using assms(4) CanonicalAddress_ascii by (auto simp: list_all_iff)
  moreover have "ascii (el_From (sm_Envelope s))" "ascii (av_SHA256 (sm_Archive s))" using assms(2,3) CanonicalAddress_ascii digest_ascii by blast+
  moreover have "plain (business_json business)" using assms(5) by (rule Canonical_plain)
  ultimately show ?thesis using assms(6-8)
    by (simp add: request_json_def opt_text_def byte_def list.pred_map comp_def)
qed

lemma map_of_opt: "map_of (opt_text k v @ fs) i = (if i = k \<and> v \<noteq> [] then Some (JStr v) else map_of fs i)"
  by (simp add: opt_text_def)

lemma request_json_inj:
  assumes "request_json s b st ex sc = request_json t b' st' ex' sc'"
  shows "el_From (sm_Envelope s) = el_From (sm_Envelope t)" "el_Recipients (sm_Envelope s) = el_Recipients (sm_Envelope t)"
    "av_SHA256 (sm_Archive s) = av_SHA256 (sm_Archive t)" "av_Size (sm_Archive s) = av_Size (sm_Archive t)"
    "Present b = Present b'" "Present b \<Longrightarrow> business_json b = business_json b'" "st = st'" "ex = ex'" "sc = sc'" "sm_Replaces s = sm_Replaces t"
proof -
  have get: "json_get (request_json s b st ex sc) k = json_get (request_json t b' st' ex' sc') k" for k using assms by simp
  have inj: "inj JStr" by (rule injI) simp
  show "el_From (sm_Envelope s) = el_From (sm_Envelope t)" using get [of "''from''"] by (simp add: request_json_def)
  show "el_Recipients (sm_Envelope s) = el_Recipients (sm_Envelope t)" using get [of "''recipients''"] inj by (simp add: request_json_def inj_map_eq_map)
  show "av_SHA256 (sm_Archive s) = av_SHA256 (sm_Archive t)" using get [of "''sha256''"] by (simp add: request_json_def)
  show "av_Size (sm_Archive s) = av_Size (sm_Archive t)" using get [of "''size''"] by (simp add: request_json_def)
  have o: "map_of (opt_text k v) i = (if i = k \<and> v \<noteq> [] then Some (JStr v) else None)" for k v i by (simp add: opt_text_def)
  have other: "json_get (request_json s b st ex sc) ''business'' = (if Present b then Some (business_json b) else None)"
    "json_get (request_json s b st ex sc) ''stream'' = (if st \<noteq> [] then Some (JStr st) else None)"
    "json_get (request_json s b st ex sc) ''expires_at'' = (if ex \<noteq> [] then Some (JStr ex) else None)"
    "json_get (request_json s b st ex sc) ''schedule_at'' = (if sc \<noteq> [] then Some (JStr sc) else None)"
    "json_get (request_json s b st ex sc) ''replaces'' = (if sm_Replaces s \<noteq> [] then Some (JStr (sm_Replaces s)) else None)" for s b st ex sc
    by (simp_all add: request_json_def map_of_append map_add_def o split: option.split)
  show "Present b = Present b'" "Present b \<Longrightarrow> business_json b = business_json b'" using get [of "''business''"] unfolding other by (simp_all split: if_split_asm)
  show "st = st'" using get [of "''stream''"] unfolding other by (simp split: if_split_asm)
  show "ex = ex'" using get [of "''expires_at''"] unfolding other by (simp split: if_split_asm)
  show "sc = sc'" using get [of "''schedule_at''"] unfolding other by (simp split: if_split_asm)
  show "sm_Replaces s = sm_Replaces t" using get [of "''replaces''"] unfolding other by (simp split: if_split_asm)
qed

lemma business_json_inj: "business_json b = business_json c \<Longrightarrow> b = c"
proof -
  assume "business_json b = business_json c"
  then have "bu_ClientReference b = bu_ClientReference c" "map JStr (bu_Tags b) = map JStr (bu_Tags c)" by (simp_all add: business_json_def)
  moreover have "inj JStr" by (rule injI) simp
  ultimately show ?thesis by (simp add: inj_map_eq_map)
qed

lemma absent_business: "\<not> Present b \<Longrightarrow> \<not> Present c \<Longrightarrow> b = c"
  by (simp add: Present_def)

definition sample_uuid :: "string \<Rightarrow> string option" where
  "sample_uuid s = (if uuid_shape s then Some s else None)"

definition sample_submission :: "string list \<Rightarrow> submission" where
  "sample_submission tags =
     \<lparr>sm_Replaces = [], sm_ScheduleAt = zero_time, sm_ExpiresAt = zero_time, sm_Stream = ''otp'', sm_Business = \<lparr>bu_ClientReference = ''order:7'', bu_Tags = tags\<rparr>,
      sm_ID = ''00000000-0000-7000-8000-000000000001'',
      sm_Envelope = \<lparr>el_Account = \<lparr>ac_ID = [], ac_AllowedFrom = [''a@b.c'']\<rparr>, el_From = ''a@b.c'', el_Recipients = [''x@y.z'']\<rparr>,
      sm_Archive = \<lparr>av_Path = ''/m/1.eml'', av_Size = 10, av_SHA256 = replicate 64 CHR ''0''\<rparr>, sm_MessageID = [], sm_HeaderFrom = ''a@b.c'', sm_Subject = [],
      sm_ReceivedAt = 5, sm_ArchivedAt = 6\<rparr>"

subsection \<open>Property\<close>



end
