(* ===== verification/Storage.thy ===== *)
theory Storage
  imports Message_Fingerprint Smtp_Stream
begin

text \<open>
  The archive of the accepted messages (internal/storage/archive.go) on a file system that distinguishes what a process sees
  from what survives a crash: the entries of a directory are on the disk only after the directory was synchronised, the bytes of a file
  only after the file was. The theory shows that an archive Save reports is on the disk, and that no file that was there
  before is changed.
\<close>

subsection \<open>Paths (path/filepath)\<close>

text \<open>
  A cleaned path is its components, innermost first, and whether it is absolute; filepath.Dir drops the innermost one and stays at the root
  or at the current directory. The root of a store fixes the flag for all its paths, so a path is its components.
\<close>

type_synonym path = "string list"

fun clean_components :: "bool \<Rightarrow> string list \<Rightarrow> path \<Rightarrow> path" where
  "clean_components rooted [] out = out"
| "clean_components rooted (c # cs) out =
     (if c = [] \<or> c = ''.'' then clean_components rooted cs out
      else if c = ''..'' then
        (if out \<noteq> [] \<and> hd out \<noteq> ''..'' then clean_components rooted cs (tl out)
         else if rooted then clean_components rooted cs out else clean_components rooted cs (c # out))
      else clean_components rooted cs (c # out))"

definition rooted_text :: "string \<Rightarrow> bool" where
  "rooted_text s = (s \<noteq> [] \<and> hd s = CHR ''/'')"

definition Clean :: "string \<Rightarrow> path" where
  "Clean s = clean_components (rooted_text s) (split_on (CHR ''/'') s) []"

fun slash_join :: "string list \<Rightarrow> string" where
  "slash_join [] = []"
| "slash_join [c] = c"
| "slash_join (c # d # cs) = c @ ''/'' @ slash_join (d # cs)"

definition path_text :: "bool \<Rightarrow> path \<Rightarrow> string" where
  "path_text rooted p = (if rooted then ''/'' @ slash_join (rev p) else if p = [] then ''.'' else slash_join (rev p))"

text \<open>filepath.Join with elements that are not empty; Format("2006/01/02") of the UTC time gives the three components of the date.\<close>

definition date_components :: "time \<Rightarrow> path" where
  "date_components at =
     (let (y, yd) = year_day (at div (24 * Hour)); (m, k) = month_day (month_lengths y) yd in [pad2 k, pad2 (int m), pad4 y])"

subsection \<open>The file system\<close>

record fs =
  fs_dirs :: "path list"
  fs_names :: "path \<rightharpoonup> nat"
  fs_data :: "nat \<rightharpoonup> string"
  disk_dirs :: "path list"
  disk_names :: "path \<rightharpoonup> nat"
  disk_data :: "nat \<rightharpoonup> string"

text \<open>
  The system calls. The argument \<open>fault\<close> gives the error a call on a path returns, if any, before it has an effect; mkdir fails by itself
  when the parent directory is missing, and the error that the name exists is the one the code ignores.
\<close>

record os =
  os_fault :: "string \<Rightarrow> path \<Rightarrow> err option"
  os_temp :: string
  os_inode :: nat
  os_ctx :: "err option"

definition sys :: "os \<Rightarrow> string \<Rightarrow> path \<Rightarrow> err + unit" where
  "sys w call p = (case os_fault w call p of Some e \<Rightarrow> Inl e | None \<Rightarrow> Inr ())"

definition is_dir :: "fs \<Rightarrow> path \<Rightarrow> bool" where
  "is_dir d p = (p = [] \<or> p \<in> set (fs_dirs d))"

definition exists_name :: "fs \<Rightarrow> path \<Rightarrow> bool" where
  "exists_name d p = (is_dir d p \<or> fs_names d p \<noteq> None)"

definition Mkdir :: "os \<Rightarrow> path \<Rightarrow> fs \<Rightarrow> err + fs" where
  "Mkdir w p d =
     (if exists_name d p then Inr d
      else bind_res (sys w ''mkdir'' p) (\<lambda>_. if is_dir d (tl p) then Inr (d\<lparr>fs_dirs := p # fs_dirs d\<rparr>) else Inl (ErrNew ''no such directory'')))"

text \<open>Synchronising a directory writes its entries: the names of files and of directories whose parent it is.\<close>

definition flush_entries :: "path \<Rightarrow> fs \<Rightarrow> fs" where
  "flush_entries p d = d\<lparr>
     disk_dirs := filter (\<lambda>q. q \<noteq> [] \<and> tl q = p) (fs_dirs d) @ filter (\<lambda>q. q = [] \<or> tl q \<noteq> p) (disk_dirs d),
     disk_names := (\<lambda>q. if q \<noteq> [] \<and> tl q = p then fs_names d q else disk_names d q)\<rparr>"

definition syncDir :: "os \<Rightarrow> path \<Rightarrow> fs \<Rightarrow> err + fs" where
  "syncDir w p d =
     bind_res (sys w ''open'' p) (\<lambda>_. if \<not> is_dir d p then Inl (ErrNew ''no such directory'')
       else bind_res (sys w ''fsync'' p) (\<lambda>_. Inr (flush_entries p d)))"

fun durableDir :: "os \<Rightarrow> path \<Rightarrow> fs \<Rightarrow> (err + unit) \<times> fs" where
  "durableDir w [] d = (Inr (), d)"
| "durableDir w (c # parent) d =
     (case durableDir w parent d of
        (Inl e, d) \<Rightarrow> (Inl e, d)
      | (Inr _, d) \<Rightarrow>
          (case Mkdir w (c # parent) d of
             Inl e \<Rightarrow> (Inl e, d)
           | Inr d \<Rightarrow> (case syncDir w parent d of Inl e \<Rightarrow> (Inl e, d) | Inr d \<Rightarrow> (Inr (), d))))"

subsection \<open>Save\<close>

text \<open>
  io.Copy from a limited reader: each turn asks the context first; the limited reader gives at most the remaining bytes and reports the end
  of the input once they are used up. A write can fail after some of the bytes.
\<close>

fun copy_loop :: "(nat \<Rightarrow> (nat \<times> err) option) \<Rightarrow> nat \<Rightarrow> nat \<Rightarrow> read list \<Rightarrow> string \<Rightarrow> err option \<times> string" where
  "copy_loop werr n remaining rs out =
     (if remaining = 0 then (None, out)
      else case rs of
        [] \<Rightarrow> (Some ErrNoProgress, out)
      | r # rs \<Rightarrow>
          (case rd_ctx r of
             Some e \<Rightarrow> (Some e, out)
           | None \<Rightarrow>
               (let bs = take remaining (rd_bytes r)
                in case (if bs = [] then None else werr n) of
                     Some (k, e) \<Rightarrow> (Some e, out @ take k bs)
                   | None \<Rightarrow>
                       (case rd_end r of
                          Eof \<Rightarrow> (None, out @ bs)
                        | ReadErr e \<Rightarrow> (Some e, out @ bs)
                        | More \<Rightarrow> copy_loop werr (Suc n) (remaining - length bs) rs (out @ bs)))))"

declare copy_loop.simps [simp del]

record local_store =
  ls_Root :: string
  ls_MaxBytes :: int

text \<open>The deferred removal of the temporary name, whose error is ignored.\<close>

definition remove_name :: "os \<Rightarrow> path \<Rightarrow> fs \<Rightarrow> err + fs" where
  "remove_name w p d = bind_res (sys w ''remove'' p) (\<lambda>_. Inr (d\<lparr>fs_names := (fs_names d)(p := None)\<rparr>))"

definition cleanup :: "os \<Rightarrow> path \<Rightarrow> fs \<Rightarrow> fs" where
  "cleanup w p d = (case remove_name w p d of Inl _ \<Rightarrow> d | Inr d \<Rightarrow> d)"

definition link_name :: "os \<Rightarrow> path \<Rightarrow> nat \<Rightarrow> fs \<Rightarrow> err + fs" where
  "link_name w p i d =
     bind_res (sys w ''link'' p) (\<lambda>_. if exists_name d p then Inl (ErrNew ''file exists'') else Inr (d\<lparr>fs_names := (fs_names d)(p \<mapsto> i)\<rparr>))"

definition fsync_file :: "os \<Rightarrow> path \<Rightarrow> nat \<Rightarrow> fs \<Rightarrow> err + fs" where
  "fsync_file w p i d = bind_res (sys w ''fsync'' p) (\<lambda>_. Inr (d\<lparr>disk_data := (disk_data d)(i := fs_data d i)\<rparr>))"

text \<open>What happens between the creation of the temporary file and the removal of its name on return.\<close>

definition publish_file :: "os \<Rightarrow> path \<Rightarrow> path \<Rightarrow> nat \<Rightarrow> fs \<Rightarrow> (err + unit) \<times> fs" where
  "publish_file w temp p i d =
     (case fsync_file w temp i d of Inl e \<Rightarrow> (Inl e, d) | Inr d \<Rightarrow>
     (case sys w ''close'' temp of Inl e \<Rightarrow> (Inl e, d) | Inr _ \<Rightarrow>
     (case link_name w p i d of Inl e \<Rightarrow> (Inl e, d) | Inr d \<Rightarrow>
     (case remove_name w temp d of Inl e \<Rightarrow> (Inl e, d) | Inr d \<Rightarrow>
     (case syncDir w (tl p) d of Inl e \<Rightarrow> (Inl e, d) | Inr d \<Rightarrow> (Inr (), d))))))"

definition temp_path :: "os \<Rightarrow> path \<Rightarrow> path" where
  "temp_path w dir = (''.incoming-'' @ os_temp w) # dir"

definition eml_path :: "string \<Rightarrow> path \<Rightarrow> path" where
  "eml_path i dir = (i @ ''.eml'') # dir"

definition save_content :: "os \<Rightarrow> local_store \<Rightarrow> path \<Rightarrow> path \<Rightarrow> err option \<times> string \<Rightarrow> fs \<Rightarrow> (err + archive) \<times> fs" where
  "save_content w s temp path copied d =
     (case fst copied of
        Some e \<Rightarrow> (Inl e, cleanup w temp d)
      | None \<Rightarrow>
          if int (length (snd copied)) > ls_MaxBytes s then (Inl ErrTooLarge, cleanup w temp d)
          else (case os_ctx w of
              Some e \<Rightarrow> (Inl e, cleanup w temp d)
            | None \<Rightarrow>
                (case publish_file w temp path (os_inode w) d of
                   (Inl e, d) \<Rightarrow> (Inl e, cleanup w temp d)
                 | (Inr _, d) \<Rightarrow>
                     (Inr \<lparr>av_Path = path_text (rooted_text (ls_Root s)) path, av_Size = int (length (snd copied)),
                          av_SHA256 = hex_encode (sha256 (snd copied))\<rparr>, cleanup w temp d))))"

definition save_in :: "os \<Rightarrow> (nat \<Rightarrow> (nat \<times> err) option) \<Rightarrow> local_store \<Rightarrow> string \<Rightarrow> path \<Rightarrow> read list \<Rightarrow> fs \<Rightarrow> (err + archive) \<times> fs" where
  "save_in w werr s i dir reads d =
     (let temp = temp_path w dir
      in case sys w ''create'' temp of
           Inl e \<Rightarrow> (Inl e, d)
         | Inr _ \<Rightarrow>
             (if \<not> is_dir d dir \<or> exists_name d temp \<or> fs_data d (os_inode w) \<noteq> None then (Inl (ErrNew ''cannot create''), d)
              else let copied = copy_loop werr 0 (nat (ls_MaxBytes s + 1)) reads []
                   in save_content w s temp (eml_path i dir) copied
                        (d\<lparr>fs_names := (fs_names d)(temp \<mapsto> os_inode w), fs_data := (fs_data d)(os_inode w \<mapsto> snd copied)\<rparr>)))"

definition Save ::
  "(string \<Rightarrow> string option) \<Rightarrow> os \<Rightarrow> (nat \<Rightarrow> (nat \<times> err) option) \<Rightarrow> local_store \<Rightarrow> string \<Rightarrow> time \<Rightarrow> read list \<Rightarrow> fs \<Rightarrow> (err + archive) \<times> fs" where
  "Save U w werr s i at reads d =
     (if U i = None then (Inl (ErrNew ''invalid UUID''), d)
      else if ls_MaxBytes s \<le> 0 then (Inl (ErrNew ''positive archive size limit required''), d)
      else
        (let dir = date_components at @ Clean (ls_Root s)
         in case durableDir w dir d of
              (Inl e, d) \<Rightarrow> (Inl e, d)
            | (Inr _, d) \<Rightarrow> save_in w werr s i dir reads d))"

subsection \<open>What is on the disk\<close>

fun persisted :: "fs \<Rightarrow> path \<Rightarrow> bool" where
  "persisted d [] = True"
| "persisted d (c # p) = (c # p \<in> set (disk_dirs d) \<and> persisted d p)"

definition after_crash :: "fs \<Rightarrow> path \<Rightarrow> string option" where
  "after_crash d p = (if p \<noteq> [] \<and> persisted d (tl p) then Option.bind (disk_names d p) (disk_data d) else None)"

text \<open>The disk never has more than what the processes see: no name was removed and no content changed since it was written out.\<close>

definition disk_ok :: "fs \<Rightarrow> bool" where
  "disk_ok d \<longleftrightarrow> set (disk_dirs d) \<subseteq> set (fs_dirs d) \<and> disk_names d \<subseteq>\<^sub>m fs_names d \<and> disk_data d \<subseteq>\<^sub>m fs_data d"

text \<open>A change that keeps everything that is on the disk.\<close>

definition disk_le :: "fs \<Rightarrow> fs \<Rightarrow> bool" where
  "disk_le d d' \<longleftrightarrow> set (disk_dirs d) \<subseteq> set (disk_dirs d') \<and> disk_names d \<subseteq>\<^sub>m disk_names d' \<and> disk_data d \<subseteq>\<^sub>m disk_data d'"

lemma map_le_Some: "f \<subseteq>\<^sub>m g \<longleftrightarrow> (\<forall>a v. f a = Some v \<longrightarrow> g a = Some v)"
  by (auto simp: map_le_def dom_def)

lemma disk_le_refl [simp]: "disk_le d d"
  by (simp add: disk_le_def)

lemma disk_le_trans [trans]: "disk_le a b \<Longrightarrow> disk_le b c \<Longrightarrow> disk_le a c"
  unfolding disk_le_def by (meson map_le_trans subset_trans)

lemma persisted_mono: "set (disk_dirs d) \<subseteq> set (disk_dirs d') \<Longrightarrow> persisted d p \<Longrightarrow> persisted d' p"
  by (induction p) auto

lemma disk_le_after_crash:
  assumes "disk_le d d'" and "after_crash d p = Some c"
  shows "after_crash d' p = Some c"
proof -
  from assms(2) obtain i where i: "p \<noteq> []" "persisted d (tl p)" "disk_names d p = Some i" "disk_data d i = Some c"
    by (auto simp: after_crash_def bind_eq_Some_conv split: if_split_asm)
  moreover have "disk_names d' p = Some i" using assms(1) i(3) by (auto simp: disk_le_def map_le_def dom_def)
  moreover have "disk_data d' i = Some c" using assms(1) i(4) by (auto simp: disk_le_def map_le_def dom_def)
  ultimately show ?thesis using persisted_mono assms(1) by (auto simp: after_crash_def disk_le_def)
qed

lemma flush_entries_le: "disk_ok d \<Longrightarrow> disk_le d (flush_entries p d)"
  by (auto simp: disk_ok_def disk_le_def flush_entries_def map_le_def dom_def)

lemma flush_entries_disk_ok: "disk_ok d \<Longrightarrow> disk_ok (flush_entries p d)"
  by (auto simp: disk_ok_def flush_entries_def map_le_def dom_def split: if_split_asm)

lemma syncDir_Inr: "syncDir w p d = Inr d' \<Longrightarrow> is_dir d p \<and> d' = flush_entries p d"
  by (auto simp: syncDir_def bind_res_Inr_iff split: if_split_asm)

lemma Mkdir_Inr: "Mkdir w p d = Inr d' \<Longrightarrow> d' = d \<or> d' = d\<lparr>fs_dirs := p # fs_dirs d\<rparr>"
  by (auto simp: Mkdir_def bind_res_Inr_iff split: if_split_asm)

lemma is_dir_flush [simp]: "is_dir (flush_entries p d) q = is_dir d q"
  by (simp add: is_dir_def flush_entries_def)

lemma Mkdir_disk_ok: "Mkdir w p d = Inr d' \<Longrightarrow> disk_ok d \<Longrightarrow> disk_ok d'"
  by (drule Mkdir_Inr) (auto simp: disk_ok_def)

lemma Mkdir_le: "Mkdir w p d = Inr d' \<Longrightarrow> disk_le d d'"
  by (drule Mkdir_Inr) (auto simp: disk_le_def)

lemma durableDir_disk_ok:
  "disk_ok d \<Longrightarrow> durableDir w p d = (r, d') \<Longrightarrow> disk_ok d' \<and> disk_le d d' \<and> fs_names d' = fs_names d \<and> fs_data d' = fs_data d \<and> disk_data d' = disk_data d"
proof (induction w p d arbitrary: r d' rule: durableDir.induct)
  case (2 w c parent d)
  obtain r1 d1 where 1: "durableDir w parent d = (r1, d1)" by fastforce
  note ih = "2.IH" [OF "2.prems"(1) 1]
  show ?case
  proof (cases r1)
    case (Inl e)
    then have "d' = d1" using "2.prems"(2) 1 by simp
    with ih show ?thesis by simp
  next
    case (Inr u)
    show ?thesis
    proof (cases "Mkdir w (c # parent) d1")
      case (Inl e)
      then have "d' = d1" using "2.prems"(2) 1 Inr by simp
      with ih show ?thesis by simp
    next
      case (Inr d2)
      note m = this
      have s2: "disk_ok d2" "disk_le d1 d2" "fs_names d2 = fs_names d1" "fs_data d2 = fs_data d1" "disk_data d2 = disk_data d1"
        using Mkdir_disk_ok [OF m] Mkdir_le [OF m] Mkdir_Inr [OF m] ih by (simp_all, auto)
      have d': "d' = d2 \<or> d' = flush_entries parent d2"
      proof (cases "syncDir w parent d2")
        case (Inl e)
        then show ?thesis using "2.prems"(2) 1 \<open>r1 = Inr u\<close> m by simp
      next
        case (Inr d3)
        then show ?thesis using "2.prems"(2) 1 \<open>r1 = Inr u\<close> m syncDir_Inr [OF Inr] by simp
      qed
      have f: "fs_names (flush_entries parent d2) = fs_names d2" "fs_data (flush_entries parent d2) = fs_data d2" "disk_data (flush_entries parent d2) = disk_data d2"
        by (simp_all add: flush_entries_def)
      have le: "disk_le d d2" using ih s2(2) disk_le_trans by blast
      have "disk_le d (flush_entries parent d2)" using le flush_entries_le [OF s2(1)] disk_le_trans by blast
      then show ?thesis using d' f le s2 ih flush_entries_disk_ok [OF s2(1)] by (elim disjE) simp_all
    qed
  qed
qed auto

text \<open>After durableDir every directory on the way, and the directory itself, is on the disk.\<close>

lemma persisted_flush: "disk_ok d \<Longrightarrow> persisted d p \<Longrightarrow> persisted (flush_entries q d) p"
  by (rule persisted_mono) (use flush_entries_le in \<open>auto simp: disk_le_def\<close>)

lemma durableDir_persisted:
  "disk_ok d \<Longrightarrow> durableDir w p d = (Inr (), d') \<Longrightarrow> is_dir d' p \<Longrightarrow> persisted d' p"
proof (induction w p d arbitrary: d' rule: durableDir.induct)
  case (2 w c parent d)
  from "2.prems"(2) obtain d1 d2 where 1: "durableDir w parent d = (Inr (), d1)" and m: "Mkdir w (c # parent) d1 = Inr d2"
    and s: "syncDir w parent d2 = Inr d'" by (auto split: prod.split_asm sum.split_asm)
  have s1: "disk_ok d1" using durableDir_disk_ok [OF "2.prems"(1) 1] by blast
  have "is_dir d2 parent" and d': "d' = flush_entries parent d2" using syncDir_Inr [OF s] by auto
  then have "is_dir d1 parent" using Mkdir_Inr [OF m] by (auto simp: is_dir_def)
  then have "persisted d1 parent" using "2.IH" "2.prems"(1) 1 by blast
  then have "persisted d2 parent" using persisted_mono Mkdir_le [OF m] by (auto simp: disk_le_def)
  then have "persisted d' parent" unfolding d' using persisted_flush Mkdir_disk_ok [OF m s1] by blast
  moreover have "c # parent \<in> set (disk_dirs d')" using "2.prems"(3) unfolding d' by (auto simp: is_dir_def flush_entries_def)
  ultimately show ?case by simp
qed auto

subsection \<open>The bytes copied\<close>

text \<open>What a reader delivers up to the end of its input, if nothing fails before.\<close>

fun delivered :: "read list \<Rightarrow> string option" where
  "delivered [] = None"
| "delivered (r # rs) =
     (if rd_ctx r \<noteq> None then None
      else case rd_end r of Eof \<Rightarrow> Some (rd_bytes r) | ReadErr _ \<Rightarrow> None | More \<Rightarrow> map_option (\<lambda>s. rd_bytes r @ s) (delivered rs))"

lemma copy_loop_simps [simp]: "copy_loop werr n 0 rs out = (None, out)" "remaining \<noteq> 0 \<Longrightarrow> copy_loop werr n remaining [] out = (Some ErrNoProgress, out)"
  by (subst copy_loop.simps, simp)+

lemma copy_loop_Cons:
  "remaining \<noteq> 0 \<Longrightarrow> copy_loop werr n remaining (r # rs) out =
     (case rd_ctx r of
        Some e \<Rightarrow> (Some e, out)
      | None \<Rightarrow>
          (let bs = take remaining (rd_bytes r)
           in case (if bs = [] then None else werr n) of
                Some (k, e) \<Rightarrow> (Some e, out @ take k bs)
              | None \<Rightarrow>
                  (case rd_end r of
                     Eof \<Rightarrow> (None, out @ bs)
                   | ReadErr e \<Rightarrow> (Some e, out @ bs)
                   | More \<Rightarrow> copy_loop werr (Suc n) (remaining - length bs) rs (out @ bs))))"
  by (subst copy_loop.simps) simp

lemma copy_loop_delivered:
  "copy_loop werr n remaining rs out = (None, c) \<Longrightarrow> length c < length out + remaining \<Longrightarrow> \<exists>s. delivered rs = Some s \<and> c = out @ s"
proof (induction werr n remaining rs out rule: copy_loop.induct)
  case (1 werr n remaining rs out)
  have pos: "remaining \<noteq> 0" using "1.prems" by (intro notI) simp
  then obtain r rs' where rs: "rs = r # rs'" using "1.prems"(1) by (cases rs) simp_all
  have ctx: "rd_ctx r = None" using "1.prems"(1) pos rs by (cases "rd_ctx r") (simp_all add: copy_loop_Cons)
  let ?bs = "take remaining (rd_bytes r)"
  have w: "(if ?bs = [] then None else werr n) = None"
    using "1.prems"(1) pos rs ctx by (cases "if ?bs = [] then None else werr n") (auto simp: copy_loop_Cons Let_def)
  have step: "(case rd_end r of Eof \<Rightarrow> (None, out @ ?bs) | ReadErr e \<Rightarrow> (Some e, out @ ?bs)
      | More \<Rightarrow> copy_loop werr (Suc n) (remaining - length ?bs) rs' (out @ ?bs)) = (None, c)"
    using "1.prems"(1) pos rs ctx w unfolding rs copy_loop_Cons [OF pos] by (simp add: Let_def)
  show ?case
  proof (cases "rd_end r")
    case More
    have c: "copy_loop werr (Suc n) (remaining - length ?bs) rs' (out @ ?bs) = (None, c)" using step More by simp
    have len: "length c < length (out @ ?bs) + (remaining - length ?bs)" using "1.prems"(2) by simp
    from "1.IH" [OF pos rs ctx refl w More c len] obtain s where s: "delivered rs' = Some s" "c = (out @ ?bs) @ s" by blast
    moreover have "?bs = rd_bytes r" using len s(2) "1.prems"(2) by simp
    ultimately show ?thesis using ctx More rs by simp
  next
    case Eof
    then have "c = out @ ?bs" using step by simp
    moreover from this have "?bs = rd_bytes r" using "1.prems"(2) by simp
    ultimately show ?thesis using ctx Eof rs by simp
  next
    case (ReadErr e)
    then show ?thesis using step by simp
  qed
qed

subsection \<open>Publication\<close>

text \<open>Inside Save only the temporary name may be visible without being meant to stay.\<close>

definition in_save :: "fs \<Rightarrow> path \<Rightarrow> fs \<Rightarrow> bool" where
  "in_save d temp x \<longleftrightarrow> disk_ok (x\<lparr>fs_names := (fs_names x)(temp := None)\<rparr>) \<and> disk_le d x \<and> fs_names d temp = None
     \<and> fs_names d \<subseteq>\<^sub>m fs_names x \<and> fs_data d \<subseteq>\<^sub>m fs_data x"

lemma in_save_create:
  assumes "disk_ok d" "fs_names d temp = None" "fs_data d i = None"
  shows "in_save d temp (d\<lparr>fs_names := (fs_names d)(temp \<mapsto> i), fs_data := (fs_data d)(i \<mapsto> c)\<rparr>)"
  using assms by (auto simp: in_save_def disk_ok_def disk_le_def map_le_def dom_def)

lemma in_save_fsync:
  assumes "in_save d temp x" "fsync_file w p i x = Inr y"
  shows "in_save d temp y" "disk_data y i = fs_data x i" "fs_names y = fs_names x" "disk_names y = disk_names x" "fs_data y = fs_data x"
    "fs_dirs y = fs_dirs x" "disk_dirs y = disk_dirs x"
proof -
  have y: "y = x\<lparr>disk_data := (disk_data x)(i := fs_data x i)\<rparr>" using assms(2) by (auto simp: fsync_file_def bind_res_Inr_iff)
  have "disk_data d \<subseteq>\<^sub>m disk_data x" "disk_data x \<subseteq>\<^sub>m fs_data x" using assms(1) by (auto simp: in_save_def disk_ok_def disk_le_def)
  then have "disk_data d \<subseteq>\<^sub>m (disk_data x)(i := fs_data x i)" "(disk_data x)(i := fs_data x i) \<subseteq>\<^sub>m fs_data x" by (auto simp: map_le_Some)
  then show "in_save d temp y" using assms(1) unfolding y by (simp add: in_save_def disk_ok_def disk_le_def)
qed (use assms in \<open>auto simp: fsync_file_def bind_res_Inr_iff\<close>)

lemma in_save_link:
  assumes "in_save d temp x" "link_name w p i x = Inr y" "p \<noteq> temp"
  shows "in_save d temp y" "y = x\<lparr>fs_names := (fs_names x)(p \<mapsto> i)\<rparr>" "fs_names x p = None"
proof -
  show y: "y = x\<lparr>fs_names := (fs_names x)(p \<mapsto> i)\<rparr>" and p: "fs_names x p = None"
    using assms(2) by (auto simp: link_name_def bind_res_Inr_iff exists_name_def split: if_split_asm)
  show "in_save d temp y"
    using assms(1,3) p unfolding y by (auto simp: in_save_def disk_ok_def disk_le_def map_le_def dom_def)
qed

lemma in_save_remove:
  assumes "in_save d temp x" "remove_name w temp x = Inr y"
  shows "in_save d temp y" "y = x\<lparr>fs_names := (fs_names x)(temp := None)\<rparr>" "disk_ok y"
proof -
  show y: "y = x\<lparr>fs_names := (fs_names x)(temp := None)\<rparr>" using assms(2) by (auto simp: remove_name_def bind_res_Inr_iff)
  show "disk_ok y" using assms(1) unfolding y in_save_def by simp
  show "in_save d temp y" using assms(1) unfolding y by (auto simp: in_save_def disk_ok_def disk_le_def map_le_def dom_def)
qed

lemma in_save_disk_ok:
  assumes "in_save d temp x"
  shows "disk_ok x"
  using assms unfolding in_save_def disk_ok_def map_le_Some by (auto split: if_split_asm, metis option.discI)

lemma in_save_cleanup:
  assumes "in_save d temp x"
  shows "in_save d temp (cleanup w temp x)"
  using assms in_save_remove(1) [OF assms] by (auto simp: cleanup_def split: sum.split)

lemma in_save_flush:
  assumes "in_save d temp x" "fs_names x temp = None"
  shows "in_save d temp (flush_entries p x)"
proof -
  have "disk_ok x" by (rule in_save_disk_ok [OF assms(1)])
  then have "disk_ok (flush_entries p x)" "disk_le x (flush_entries p x)" by (simp_all add: flush_entries_disk_ok flush_entries_le)
  moreover have "(flush_entries p x)\<lparr>fs_names := (fs_names (flush_entries p x))(temp := None)\<rparr> = flush_entries p x"
    using assms(2) by (simp add: flush_entries_def fun_upd_idem)
  moreover have "fs_names (flush_entries p x) = fs_names x" "fs_data (flush_entries p x) = fs_data x" by (simp_all add: flush_entries_def)
  moreover have "disk_le d (flush_entries p x)" using assms(1) disk_le_trans calculation(2) unfolding in_save_def by blast
  ultimately show ?thesis using assms(1) unfolding in_save_def by simp
qed

text \<open>The file has its content on the disk before its name, and the directory is written out last.\<close>

lemma publish_file_safe:
  assumes "in_save d temp x" "p \<noteq> temp" "publish_file w temp p i x = (r, y)"
  shows "in_save d temp y"
proof (cases "fsync_file w temp i x")
  case (Inl e)
  then show ?thesis using assms(1,3) by (simp add: publish_file_def)
next
  case (Inr x1)
  note f = this note x1 = in_save_fsync(1) [OF assms(1) f]
  show ?thesis
  proof (cases "sys w ''close'' temp = Inr () \<and> (\<exists>x2. link_name w p i x1 = Inr x2)")
    case False
    then have "y = x1" using assms(3) f by (auto simp: publish_file_def split: sum.split_asm)
    with x1 show ?thesis by simp
  next
    case True
    then obtain x2 where l: "link_name w p i x1 = Inr x2" by blast
    note x2 = in_save_link(1) [OF x1 l assms(2)]
    show ?thesis
    proof (cases "remove_name w temp x2")
      case (Inl e)
      then have "y = x2" using assms(3) f True l by (simp add: publish_file_def)
      with x2 show ?thesis by simp
    next
      case (Inr x3)
      note x3 = in_save_remove [OF x2 Inr]
      have "y = x3 \<or> y = flush_entries (tl p) x3"
        using assms(3) f True l Inr syncDir_Inr by (cases "syncDir w (tl p) x3") (auto simp: publish_file_def)
      moreover have "fs_names x3 temp = None" by (simp add: x3(2))
      ultimately show ?thesis using x3(1) in_save_flush [OF x3(1)] by blast
    qed
  qed
qed

lemma publish_file_durable:
  assumes "in_save d temp x" "p \<noteq> temp" "p \<noteq> []" "publish_file w temp p i x = (Inr u, y)" "persisted x (tl p)" "fs_data x i = Some c"
  shows "after_crash y p = Some c" "fs_names x p = None" "fs_names y p = Some i"
proof -
  from assms(4) obtain x1 x2 x3 where f: "fsync_file w temp i x = Inr x1" and l: "link_name w p i x1 = Inr x2" and r: "remove_name w temp x2 = Inr x3"
    and s: "syncDir w (tl p) x3 = Inr y" unfolding publish_file_def by (auto split: sum.split_asm)
  note a = in_save_fsync [OF assms(1) f] note b = in_save_link [OF a(1) l assms(2)] note c = in_save_remove [OF b(1) r]
  have y: "y = flush_entries (tl p) x3" using syncDir_Inr [OF s] by blast
  show "fs_names x p = None" using b(3) a(3) by simp
  have n: "fs_names x3 p = Some i" using c(2) b(2) assms(2) by simp
  then show "fs_names y p = Some i" by (simp add: y flush_entries_def)
  have "disk_names y p = Some i" using n assms(3) by (simp add: y flush_entries_def)
  moreover have "disk_data y i = Some c" using assms(6) a(2) b(2) c(2) by (simp add: y flush_entries_def)
  moreover have "persisted y (tl p)"
  proof -
    have "persisted x3 (tl p)" by (rule persisted_mono [OF _ assms(5)]) (simp add: c(2) b(2) a(7))
    then show ?thesis unfolding y by (rule persisted_flush [OF c(3)])
  qed
  ultimately show "after_crash y p = Some c" using assms(3) by (simp add: after_crash_def)
qed

lemma eml_not_temp: "i \<noteq> [] \<Longrightarrow> hd i \<noteq> CHR ''.'' \<Longrightarrow> eml_path i dir \<noteq> temp_path w dir"
  by (cases i) (auto simp: eml_path_def temp_path_def)

lemma save_content_safe:
  assumes "in_save d temp x" "path \<noteq> temp" "save_content w s temp path copied x = (r, y)"
  shows "in_save d temp y"
proof -
  obtain r2 z where p: "publish_file w temp path (os_inode w) x = (r2, z)" by fastforce
  have "y = cleanup w temp x \<or> y = cleanup w temp z"
    using assms(3) p by (auto simp: save_content_def split: option.split_asm if_split_asm sum.split_asm)
  then show ?thesis using in_save_cleanup [OF assms(1)] in_save_cleanup [OF publish_file_safe [OF assms(1,2) p]] by blast
qed

lemma save_content_durable:
  assumes "in_save d temp x" "path \<noteq> temp" "path \<noteq> []" "persisted x (tl path)" "fs_data x (os_inode w) = Some (snd copied)"
    "save_content w s temp path copied x = (Inr a, y)"
  shows "fst copied = None" "int (length (snd copied)) \<le> ls_MaxBytes s" "after_crash y path = Some (snd copied)" "fs_names x path = None"
    "a = \<lparr>av_Path = path_text (rooted_text (ls_Root s)) path, av_Size = int (length (snd copied)), av_SHA256 = hex_encode (sha256 (snd copied))\<rparr>"
proof -
  obtain r2 z where p: "publish_file w temp path (os_inode w) x = (r2, z)" by fastforce
  have "\<exists>u. r2 = Inr u" and y: "y = cleanup w temp z"
    using assms(6) p by (auto simp: save_content_def split: option.split_asm if_split_asm sum.split_asm)
  then obtain u where "publish_file w temp path (os_inode w) x = (Inr u, z)" using p by blast
  note q = publish_file_durable [OF assms(1-3) this assms(4,5)]
  show "fs_names x path = None" by (rule q(2))
  have "after_crash (z\<lparr>fs_names := g\<rparr>) path = after_crash z path" for g
    using persisted_mono [of z "z\<lparr>fs_names := g\<rparr>"] persisted_mono [of "z\<lparr>fs_names := g\<rparr>" z] by (auto simp: after_crash_def)
  then show "after_crash y path = Some (snd copied)"
    using q(1) by (auto simp: y cleanup_def remove_name_def split: sum.split elim: bind_res_InrE)
qed (use assms(6) in \<open>auto simp: save_content_def split: option.split_asm if_split_asm sum.split_asm prod.split_asm\<close>)

lemma save_in_cases:
  assumes "save_in w werr s i dir reads d = (r, d')"
  obtains "d' = d" "is_Inl r" | "is_dir d dir" "fs_names d (temp_path w dir) = None" "fs_data d (os_inode w) = None"
    "save_content w s (temp_path w dir) (eml_path i dir) (copy_loop werr 0 (nat (ls_MaxBytes s + 1)) reads [])
       (d\<lparr>fs_names := (fs_names d)(temp_path w dir \<mapsto> os_inode w), fs_data := (fs_data d)(os_inode w \<mapsto> snd (copy_loop werr 0 (nat (ls_MaxBytes s + 1)) reads []))\<rparr>) = (r, d')"
proof (cases "d' = d \<and> is_Inl r")
  case True
  then show thesis using that(1) by blast
next
  case False
  then have "sys w ''create'' (temp_path w dir) = Inr ()" "is_dir d dir \<and> \<not> exists_name d (temp_path w dir) \<and> fs_data d (os_inode w) = None"
    using assms by (auto simp: save_in_def Let_def is_Inl_def split: sum.split_asm if_split_asm)
  then show thesis using assms by (intro that(2)) (auto simp: save_in_def Let_def exists_name_def)
qed

lemma save_in_safe:
  assumes "disk_ok d" "i \<noteq> [] \<and> hd i \<noteq> CHR ''.''" "save_in w werr s i dir reads d = (r, d')"
  shows "in_save d (temp_path w dir) d' \<or> d' = d"
  using assms(3)
proof (rule save_in_cases)
  assume f: "fs_names d (temp_path w dir) = None" "fs_data d (os_inode w) = None"
    and c: "save_content w s (temp_path w dir) (eml_path i dir) (copy_loop werr 0 (nat (ls_MaxBytes s + 1)) reads [])
       (d\<lparr>fs_names := (fs_names d)(temp_path w dir \<mapsto> os_inode w), fs_data := (fs_data d)(os_inode w \<mapsto> snd (copy_loop werr 0 (nat (ls_MaxBytes s + 1)) reads []))\<rparr>) = (r, d')"
  show ?thesis by (rule disjI1, rule save_content_safe [OF in_save_create [OF assms(1) f] _ c]) (use eml_not_temp assms(2) in blast)
qed simp

lemma Save_cases:
  assumes "Save U w werr s i at reads d = (r, d')"
  obtains "d' = d" "is_Inl r" | e where "U i \<noteq> None" "durableDir w (date_components at @ Clean (ls_Root s)) d = (Inl e, d')" "is_Inl r"
  | d1 where "U i \<noteq> None" "0 < ls_MaxBytes s" "durableDir w (date_components at @ Clean (ls_Root s)) d = (Inr (), d1)"
      "save_in w werr s i (date_components at @ Clean (ls_Root s)) reads d1 = (r, d')"
  using assms by (auto simp: Save_def Let_def is_Inl_def split: if_split_asm prod.split_asm sum.split_asm)

lemma uuid_shape_head: "uuid_shape i \<Longrightarrow> i \<noteq> [] \<and> hd i \<noteq> CHR ''.''"
proof -
  assume "uuid_shape i"
  then have "length i = 36" "i ! 0 \<in> set ''0123456789abcdef''" unfolding uuid_shape_def list_all_iff by (blast, force)
  then show ?thesis by (cases i) auto
qed

definition archive_path :: "local_store \<Rightarrow> string \<Rightarrow> time \<Rightarrow> path" where
  "archive_path s i at = eml_path i (date_components at @ Clean (ls_Root s))"

lemma Save_safe:
  assumes "disk_ok d" "Save U w werr s i at reads d = (r, d')" "uuid_shape i"
  shows "disk_ok d'" "disk_le d d'" "fs_names d \<subseteq>\<^sub>m fs_names d'" "fs_data d \<subseteq>\<^sub>m fs_data d'"
proof -
  have "disk_ok d' \<and> disk_le d d' \<and> fs_names d \<subseteq>\<^sub>m fs_names d' \<and> fs_data d \<subseteq>\<^sub>m fs_data d'"
  proof (rule Save_cases [OF assms(2)])
    fix d1 assume m: "durableDir w (date_components at @ Clean (ls_Root s)) d = (Inr (), d1)"
      and v: "save_in w werr s i (date_components at @ Clean (ls_Root s)) reads d1 = (r, d')"
    note d1 = durableDir_disk_ok [OF assms(1) m]
    have "in_save d1 (temp_path w (date_components at @ Clean (ls_Root s))) d' \<or> d' = d1"
      by (rule save_in_safe) (use d1 uuid_shape_head [OF assms(3)] v in blast)+
    then show ?thesis
    proof
      assume "in_save d1 (temp_path w (date_components at @ Clean (ls_Root s))) d'"
      then show ?thesis using in_save_disk_ok d1 disk_le_trans [of d d1 d'] unfolding in_save_def by metis
    qed (use d1 in simp)
  qed (use assms(1) durableDir_disk_ok [OF assms(1)] in auto)
  then show "disk_ok d'" "disk_le d d'" "fs_names d \<subseteq>\<^sub>m fs_names d'" "fs_data d \<subseteq>\<^sub>m fs_data d'" by blast+
qed

lemma Save_durable:
  assumes "disk_ok d" "Save U w werr s i at reads d = (Inr a, d')" "uuid_shape i"
  obtains c where "delivered reads = Some c" "int (length c) \<le> ls_MaxBytes s" "fs_names d (archive_path s i at) = None"
    "after_crash d' (archive_path s i at) = Some c"
    "a = \<lparr>av_Path = path_text (rooted_text (ls_Root s)) (archive_path s i at), av_Size = int (length c), av_SHA256 = hex_encode (sha256 c)\<rparr>"
proof -
  let ?dir = "date_components at @ Clean (ls_Root s)"
  obtain d1 where m: "durableDir w ?dir d = (Inr (), d1)" and v: "save_in w werr s i ?dir reads d1 = (Inr a, d')" and pos: "0 < ls_MaxBytes s"
    by (rule Save_cases [OF assms(2)]) (auto simp: is_Inl_def)
  note d1 = durableDir_disk_ok [OF assms(1) m]
  let ?copied = "copy_loop werr 0 (nat (ls_MaxBytes s + 1)) reads []"
  let ?x = "d1\<lparr>fs_names := (fs_names d1)(temp_path w ?dir \<mapsto> os_inode w), fs_data := (fs_data d1)(os_inode w \<mapsto> snd ?copied)\<rparr>"
  obtain dr: "is_dir d1 ?dir" "fs_names d1 (temp_path w ?dir) = None" "fs_data d1 (os_inode w) = None"
    and sc: "save_content w s (temp_path w ?dir) (eml_path i ?dir) ?copied ?x = (Inr a, d')"
    by (rule save_in_cases [OF v]) (auto simp: is_Inl_def)
  have x: "in_save d1 (temp_path w ?dir) ?x" by (rule in_save_create [OF conjunct1 [OF d1] dr(2,3)])
  have "persisted d1 ?dir" by (rule durableDir_persisted [OF assms(1) m dr(1)])
  then have pers: "persisted ?x (tl (eml_path i ?dir))" unfolding eml_path_def list.sel by (rule persisted_mono [rotated]) simp
  note q = save_content_durable [OF x eml_not_temp _ pers _ sc]
  have i: "i \<noteq> []" "hd i \<noteq> CHR ''.''" using uuid_shape_head [OF assms(3)] by blast+
  have ne: "eml_path i ?dir \<noteq> []" by (simp add: eml_path_def)
  have none: "fst ?copied = None" and len: "int (length (snd ?copied)) \<le> ls_MaxBytes s" and on: "after_crash d' (eml_path i ?dir) = Some (snd ?copied)"
    and new: "fs_names ?x (eml_path i ?dir) = None"
    and a: "a = \<lparr>av_Path = path_text (rooted_text (ls_Root s)) (eml_path i ?dir), av_Size = int (length (snd ?copied)), av_SHA256 = hex_encode (sha256 (snd ?copied))\<rparr>"
    using q i ne by simp_all
  have "delivered reads = Some (snd ?copied)"
    using copy_loop_delivered [of werr 0 "nat (ls_MaxBytes s + 1)" reads "[]" "snd ?copied"] none len pos by (cases ?copied) auto
  moreover have "fs_names d (eml_path i ?dir) = None" using new d1 eml_not_temp [OF i] by (auto split: if_split_asm)
  ultimately show thesis using that [of "snd ?copied"] len on a by (simp add: archive_path_def)
qed

subsection \<open>The promise of Save\<close>

text \<open>
  C29: Whatever fails during Save, and wherever, no file or archive that was visible or on the disk before is lost or changed. When it reports an archive,
  the name is new, and after a crash at any later moment the file is found under that name with exactly the bytes that were read
  to their end, at most the configured number, with the reported size and SHA-256 digest.
\<close>

theorem archive_durable:
  assumes "disk_ok d" and "Save U w werr s i at reads d = (r, d')" and "uuid_shape i"
  shows "disk_ok d' \<and> fs_names d \<subseteq>\<^sub>m fs_names d' \<and> fs_data d \<subseteq>\<^sub>m fs_data d'
    \<and> (\<forall>p c. after_crash d p = Some c \<longrightarrow> after_crash d' p = Some c)
    \<and> (\<forall>a. r = Inr a \<longrightarrow> (\<exists>c. delivered reads = Some c \<and> int (length c) \<le> ls_MaxBytes s
         \<and> fs_names d (archive_path s i at) = None \<and> after_crash d' (archive_path s i at) = Some c
         \<and> a = \<lparr>av_Path = path_text (rooted_text (ls_Root s)) (archive_path s i at), av_Size = int (length c), av_SHA256 = hex_encode (sha256 c)\<rparr>))"
proof -
  note safe = Save_safe [OF assms]
  have "\<forall>p c. after_crash d p = Some c \<longrightarrow> after_crash d' p = Some c" using disk_le_after_crash [OF safe(2)] by blast
  moreover have "\<exists>c. delivered reads = Some c \<and> int (length c) \<le> ls_MaxBytes s
      \<and> fs_names d (archive_path s i at) = None \<and> after_crash d' (archive_path s i at) = Some c
      \<and> a = \<lparr>av_Path = path_text (rooted_text (ls_Root s)) (archive_path s i at), av_Size = int (length c), av_SHA256 = hex_encode (sha256 c)\<rparr>"
    if "r = Inr a" for a
    using Save_durable [OF assms(1) assms(2) [unfolded that] assms(3)] by blast
  ultimately show ?thesis using safe by blast
qed

definition sample_fs :: fs where
  "sample_fs = \<lparr>fs_dirs = [], fs_names = Map.empty, fs_data = Map.empty, disk_dirs = [], disk_names = Map.empty, disk_data = Map.empty\<rparr>"

definition sample_os :: os where
  "sample_os = \<lparr>os_fault = (\<lambda>call p. None), os_temp = ''1'', os_inode = 7, os_ctx = None\<rparr>"

definition sample_id :: string where
  "sample_id = ''01890000-0000-7000-8000-000000000001''"

definition sample_reads :: "read list" where
  "sample_reads = [\<lparr>rd_ctx = None, rd_bytes = ''ab'', rd_end = More\<rparr>, \<lparr>rd_ctx = None, rd_bytes = ''c'', rd_end = Eof\<rparr>]"

theorem archive_durable_witness:
  "after_crash (snd (Save sample_uuid sample_os (\<lambda>_. None) \<lparr>ls_Root = ''data'', ls_MaxBytes = 3\<rparr> sample_id 0 sample_reads sample_fs))
     [sample_id @ ''.eml'', ''01'', ''01'', ''0001'', ''data''] = Some ''abc''"
proof -
  let ?s = "\<lparr>ls_Root = ''data'', ls_MaxBytes = 3\<rparr> :: local_store"
  let ?r = "Save sample_uuid sample_os (\<lambda>_. None) ?s sample_id 0 sample_reads sample_fs"
  have shape: "uuid_shape sample_id" by code_simp
  have dir: "date_components 0 @ Clean ''data'' = [''01'', ''01'', ''0001'', ''data'']" by code_simp
  have "disk_ok sample_fs" by (simp add: disk_ok_def sample_fs_def)
  moreover obtain a where "fst ?r = Inr a"
  proof -
    have "copy_loop (\<lambda>_. None) 0 4 sample_reads [] = (None, ''abc'')" by (simp add: sample_reads_def copy_loop_Cons)
    moreover have "temp_path sample_os [''01'', ''01'', ''0001'', ''data''] = [''.incoming-1'', ''01'', ''01'', ''0001'', ''data'']"
      by (simp add: temp_path_def sample_os_def)
    ultimately have "\<exists>a. fst ?r = Inr a"
      using shape by (simp add: Save_def dir sample_uuid_def sample_fs_def save_in_def save_content_def publish_file_def fsync_file_def link_name_def
        remove_name_def syncDir_def flush_entries_def Mkdir_def sys_def is_dir_def exists_name_def eml_path_def sample_os_def temp_path_def Let_def)
    then show thesis using that by blast
  qed
  moreover have "delivered sample_reads = Some ''abc''" by (simp add: sample_reads_def)
  moreover have "archive_path ?s sample_id 0 = [sample_id @ ''.eml'', ''01'', ''01'', ''0001'', ''data'']"
    by (simp add: archive_path_def eml_path_def dir)
  ultimately show ?thesis
    using archive_durable [OF _ surjective_pairing shape, of sample_fs sample_uuid sample_os "\<lambda>_. None" ?s 0 sample_reads] by (metis option.inject)
qed

end
