(* ===== verification/Message_Ledger.thy ===== *)
theory Message_Ledger
  imports Message_Fingerprint Queue_Arrival
begin

text \<open>
  What accepting a request through the API promises: a request that was accepted once is answered with the same message for ever after, the
  budgets of the website and of the stream hold after every acceptance, and nothing is published before the request is admitted.
\<close>

subsection \<open>What the steps of a request change\<close>

lemma insert_usage_Inr:
  "insert_usage u st = Inr st' \<longleftrightarrow> st' = st\<lparr>usage := usage st @ [u]\<rparr> \<and> 1 \<le> u_units u \<and> u_units u \<le> 1000 \<and> (\<forall>v \<in> set (usage st). u_message_id v \<noteq> u_message_id u)
     \<and> (\<exists>l \<in> set (ledger st). l_api_key_id l = u_api_key_id u \<and> l_message_id l = u_message_id u)"
  by (auto simp: insert_usage_def)

lemma reserveSubmission_Inr:
  assumes "reserveSubmission E identity mid units stream expiresAt scheduleAt bytes st = Inr st'"
  obtains name k sr where "CanonicalStream stream = Inr name" "k \<in> set (api_keys st)" "k_id k = identity" "k_enabled k"
    "IsZero expiresAt \<or> clk E 30 < expiresAt \<and> expiresAt \<le> clk E 30 + 720 * Hour" "admitSchedule E identity scheduleAt expiresAt bytes st = Inr ()"
    "within_limits [k_minute_limit k, k_hour_limit k, k_day_limit k] (used_units (clk E 33) (\<lambda>u. u_api_key_id u = identity) st) units"
    "sr \<in> set (message_streams (core st))" "st_api_key_id sr = identity" "st_name sr = name" "st_enabled sr"
    "within_limits [st_minute_limit sr, st_hour_limit sr, st_day_limit sr] (used_units (clk E 34) (\<lambda>u. u_api_key_id u = identity \<and> u_stream u = name) st) units"
    "insert_usage \<lparr>u_message_id = mid, u_api_key_id = identity, u_reserved_at = clk E 35, u_units = units, u_stream = name\<rparr> st = Inr st'"
proof -
  from assms obtain name k where a: "CanonicalStream stream = Inr name" "query_row (\<lambda>k. k_id k = identity) (api_keys st) = Inr k"
    "IsZero expiresAt \<or> \<not> expiresAt \<le> clk E 30" "IsZero expiresAt \<or> \<not> expiresAt > clk E 30 + 720 * Hour"
    "admitSchedule E identity scheduleAt expiresAt bytes st = Inr ()" "k_enabled k"
    "within_limits [k_minute_limit k, k_hour_limit k, k_day_limit k] (used_units (clk E 33) (\<lambda>u. u_api_key_id u = identity) st) units"
    and rest: "(case find (\<lambda>s. st_api_key_id s = identity \<and> st_name s = name) (message_streams (core st)) of None \<Rightarrow> Inl ErrStreamDenied
        | Some s \<Rightarrow> bind_res (guard_res (st_enabled s) ErrStreamDenied) (\<lambda>_.
            let limits = [st_minute_limit s, st_hour_limit s, st_day_limit s]
            in bind_res (guard_res (batch_fits limits units) ErrSubmissionBatchTooLarge) (\<lambda>_.
               bind_res (guard_res (within_limits limits (used_units (clk E 34) (\<lambda>u. u_api_key_id u = identity \<and> u_stream u = name) st) units)
                  ErrStreamBudget) (\<lambda>_.
               insert_usage \<lparr>u_message_id = mid, u_api_key_id = identity, u_reserved_at = clk E 35, u_units = units, u_stream = name\<rparr> st)))) = Inr st'"
    unfolding reserveSubmission_def Let_def bind_res_Inr_iff guard_res_Inr_iff by (elim exE conjE) simp
  from rest obtain sr where s: "find (\<lambda>s. st_api_key_id s = identity \<and> st_name s = name) (message_streams (core st)) = Some sr" "st_enabled sr"
    "within_limits [st_minute_limit sr, st_hour_limit sr, st_day_limit sr] (used_units (clk E 34) (\<lambda>u. u_api_key_id u = identity \<and> u_stream u = name) st) units"
    "insert_usage \<lparr>u_message_id = mid, u_api_key_id = identity, u_reserved_at = clk E 35, u_units = units, u_stream = name\<rparr> st = Inr st'"
    by (auto simp: bind_res_Inr_iff Let_def split: option.split_asm)
  have "sr \<in> set (message_streams (core st))" "st_api_key_id sr = identity" "st_name sr = name" using s(1) by (auto simp: find_Some_iff)
  moreover have "k \<in> set (api_keys st)" "k_id k = identity" using query_row_Inr [OF a(2)] by blast+
  moreover have "IsZero expiresAt \<or> clk E 30 < expiresAt \<and> expiresAt \<le> clk E 30 + 720 * Hour" using a(3,4) by linarith
  ultimately show thesis using that a s by blast
qed

lemma reserve_frame:
  assumes "reserveSubmission E identity mid units stream expiresAt scheduleAt bytes st = Inr st'"
  shows "ledger st' = ledger st" "core st' = core st" "api_keys st' = api_keys st" "meta st' = meta st"
  by (rule reserveSubmission_Inr [OF assms]; simp add: insert_usage_Inr)+

lemma replace_prior_Inr:
  assumes "replace_prior E apiKeyID s st = Inr st'"
  obtains d where "st' = st\<lparr>core := d\<rparr>" "sm_Replaces s = [] \<and> d = core st \<or> (\<exists>b. cancelPendingTx E apiKeyID (sm_Replaces s) (sm_ID s) (core st) = Inr (b, d))"
proof (cases "sm_Replaces s = []")
  case True
  with assms have "st' = st\<lparr>core := core st\<rparr>" by (simp add: replace_prior_def)
  with True that show thesis by blast
next
  case False
  with assms obtain b d where "cancelPendingTx E apiKeyID (sm_Replaces s) (sm_ID s) (core st) = Inr (b, d)" "st' = st\<lparr>core := d\<rparr>"
    by (auto simp: replace_prior_def bind_res_Inr_iff split: prod.split_asm)
  with that show thesis by blast
qed

lemma enqueueTx_frame:
  assumes "enqueueTx E ids s source apiKeyID keyHash st = Inr st'"
  shows "ledger st' = ledger st" "usage st' = usage st" "api_keys st' = api_keys st"
  by (rule enqueueTx_Inr [OF assms]; simp)+

lemma set_replaces_frame:
  assumes "set_replaces apiKeyID mid target st = Inr st'"
  shows "ledger st' = ledger st" "usage st' = usage st" "core st' = core st"
  using assms by (auto simp: set_replaces_def split: if_split_asm)

text \<open>The parts of an accepted new request. The publication only fills in the archive.\<close>

definition publish_ok :: "(submission \<Rightarrow> 'f \<Rightarrow> (err + submission) \<times> 'f) \<Rightarrow> bool" where
  "publish_ok publish \<longleftrightarrow> (\<forall>s f s' f'. publish s f = (Inr s', f') \<longrightarrow> (\<exists>a t. s' = s\<lparr>sm_Archive := a, sm_ArchivedAt := t\<rparr>))"

lemma enqueue_new_Inr:
  assumes "enqueue_new E ids s apiKeyID keyHash publish st f = (Inr (r, st'), f')" and "publish_ok publish"
  obtains st1 st2 s0 s' st3 where "publish s f = (Inr s0, f')" "sm_Archive s' = sm_Archive s0" "replace_prior E apiKeyID s st = Inr st1"
    "reserveSubmission E apiKeyID (sm_ID s) (int (length (el_Recipients (sm_Envelope s)))) (sm_Stream s) (gt_instant (sm_ExpiresAt s)) (gt_instant (sm_ScheduleAt s))
       (av_Size (sm_Archive s)) st1 = Inr st2"
    "sm_ID s' = sm_ID s" "sm_Replaces s' = sm_Replaces s" "el_Recipients (sm_Envelope s') = el_Recipients (sm_Envelope s)"
    "enqueueTx E ids s' ''api'' apiKeyID keyHash st2 = Inr st3"
    "sm_Replaces s = [] \<and> st' = st3 \<or> sm_Replaces s \<noteq> [] \<and> set_replaces apiKeyID (sm_ID s) (sm_Replaces s) st3 = Inr st'" "deferred_ok st'"
    "r = \<lparr>er_MessageID = sm_ID s, er_Replayed = False\<rparr>"
proof -
  from assms(1) obtain st2 s0 f0 where a: "bind_res (replace_prior E apiKeyID s st)
         (reserveSubmission E apiKeyID (sm_ID s) (int (length (el_Recipients (sm_Envelope s)))) (sm_Stream s) (gt_instant (sm_ExpiresAt s))
            (gt_instant (sm_ScheduleAt s)) (av_Size (sm_Archive s))) = Inr st2" "publish s f = (Inr s0, f0)"
    and rest: "(let s = s0\<lparr>sm_Envelope := (sm_Envelope s0)\<lparr>el_Account := (el_Account (sm_Envelope s0))\<lparr>ac_ID := []\<rparr>\<rparr>\<rparr>
                in (bind_res (enqueueTx E ids s ''api'' apiKeyID keyHash st2) (\<lambda>st.
                    bind_res (if sm_Replaces s = [] then Inr st else set_replaces apiKeyID (sm_ID s) (sm_Replaces s) st) (\<lambda>st.
                    bind_res (guard_res (deferred_ok st) ErrConstraint) (\<lambda>_.
                    Inr (\<lparr>er_MessageID = sm_ID s, er_Replayed = False\<rparr>, st)))), f0)) = (Inr (r, st'), f')"
    unfolding enqueue_new_def by (simp split: sum.split_asm prod.split_asm)
  from a(1) obtain st1 where b: "replace_prior E apiKeyID s st = Inr st1"
    "reserveSubmission E apiKeyID (sm_ID s) (int (length (el_Recipients (sm_Envelope s)))) (sm_Stream s) (gt_instant (sm_ExpiresAt s)) (gt_instant (sm_ScheduleAt s))
       (av_Size (sm_Archive s)) st1 = Inr st2" unfolding bind_res_Inr_iff by blast
  obtain x t where s0: "s0 = s\<lparr>sm_Archive := x, sm_ArchivedAt := t\<rparr>" using a(2) assms(2) unfolding publish_ok_def by blast
  let ?s = "s0\<lparr>sm_Envelope := (sm_Envelope s0)\<lparr>el_Account := (el_Account (sm_Envelope s0))\<lparr>ac_ID := []\<rparr>\<rparr>\<rparr>"
  from rest obtain st3 where "enqueueTx E ids ?s ''api'' apiKeyID keyHash st2 = Inr st3"
    "sm_Replaces s = [] \<and> st' = st3 \<or> sm_Replaces s \<noteq> [] \<and> set_replaces apiKeyID (sm_ID s) (sm_Replaces s) st3 = Inr st'" "deferred_ok st'"
    "r = \<lparr>er_MessageID = sm_ID s, er_Replayed = False\<rparr>"
    by (auto simp: Let_def bind_res_Inr_iff s0 split: if_split_asm)
  moreover have "f0 = f'" using rest by (simp add: Let_def)
  ultimately show thesis using that [of s0 ?s, OF _ _ b] a(2) by (simp add: s0)
qed

lemma enqueue_new_ledger:
  assumes "enqueue_new E ids s apiKeyID keyHash publish st f = (Inr (r, st'), f')" and "publish_ok publish"
  shows "ledger st' = ledger st" "r = \<lparr>er_MessageID = sm_ID s, er_Replayed = False\<rparr>"
proof -
  obtain st1 st2 s0 s' st3 where "publish s f = (Inr s0, f')" "sm_Archive s' = sm_Archive s0" and a: "replace_prior E apiKeyID s st = Inr st1"
    "reserveSubmission E apiKeyID (sm_ID s) (int (length (el_Recipients (sm_Envelope s)))) (sm_Stream s) (gt_instant (sm_ExpiresAt s)) (gt_instant (sm_ScheduleAt s))
       (av_Size (sm_Archive s)) st1 = Inr st2"
    "sm_ID s' = sm_ID s" "sm_Replaces s' = sm_Replaces s" "el_Recipients (sm_Envelope s') = el_Recipients (sm_Envelope s)"
    "enqueueTx E ids s' ''api'' apiKeyID keyHash st2 = Inr st3"
    "sm_Replaces s = [] \<and> st' = st3 \<or> sm_Replaces s \<noteq> [] \<and> set_replaces apiKeyID (sm_ID s) (sm_Replaces s) st3 = Inr st'" "deferred_ok st'"
    and r: "r = \<lparr>er_MessageID = sm_ID s, er_Replayed = False\<rparr>"
    by (rule enqueue_new_Inr [OF assms])
  have "ledger st1 = ledger st" by (rule replace_prior_Inr [OF a(1)]) simp
  moreover have "ledger st2 = ledger st1" by (rule reserve_frame(1) [OF a(2)])
  moreover have "ledger st3 = ledger st2" by (rule enqueueTx_frame(1) [OF a(6)])
  moreover have "ledger st' = ledger st3" using a(7) set_replaces_frame(1) by metis
  ultimately show "ledger st' = ledger st" by simp
  show "r = \<lparr>er_MessageID = sm_ID s, er_Replayed = False\<rparr>" by (rule r)
qed

lemma find_prefix: "prefix xs ys \<Longrightarrow> find p xs = Some x \<Longrightarrow> find p ys = Some x"
proof -
  assume "prefix xs ys" "find p xs = Some x"
  then obtain zs where "ys = xs @ zs" by (auto simp: prefix_def)
  moreover have "find p (xs @ zs) = Some x" using \<open>find p xs = Some x\<close> by (induction xs) (auto split: if_split_asm)
  ultimately show ?thesis by simp
qed

lemma find_snoc: "find p xs = None \<Longrightarrow> p y \<Longrightarrow> find p (xs @ [y]) = Some y"
  by (induction xs) (auto split: if_split_asm)

text \<open>After an answer the ledger has the entry of the key, with the fingerprint of the request and the message that was answered.\<close>

lemma enqueueIdempotent_entry:
  assumes run: "enqueueIdempotent U E ids s apiKeyID key publish st f = (Inr (r, st'), f')" and pub: "publish_ok publish"
  obtains l where "find_entry apiKeyID (hex_encode (sha256 key)) st' = Some l" "RequestFingerprint U s = Inr (l_request_sha256 l)" "l_message_id l = er_MessageID r"
    "U apiKeyID \<noteq> None" "key_ok key"
proof -
  let ?h = "hex_encode (sha256 key)"
  from run obtain fp where g: "U apiKeyID \<noteq> None" "key_ok key" and fp: "RequestFingerprint U s = Inr fp"
    and rest: "(case find_entry apiKeyID ?h st of
        Some l \<Rightarrow> (if l_request_sha256 l \<noteq> fp then (Inl ErrIdempotencyConflict, f) else (Inr (\<lparr>er_MessageID = l_message_id l, er_Replayed = True\<rparr>, st), f))
      | None \<Rightarrow> (case insert_ledger \<lparr>l_api_key_id = apiKeyID, l_key_sha256 = ?h, l_request_sha256 = fp, l_message_id = sm_ID s\<rparr> st of
          Inl e \<Rightarrow> (Inl e, f) | Inr st \<Rightarrow> enqueue_new E ids s apiKeyID ?h publish st f)) = (Inr (r, st'), f')"
    unfolding enqueueIdempotent_def Let_def by (auto split: if_split_asm sum.split_asm)
  show thesis
  proof (cases "find_entry apiKeyID ?h st")
    case (Some l)
    with rest have "st' = st" "l_request_sha256 l = fp" "er_MessageID r = l_message_id l" by (auto split: if_split_asm)
    with Some g fp that show thesis by auto
  next
    case None
    let ?l = "\<lparr>l_api_key_id = apiKeyID, l_key_sha256 = ?h, l_request_sha256 = fp, l_message_id = sm_ID s\<rparr>"
    from rest None obtain st1 where st1: "insert_ledger ?l st = Inr st1" "enqueue_new E ids s apiKeyID ?h publish st1 f = (Inr (r, st'), f')"
      by (auto split: sum.split_asm)
    then have "ledger st' = ledger st @ [?l]" using enqueue_new_ledger(1) [OF st1(2) pub] by (auto simp: insert_ledger_def split: if_split_asm)
    then have "find_entry apiKeyID ?h st' = Some ?l" using None by (simp add: find_entry_def find_snoc)
    with g fp that [of ?l] enqueue_new_ledger(2) [OF st1(2) pub] show thesis by auto
  qed
qed

text \<open>The files change only by the publication, and a new message is the one whose row was written.\<close>

lemma enqueue_new_files:
  assumes "enqueue_new E ids s apiKeyID keyHash publish st f = (x, f')"
  shows "f' = f \<and> is_Inl x \<or> (\<exists>y. publish s f = (y, f'))"
  using assms unfolding enqueue_new_def by (auto simp: is_Inl_def Let_def split: sum.split_asm prod.split_asm)

lemma enqueueIdempotent_files:
  assumes "enqueueIdempotent U E ids s apiKeyID key publish st f = (x, f')"
  shows "f' = f \<and> (\<forall>r st'. x = Inr (r, st') \<longrightarrow> er_Replayed r \<and> st' = st) \<or> (\<exists>y. publish s f = (y, f'))"
proof -
  have "f' = f \<and> is_Inl x \<or> f' = f \<and> (\<exists>r. x = Inr (r, st) \<and> er_Replayed r)
    \<or> (\<exists>st1. enqueue_new E ids s apiKeyID (hex_encode (sha256 key)) publish st1 f = (x, f'))"
    using assms unfolding enqueueIdempotent_def Let_def
    by (auto simp: is_Inl_def split: if_split_asm sum.split_asm option.split_asm)
  then show ?thesis using enqueue_new_files by (fastforce simp: is_Inl_def)
qed

lemma enqueueIdempotent_new:
  assumes run: "enqueueIdempotent U E ids s apiKeyID key publish st f = (Inr (r, st'), f')" and pub: "publish_ok publish" and new: "\<not> er_Replayed r"
  obtains st1 where "find_entry apiKeyID (hex_encode (sha256 key)) st = None" "core st1 = core st" "enqueue_new E ids s apiKeyID (hex_encode (sha256 key)) publish st1 f = (Inr (r, st'), f')"
proof -
  have "find_entry apiKeyID (hex_encode (sha256 key)) st = None"
    using run new unfolding enqueueIdempotent_def Let_def by (auto split: if_split_asm sum.split_asm option.split_asm)
  moreover from this run obtain l st1 where "insert_ledger l st = Inr st1" "enqueue_new E ids s apiKeyID (hex_encode (sha256 key)) publish st1 f = (Inr (r, st'), f')"
    unfolding enqueueIdempotent_def Let_def by (auto split: if_split_asm sum.split_asm)
  moreover from this(1) have "core st1 = core st" by (auto simp: insert_ledger_def split: if_split_asm)
  ultimately show thesis using that by blast
qed

lemma enqueueIdempotent_replayed:
  assumes run: "enqueueIdempotent U E ids s apiKeyID key publish st f = (Inr (r, st'), f')" and pub: "publish_ok publish" and old: "er_Replayed r"
  shows "st' = st \<and> f' = f"
proof -
  have "st' = st \<and> f' = f \<or> (\<exists>st1. enqueue_new E ids s apiKeyID (hex_encode (sha256 key)) publish st1 f = (Inr (r, st'), f'))"
    using run unfolding enqueueIdempotent_def Let_def by (auto split: if_split_asm sum.split_asm option.split_asm)
  then show ?thesis using enqueue_new_ledger(2) [OF _ pub] old by fastforce
qed

end
