(* ===== verification/Message_Receive.thy ===== *)
theory Message_Receive
  imports Storage Message_Ledger
begin

text \<open>
  The two ways a message comes in: Receiver.Receive for SMTP (internal/message/receive.go) and APIReceiver.ReceiveReplacing for
  HTTP (internal/message/api_receive.go), on the store of the database and the file system of the archives. What the
  network and the system answer is an argument: the reads of the body, the reservation, the identifiers and the times. The inspection
  of the header fields (metadata, which rests on net/mail) is the argument \<open>inspect\<close>.
\<close>

subsection \<open>The header (receive.go)\<close>

text \<open>
  The loop of readHeader over the lines of the input. ReadSlice hands out a line in pieces when it exceeds its buffer; a piece that ends without a line feed
  only adds to the buffer, so a turn here takes the whole line. What follows the last line feed ends the loop with the error of the
  reader, or with an invalid message at the end of the input.
\<close>

lemma cut_on_found: "cut_on c s = (a, b, True) \<Longrightarrow> s = a @ c # b \<and> c \<notin> set a"
  by (induction s arbitrary: a) (auto split: if_split_asm prod.split_asm)

function header_loop :: "err option \<Rightarrow> string \<Rightarrow> string \<Rightarrow> err + string \<times> string" where
  "header_loop failure b s =
     (case cut_on LF s of (line, rest, found) \<Rightarrow>
        let line = (if found then line @ [LF] else line); b = b @ line
        in if length b > 256 * 1024 then Inl ErrInvalidMessage
           else if \<not> found then Inl (case failure of None \<Rightarrow> ErrInvalidMessage | Some e \<Rightarrow> e)
           else if line = CRLF \<or> line = [LF] then Inr (b, rest)
           else header_loop failure b rest)"
  by pat_completeness auto
termination
  by (relation "measure (\<lambda>(failure, b, s). length s)") (auto dest!: cut_on_found [OF sym])

declare header_loop.simps [simp del]

definition readHeader :: "err option \<Rightarrow> string \<Rightarrow> err + string \<times> string" where
  "readHeader failure s = header_loop failure [] s"

subsection \<open>SMTP (receive.go)\<close>

text \<open>
  One call of Receive: the error of the reservation, the new identifier, the body up to its end with the error that ends it, the two readings
  of the clock, and how the buffered reader cuts the bytes of the body into reads for the archive.
\<close>

record smtp_call =
  sc_acquire :: "err option"
  sc_id :: "err + string"
  sc_body :: string
  sc_failure :: "err option"
  sc_received :: time
  sc_archived :: time
  sc_chunk :: "string \<Rightarrow> err option \<Rightarrow> read list"

type_synonym inspection = "string \<Rightarrow> account \<Rightarrow> err + string \<times> string \<times> string"

definition smtp_submission :: "string \<Rightarrow> envelope \<Rightarrow> string \<times> string \<times> string \<Rightarrow> archive \<Rightarrow> time \<Rightarrow> time \<Rightarrow> submission" where
  "smtp_submission i e info a received archived = \<lparr>sm_Replaces = [], sm_ScheduleAt = zero_time, sm_ExpiresAt = zero_time, sm_Stream = [],
     sm_Business = \<lparr>bu_ClientReference = [], bu_Tags = []\<rparr>, sm_ID = i, sm_Envelope = e, sm_Archive = a, sm_MessageID = fst info,
     sm_HeaderFrom = fst (snd info), sm_Subject = snd (snd info), sm_ReceivedAt = received, sm_ArchivedAt = archived\<rparr>"

definition Receive ::
  "(string \<Rightarrow> string option) \<Rightarrow> env \<Rightarrow> (nat \<Rightarrow> string) \<Rightarrow> os \<Rightarrow> (nat \<Rightarrow> (nat \<times> err) option) \<Rightarrow> local_store \<Rightarrow> inspection \<Rightarrow> smtp_call \<Rightarrow> envelope \<Rightarrow> store \<Rightarrow> fs
     \<Rightarrow> (err + string) \<times> store \<times> fs" where
  "Receive U E ids w werr ls inspect c e st d =
     (case bind_res (case sc_acquire c of Some x \<Rightarrow> Inl x | None \<Rightarrow> Inr ()) (\<lambda>_.
           bind_res (guard_res (Allows (el_Account e) (el_From e) \<and> el_Recipients e \<noteq> []) ErrSenderDenied) (\<lambda>_.
           bind_res (sc_id c) (\<lambda>i.
           bind_res (readHeader (sc_failure c) (sc_body c)) (\<lambda>(header, rest).
           bind_res (inspect header (el_Account e)) (\<lambda>info. Inr (i, header @ rest, info)))))) of
        Inl x \<Rightarrow> (Inl x, st, d)
      | Inr (i, body, info) \<Rightarrow>
          (case Save U w werr ls i (sc_received c) (sc_chunk c body (sc_failure c)) d of
             (Inl x, d) \<Rightarrow> (Inl x, st, d)
           | (Inr a, d) \<Rightarrow>
               (case Enqueue E ids (smtp_submission i e info a (sc_received c) (sc_archived c)) st of
                  Inl x \<Rightarrow> (Inl x, st, d)
                | Inr (_, st) \<Rightarrow> (Inr i, st, d))))"

subsection \<open>HTTP (api_receive.go)\<close>

text \<open>The loop that writes the body to the snapshot: the limited reader, the check of the line ends, the write with its error.\<close>

fun scan_bytes :: "string \<Rightarrow> bool \<Rightarrow> char \<Rightarrow> err + bool \<times> char" where
  "scan_bytes [] prevCR lastb = Inr (prevCR, lastb)"
| "scan_bytes (b # bs) prevCR lastb =
     (if (prevCR \<and> b \<noteq> LF) \<or> (b = LF \<and> \<not> prevCR) then Inl ErrInvalidMessage else scan_bytes bs (b = CR) b)"

fun snapshot_loop :: "int \<Rightarrow> (nat \<Rightarrow> err option) \<Rightarrow> nat \<Rightarrow> read list \<Rightarrow> bool \<Rightarrow> char \<Rightarrow> string \<Rightarrow> err + bool \<times> char \<times> string" where
  "snapshot_loop maxb werr n [] prevCR lastb out = Inl ErrNoProgress"
| "snapshot_loop maxb werr n (r # rs) prevCR lastb out =
     (case rd_ctx r of
        Some e \<Rightarrow> Inl e
      | None \<Rightarrow>
          (let bs = take (nat (maxb + 1) - length out) (rd_bytes r)
           in if bs \<noteq> [] \<and> int (length (out @ bs)) > maxb then Inl ErrTooLarge
              else bind_res (scan_bytes bs prevCR lastb) (\<lambda>(prevCR, lastb).
                case (if bs = [] then None else werr n) of
                  Some e \<Rightarrow> Inl e
                | None \<Rightarrow>
                    (case rd_end r of
                       Eof \<Rightarrow> Inr (prevCR, lastb, out @ bs)
                     | ReadErr e \<Rightarrow> Inl e
                     | More \<Rightarrow> snapshot_loop maxb werr (Suc n) rs prevCR lastb (out @ bs)))))"

record api_call =
  ap_acquire :: "err option"
  ap_temp :: "err option"
  ap_unlink :: "err option"
  ap_reads :: "read list"
  ap_werr :: "nat \<Rightarrow> err option"
  ap_seek :: "nat \<Rightarrow> err option"
  ap_conn :: "err option"
  ap_lock :: "err + bool"
  ap_id :: "err + string"
  ap_received :: time
  ap_archived :: time
  ap_chunk :: "string \<Rightarrow> err option \<Rightarrow> read list"

text \<open>The arguments of a request besides its body.\<close>

record api_request =
  rq_envelope :: envelope
  rq_identity :: string
  rq_key :: string
  rq_stream :: string
  rq_expiresAt :: go_time
  rq_scheduleAt :: go_time
  rq_replaces :: string
  rq_business :: "business list"

definition check :: "err option \<Rightarrow> err + unit" where
  "check x = (case x of None \<Rightarrow> Inr () | Some e \<Rightarrow> Inl e)"

definition request_valid :: "(string \<Rightarrow> string option) \<Rightarrow> int \<Rightarrow> api_request \<Rightarrow> err + string \<times> business" where
  "request_valid U maxb q =
     bind_res (guard_res (rq_replaces q = [] \<or> target_ok U (rq_replaces q)) ErrInvalidSubmission) (\<lambda>_.
     bind_res (CanonicalExpiry (rq_scheduleAt q)) (\<lambda>_.
     bind_res (guard_res (IsZero (gt_instant (rq_scheduleAt q)) \<or> IsZero (gt_instant (rq_expiresAt q))
         \<or> gt_instant (rq_expiresAt q) > gt_instant (rq_scheduleAt q)) ErrInvalidSchedule) (\<lambda>_.
     bind_res (CanonicalExpiry (rq_expiresAt q)) (\<lambda>_.
     bind_res (CanonicalStream (rq_stream q)) (\<lambda>stream.
     bind_res (guard_res (length (rq_business q) \<le> 1) ErrInvalidSubmission) (\<lambda>_.
     bind_res (Canonical (case rq_business q of [] \<Rightarrow> \<lparr>bu_ClientReference = [], bu_Tags = []\<rparr> | b # _ \<Rightarrow> b)) (\<lambda>correlation.
     bind_res (guard_res (U (rq_identity q) \<noteq> None) ErrInvalidSubmission) (\<lambda>_.
     bind_res (guard_res (key_ok (rq_key q)) ErrInvalidSubmission) (\<lambda>_.
     bind_res (guard_res (Allows (el_Account (rq_envelope q)) (el_From (rq_envelope q))) ErrSenderDenied) (\<lambda>_.
     bind_res (guard_res (1 \<le> maxb \<and> maxb \<le> 100 * 2 ^ 20) ErrInvalidSubmission) (\<lambda>_.
     Inr (stream, correlation))))))))))))"

definition snapshot :: "int \<Rightarrow> api_call \<Rightarrow> err + string" where
  "snapshot maxb c =
     bind_res (check (ap_acquire c)) (\<lambda>_.
     bind_res (check (ap_temp c)) (\<lambda>_.
     bind_res (check (ap_unlink c)) (\<lambda>_.
     bind_res (snapshot_loop maxb (ap_werr c) 0 (ap_reads c) False NUL []) (\<lambda>(prevCR, lastb, body).
     bind_res (guard_res (\<not> prevCR \<and> lastb = LF) ErrInvalidMessage) (\<lambda>_.
     bind_res (check (ap_seek c 0)) (\<lambda>_. Inr body))))))"

definition api_submission :: "api_request \<Rightarrow> string \<Rightarrow> business \<Rightarrow> string \<Rightarrow> string \<times> string \<times> string \<Rightarrow> submission" where
  "api_submission q stream correlation body info = \<lparr>sm_Replaces = rq_replaces q, sm_ScheduleAt = rq_scheduleAt q, sm_ExpiresAt = rq_expiresAt q, sm_Stream = stream,
     sm_Business = correlation, sm_ID = [], sm_Envelope = rq_envelope q,
     sm_Archive = \<lparr>av_Path = [], av_Size = int (length body), av_SHA256 = hex_encode (sha256 body)\<rparr>, sm_MessageID = fst info,
     sm_HeaderFrom = fst (snd info), sm_Subject = snd (snd info), sm_ReceivedAt = 0, sm_ArchivedAt = 0\<rparr>"

text \<open>Everything before the connection is taken: no state is touched yet.\<close>

definition prepare :: "(string \<Rightarrow> string option) \<Rightarrow> int \<Rightarrow> inspection \<Rightarrow> api_call \<Rightarrow> api_request \<Rightarrow> err + submission \<times> string" where
  "prepare U maxb inspect c q =
     bind_res (request_valid U maxb q) (\<lambda>(stream, correlation).
     bind_res (snapshot maxb c) (\<lambda>body.
     bind_res (readHeader None body) (\<lambda>(header, rest).
     bind_res (inspect header (el_Account (rq_envelope q))) (\<lambda>info.
     let sub = api_submission q stream correlation body info
     in bind_res (RequestFingerprint U sub) (\<lambda>_. Inr (sub, body))))))"

definition publish_archive ::
  "(string \<Rightarrow> string option) \<Rightarrow> os \<Rightarrow> (nat \<Rightarrow> (nat \<times> err) option) \<Rightarrow> local_store \<Rightarrow> api_call \<Rightarrow> string \<Rightarrow> submission \<Rightarrow> fs \<Rightarrow> (err + submission) \<times> fs" where
  "publish_archive U w werr ls c body current d =
     (case Save U w werr ls (sm_ID current) (sm_ReceivedAt current) (ap_chunk c body None) d of
        (Inl e, d) \<Rightarrow> (Inl e, d)
      | (Inr a, d) \<Rightarrow> (Inr (current\<lparr>sm_Archive := a, sm_ArchivedAt := ap_archived c\<rparr>), d))"

text \<open>The ledger is first read outside of the transaction: \<open>st0\<close> is the store at that moment, \<open>st\<close> the store the transaction finds.\<close>

definition ReceiveReplacing ::
  "(string \<Rightarrow> string option) \<Rightarrow> env \<Rightarrow> (nat \<Rightarrow> string) \<Rightarrow> os \<Rightarrow> (nat \<Rightarrow> (nat \<times> err) option) \<Rightarrow> local_store \<Rightarrow> int \<Rightarrow> inspection \<Rightarrow> api_call \<Rightarrow> api_request \<Rightarrow> store \<Rightarrow> store \<Rightarrow> fs
     \<Rightarrow> (err + enqueue_result) \<times> store \<times> fs" where
  "ReceiveReplacing U E ids w werr ls maxb inspect c q st0 st d =
     (case prepare U maxb inspect c q of
        Inl e \<Rightarrow> (Inl e, st, d)
      | Inr (sub, body) \<Rightarrow>
          (case bind_res (check (ap_conn c)) (\<lambda>_. bind_res (ap_lock c) (\<lambda>locked. guard_res locked ErrSubmissionBusy)) of
             Inl e \<Rightarrow> (Inl e, st, d)
           | Inr _ \<Rightarrow>
               (case find_entry (rq_identity q) (hex_encode (sha256 (rq_key q))) st0 of
                  Some l \<Rightarrow>
                    (if Inr (l_request_sha256 l) \<noteq> RequestFingerprint U sub then (Inl ErrIdempotencyConflict, st, d)
                     else (Inr \<lparr>er_MessageID = l_message_id l, er_Replayed = True\<rparr>, st, d))
                | None \<Rightarrow>
                    (case bind_res (check (ap_seek c 1)) (\<lambda>_. ap_id c) of
                       Inl e \<Rightarrow> (Inl e, st, d)
                     | Inr i \<Rightarrow>
                         (case enqueueIdempotent U E ids (sub\<lparr>sm_ID := i, sm_ReceivedAt := ap_received c\<rparr>) (rq_identity q) (rq_key q)
                             (publish_archive U w werr ls c body) st d of
                            (Inl e, d) \<Rightarrow> (Inl e, st, d)
                          | (Inr (r, st), d) \<Rightarrow> (Inr r, st, d))))))"

subsection \<open>The bytes of a body\<close>

lemma header_loop_found:
  "cut_on LF s = (line, r, True) \<Longrightarrow> header_loop failure b s =
     (if length (b @ line @ [LF]) > 256 * 1024 then Inl ErrInvalidMessage else if line @ [LF] = CRLF \<or> line @ [LF] = [LF] then Inr (b @ line @ [LF], r)
      else header_loop failure (b @ line @ [LF]) r)"
  by (subst header_loop.simps) (simp only: prod.case Let_def if_True not_True_eq_False if_False append_assoc)

lemma header_loop_exact: "header_loop failure b s = Inr (h, rest) \<Longrightarrow> b @ s = h @ rest \<and> length h \<le> 262144"
proof (induction failure b s rule: header_loop.induct)
  case (1 failure b s)
  obtain line r found where cut: "cut_on LF s = (line, r, found)" by (cases "cut_on LF s")
  from "1.prems" have found: "found" by (subst (asm) header_loop.simps) (auto simp: cut Let_def split: if_split_asm)
  then have found_eq: "found = True" by simp
  have s: "s = line @ LF # r" using cut_on_found [of LF s line r] cut found by simp
  have step: "(if length (b @ line @ [LF]) > 256 * 1024 then Inl ErrInvalidMessage else if line @ [LF] = CRLF \<or> line @ [LF] = [LF] then Inr (b @ line @ [LF], r)
      else header_loop failure (b @ line @ [LF]) r) = Inr (h, rest)"
    using "1.prems" header_loop_found [OF cut [unfolded found_eq]] by simp
  show ?case
  proof (cases "line @ [LF] = CRLF \<or> line @ [LF] = [LF]")
    case True
    with step have "h = b @ line @ [LF]" "rest = r" "\<not> length (b @ line @ [LF]) > 256 * 1024" by (auto split: if_split_asm)
    then show ?thesis by (simp add: s)
  next
    case False
    with step have "header_loop failure (b @ line @ [LF]) r = Inr (h, rest)" "\<not> length (b @ line @ [LF]) > 256 * 1024" by (auto split: if_split_asm)
    with "1.IH" [OF cut [symmetric] refl refl refl] False found show ?thesis by (simp add: s)
  qed
qed

lemma readHeader_exact: "readHeader failure s = Inr (h, rest) \<Longrightarrow> h @ rest = s"
  using header_loop_exact [of failure "[]" s h rest] by (simp add: readHeader_def)

lemma scan_bytes_append: "scan_bytes (s @ t) p l = bind_res (scan_bytes s p l) (\<lambda>(p, l). scan_bytes t p l)"
  by (induction s p l rule: scan_bytes.induct) auto

lemma scan_bytes_crlf: "scan_bytes s False l = Inr (False, LF) \<Longrightarrow> crlf_lines s \<and> (s \<noteq> [] \<or> l = LF)"
proof (induction s arbitrary: l rule: crlf_lines.induct)
  case (2 b)
  then show ?case by (auto split: if_split_asm)
next
  case (3 x y s)
  then show ?case by (cases "x = CR") (auto split: if_split_asm)
qed simp

lemma snapshot_loop_body:
  "snapshot_loop maxb werr n rs p l out = Inr (p', l', body) \<Longrightarrow> int (length out) \<le> maxb \<Longrightarrow>
     \<exists>s. delivered rs = Some s \<and> body = out @ s \<and> scan_bytes s p l = Inr (p', l') \<and> int (length body) \<le> maxb"
proof (induction rs arbitrary: n p l out)
  case (Cons r rs)
  let ?bs = "take (nat (maxb + 1) - length out) (rd_bytes r)"
  from Cons.prems(1) have ctx: "rd_ctx r = None" by (auto split: option.split_asm)
  from Cons.prems(1) ctx have len: "?bs = [] \<or> int (length (out @ ?bs)) \<le> maxb" by (auto simp: Let_def split: if_split_asm)
  have room: "length out < nat (maxb + 1)" using Cons.prems(2) by linarith
  have whole: "?bs = rd_bytes r"
  proof (cases "?bs = []")
    case True
    with room show ?thesis by auto
  next
    case False
    with len have "length ?bs < nat (maxb + 1) - length out" using room by auto
    then show ?thesis by auto
  qed
  have fit: "int (length (out @ rd_bytes r)) \<le> maxb" using len Cons.prems(2) unfolding whole by auto
  from Cons.prems(1) ctx obtain p1 l1 where scan: "scan_bytes (rd_bytes r) p l = Inr (p1, l1)"
    by (auto simp: whole Let_def bind_res_Inr_iff split: if_split_asm)
  have step: "(case rd_end r of Eof \<Rightarrow> Inr (p1, l1, out @ rd_bytes r) | ReadErr e \<Rightarrow> Inl e
      | More \<Rightarrow> snapshot_loop maxb werr (Suc n) rs p1 l1 (out @ rd_bytes r)) = Inr (p', l', body)"
    using Cons.prems(1) ctx scan by (auto simp: whole Let_def split: if_split_asm option.split_asm)
  show ?case
  proof (cases "rd_end r")
    case More
    with step have "snapshot_loop maxb werr (Suc n) rs p1 l1 (out @ rd_bytes r) = Inr (p', l', body)" by simp
    from Cons.IH [OF this fit] show ?thesis using ctx More scan by (auto simp: scan_bytes_append)
  next
    case Eof
    with step show ?thesis using ctx scan fit by simp
  next
    case (ReadErr e)
    with step show ?thesis by simp
  qed
qed simp

lemma snapshot_body:
  assumes "snapshot maxb c = Inr body" and "1 \<le> maxb"
  shows "delivered (ap_reads c) = Some body" "canonical body" "int (length body) \<le> maxb"
proof -
  from assms(1) obtain p l where r: "snapshot_loop maxb (ap_werr c) 0 (ap_reads c) False NUL [] = Inr (p, l, body)" and e: "\<not> p" "l = LF"
    by (auto simp: snapshot_def bind_res_Inr_iff)
  from snapshot_loop_body [OF r] assms(2) have s: "delivered (ap_reads c) = Some body" "scan_bytes body False NUL = Inr (p, l)" "int (length body) \<le> maxb" by auto
  have "NUL \<noteq> LF" by (simp add: NUL_def LF_def)
  with scan_bytes_crlf [of body NUL] s(2) e show "canonical body" by (auto simp: canonical_def)
qed (use snapshot_loop_body assms in \<open>fastforce simp: snapshot_def bind_res_Inr_iff\<close>)+

subsection \<open>The row of an accepted message\<close>

definition stored :: "submission \<Rightarrow> store \<Rightarrow> bool" where
  "stored s st \<longleftrightarrow> (\<exists>m \<in> set (messages (core st)). m_id m = sm_ID s \<and> m_eml_path m = av_Path (sm_Archive s) \<and> m_eml_size m = av_Size (sm_Archive s)
     \<and> m_eml_sha256 m = av_SHA256 (sm_Archive s) \<and> m_archive_state m = ''AVAILABLE'')"

lemma enqueueTx_stored:
  assumes "enqueueTx E ids s source apiKeyID keyHash st = Inr st'"
  shows "stored s st'"
  using assms
proof (rule enqueueTx_Inr)
  fix business expiry schedule stream environment expires scheduled m mm d2 m'
  assume m: "m = new_message E s source apiKeyID environment (stored_status environment) stream expires scheduled"
    and d2: "d2 = (initialize_queue_owner m ((core st)\<lparr>messages := messages (core st) @ [m]\<rparr>))\<lparr>recipients := recipients (core st) @ new_rows ids s environment\<rparr>"
    and st': "st' = st\<lparr>core := enqueue_events E s source environment stream schedule expiry business (m_status m') (enqueue_policy E (sm_ID s) environment d2),
       meta := meta st @ [mm], notified := notified st @ (if m_status m' = QUEUED then [sm_ID s] else [])\<rparr>"
  obtain b where b: "messages (enqueue_policy E (sm_ID s) environment d2) = update_where (\<lambda>m. m_id m = sm_ID s) (policy_message E environment b) (messages d2)"
    using enqueue_policy_tables(1) by blast
  have "m \<in> set (messages d2)" by (simp add: d2)
  then have "policy_message E environment b m \<in> set (messages (core st'))"
    using update_where_memI [of m "messages d2" "\<lambda>m. m_id m = sm_ID s"] by (simp add: st' b m new_message_def)
  then show ?thesis unfolding stored_def by (intro bexI [of _ "policy_message E environment b m"]) (simp_all add: policy_message_def m new_message_def)
qed

lemma enqueue_new_stored:
  assumes "enqueue_new E ids s apiKeyID keyHash publish st f = (Inr (r, st'), f')" and "publish_ok publish"
  obtains s0 where "publish s f = (Inr s0, f')" "stored s0 st'" "er_MessageID r = sm_ID s0" "\<not> er_Replayed r"
proof -
  obtain st1 st2 s0 s' st3 where p: "publish s f = (Inr s0, f')" "sm_Archive s' = sm_Archive s0" and "replace_prior E apiKeyID s st = Inr st1"
    "reserveSubmission E apiKeyID (sm_ID s) (int (length (el_Recipients (sm_Envelope s)))) (sm_Stream s) (gt_instant (sm_ExpiresAt s)) (gt_instant (sm_ScheduleAt s))
       (av_Size (sm_Archive s)) st1 = Inr st2"
    and i: "sm_ID s' = sm_ID s" and "sm_Replaces s' = sm_Replaces s" "el_Recipients (sm_Envelope s') = el_Recipients (sm_Envelope s)"
    and tx: "enqueueTx E ids s' ''api'' apiKeyID keyHash st2 = Inr st3"
    and fin: "sm_Replaces s = [] \<and> st' = st3 \<or> sm_Replaces s \<noteq> [] \<and> set_replaces apiKeyID (sm_ID s) (sm_Replaces s) st3 = Inr st'"
    and "deferred_ok st'" and r: "r = \<lparr>er_MessageID = sm_ID s, er_Replayed = False\<rparr>"
    by (rule enqueue_new_Inr [OF assms])
  have "core st' = core st3" using fin set_replaces_frame(3) by metis
  moreover have "sm_ID s0 = sm_ID s" using assms(2) p(1) unfolding publish_ok_def by fastforce
  ultimately have "stored s0 st'" using enqueueTx_stored [OF tx] p(2) i by (simp add: stored_def)
  with that [OF p(1)] r \<open>sm_ID s0 = sm_ID s\<close> show thesis by simp
qed

text \<open>Readers of the standard library hand on the bytes they are given, in order and to their end, or they fail.\<close>

definition faithful_reads :: "(string \<Rightarrow> err option \<Rightarrow> read list) \<Rightarrow> bool" where
  "faithful_reads f \<longleftrightarrow> (\<forall>s x t. delivered (f s x) = Some t \<longrightarrow> x = None \<and> t = s)"

lemma publish_archive_ok: "publish_ok (publish_archive U w werr ls c body)"
  unfolding publish_ok_def publish_archive_def by (auto split: prod.split_asm sum.split_asm) blast

lemma prepare_body:
  assumes "prepare U maxb inspect c q = Inr (sub, body)"
  shows "delivered (ap_reads c) = Some body" "canonical body" "int (length body) \<le> maxb"
proof -
  from assms have "snapshot maxb c = Inr body" "1 \<le> maxb"
    by (auto simp: prepare_def request_valid_def bind_res_Inr_iff Let_def split: prod.split_asm)
  then show "delivered (ap_reads c) = Some body" "canonical body" "int (length body) \<le> maxb" by (rule snapshot_body)+
qed

lemma ReceiveReplacing_cases:
  assumes "ReceiveReplacing U E ids w werr ls maxb inspect c q st0 st d = (r, st', d')"
  obtains "st' = st" "d' = d" "\<And>a. r = Inr a \<Longrightarrow> er_Replayed a"
  | sub body i x where "prepare U maxb inspect c q = Inr (sub, body)" "ap_id c = Inr i"
      "enqueueIdempotent U E ids (sub\<lparr>sm_ID := i, sm_ReceivedAt := ap_received c\<rparr>) (rq_identity q) (rq_key q) (publish_archive U w werr ls c body) st d = (x, d')"
      "case x of Inl e \<Rightarrow> r = Inl e \<and> st' = st | Inr (a, st1) \<Rightarrow> r = Inr a \<and> st' = st1"
  using assms unfolding ReceiveReplacing_def
  by (auto simp: bind_res_Inr_iff split: sum.split_asm prod.split_asm option.split_asm if_split_asm)

lemma publish_archive_file:
  assumes "disk_ok d" "uuid_shape (sm_ID s)" "publish_archive U w werr ls c body s d = (y, d')"
  shows "disk_ok d' \<and> disk_le d d'"
    and "y = Inr s0 \<Longrightarrow> faithful_reads (ap_chunk c) \<Longrightarrow> sm_ID s0 = sm_ID s \<and> after_crash d' (archive_path ls (sm_ID s) (sm_ReceivedAt s)) = Some body
       \<and> sm_Archive s0 = \<lparr>av_Path = path_text (rooted_text (ls_Root ls)) (archive_path ls (sm_ID s) (sm_ReceivedAt s)), av_Size = int (length body),
            av_SHA256 = hex_encode (sha256 body)\<rparr>"
proof -
  obtain z where sv: "Save U w werr ls (sm_ID s) (sm_ReceivedAt s) (ap_chunk c body None) d = (z, d')"
    and y: "y = (case z of Inl e \<Rightarrow> Inl e | Inr a \<Rightarrow> Inr (s\<lparr>sm_Archive := a, sm_ArchivedAt := ap_archived c\<rparr>))"
    using assms(3) by (auto simp: publish_archive_def split: prod.split_asm sum.split_asm)
  show "disk_ok d' \<and> disk_le d d'" using Save_safe(1,2) [OF assms(1) sv assms(2)] by blast
  assume "y = Inr s0" and f: "faithful_reads (ap_chunk c)"
  then obtain a where a: "z = Inr a" "s0 = s\<lparr>sm_Archive := a, sm_ArchivedAt := ap_archived c\<rparr>" using y by (auto split: sum.split_asm)
  from Save_durable [OF assms(1) sv [unfolded a(1)] assms(2)] obtain t where
    t: "delivered (ap_chunk c body None) = Some t" "after_crash d' (archive_path ls (sm_ID s) (sm_ReceivedAt s)) = Some t"
      "a = \<lparr>av_Path = path_text (rooted_text (ls_Root ls)) (archive_path ls (sm_ID s) (sm_ReceivedAt s)), av_Size = int (length t), av_SHA256 = hex_encode (sha256 t)\<rparr>"
    by blast
  moreover have "t = body" using f t(1) by (auto simp: faithful_reads_def)
  ultimately show "sm_ID s0 = sm_ID s \<and> after_crash d' (archive_path ls (sm_ID s) (sm_ReceivedAt s)) = Some body
       \<and> sm_Archive s0 = \<lparr>av_Path = path_text (rooted_text (ls_Root ls)) (archive_path ls (sm_ID s) (sm_ReceivedAt s)), av_Size = int (length body),
            av_SHA256 = hex_encode (sha256 body)\<rparr>" using a(2) by simp
qed

text \<open>The message with that identifier has the body for its archive, on the disk under the path of its row and with the size and digest of its row.\<close>

definition archived :: "local_store \<Rightarrow> store \<Rightarrow> fs \<Rightarrow> string \<Rightarrow> string \<Rightarrow> bool" where
  "archived ls st d mid body \<longleftrightarrow> (\<exists>m \<in> set (messages (core st)). \<exists>p. m_id m = mid \<and> m_archive_state m = ''AVAILABLE''
     \<and> m_eml_path m = path_text (rooted_text (ls_Root ls)) p \<and> m_eml_size m = int (length body) \<and> m_eml_sha256 m = hex_encode (sha256 body)
     \<and> after_crash d p = Some body)"

lemma archivedI:
  assumes "stored s st" "sm_Archive s = \<lparr>av_Path = path_text (rooted_text (ls_Root ls)) p, av_Size = int (length body), av_SHA256 = hex_encode (sha256 body)\<rparr>"
    "after_crash d p = Some body"
  shows "archived ls st d (sm_ID s) body"
  using assms unfolding stored_def archived_def by auto

lemma api_accepted:
  assumes d: "disk_ok d" and ids: "\<And>i. ap_id c = Inr i \<Longrightarrow> uuid_shape i"
    and run: "ReceiveReplacing U E ids w werr ls maxb inspect c q st0 st d = (r, st', d')"
  shows "disk_ok d' \<and> disk_le d d'" "r = Inl e \<Longrightarrow> st' = st" "r = Inr a \<Longrightarrow> er_Replayed a \<Longrightarrow> st' = st \<and> d' = d"
    "r = Inr a \<Longrightarrow> \<not> er_Replayed a \<Longrightarrow> faithful_reads (ap_chunk c) \<Longrightarrow>
       \<exists>body. delivered (ap_reads c) = Some body \<and> canonical body \<and> int (length body) \<le> maxb \<and> archived ls st' d' (er_MessageID a) body"
proof -
  have "(disk_ok d' \<and> disk_le d d') \<and> (r = Inl e \<longrightarrow> st' = st) \<and> (r = Inr a \<and> er_Replayed a \<longrightarrow> st' = st \<and> d' = d)
    \<and> (r = Inr a \<and> \<not> er_Replayed a \<and> faithful_reads (ap_chunk c) \<longrightarrow>
        (\<exists>body. delivered (ap_reads c) = Some body \<and> canonical body \<and> int (length body) \<le> maxb \<and> archived ls st' d' (er_MessageID a) body))"
    using run
  proof (rule ReceiveReplacing_cases)
    fix sub :: submission and body i x
    let ?s = "sub\<lparr>sm_ID := i, sm_ReceivedAt := ap_received c\<rparr>" let ?p = "publish_archive U w werr ls c body"
    assume prep: "prepare U maxb inspect c q = Inr (sub, body)" and i: "ap_id c = Inr i"
      and enq: "enqueueIdempotent U E ids ?s (rq_identity q) (rq_key q) ?p st d = (x, d')"
      and x: "case x of Inl e \<Rightarrow> r = Inl e \<and> st' = st | Inr (a, st1) \<Rightarrow> r = Inr a \<and> st' = st1"
    have shape: "uuid_shape (sm_ID ?s)" using ids [OF i] by simp
    note files = enqueueIdempotent_files [OF enq]
    have safe: "disk_ok d' \<and> disk_le d d'" using files publish_archive_file(1) [OF d shape] d by auto
    have new: "\<exists>body. delivered (ap_reads c) = Some body \<and> canonical body \<and> int (length body) \<le> maxb \<and> archived ls st' d' (er_MessageID a) body"
      if h: "r = Inr a" "\<not> er_Replayed a" "faithful_reads (ap_chunk c)"
    proof -
      have xa: "x = Inr (a, st')" using x h(1) by (auto split: sum.split_asm)
      obtain st1 where st1: "enqueue_new E ids ?s (rq_identity q) (hex_encode (sha256 (rq_key q))) ?p st1 d = (Inr (a, st'), d')"
        by (rule enqueueIdempotent_new [OF enq [unfolded xa] publish_archive_ok h(2)])
      obtain s0 where s0: "?p ?s d = (Inr s0, d')" "stored s0 st'" "er_MessageID a = sm_ID s0"
        by (rule enqueue_new_stored [OF st1 publish_archive_ok])
      from publish_archive_file(2) [OF d shape s0(1) refl h(3)] archivedI [OF s0(2)] s0(3)
      have "archived ls st' d' (er_MessageID a) body" by metis
      with prepare_body [OF prep] show ?thesis by blast
    qed
    have old: "st' = st \<and> d' = d" if "r = Inr a" "er_Replayed a"
    proof -
      have xa: "x = Inr (a, st')" using x that(1) by (auto split: sum.split_asm)
      from enq [unfolded xa] that(2) show ?thesis by (rule enqueueIdempotent_replayed [OF _ publish_archive_ok])
    qed
    have "st' = st" if "r = Inl e" using x that by (auto split: sum.split_asm prod.split_asm)
    with safe new old show ?thesis by blast
  qed (use d in auto)
  then show "disk_ok d' \<and> disk_le d d'" "r = Inl e \<Longrightarrow> st' = st" "r = Inr a \<Longrightarrow> er_Replayed a \<Longrightarrow> st' = st \<and> d' = d"
    "r = Inr a \<Longrightarrow> \<not> er_Replayed a \<Longrightarrow> faithful_reads (ap_chunk c) \<Longrightarrow>
       \<exists>body. delivered (ap_reads c) = Some body \<and> canonical body \<and> int (length body) \<le> maxb \<and> archived ls st' d' (er_MessageID a) body" by blast+
qed

end
