(* ===== verification/Message_Accepted.thy ===== *)
theory Message_Accepted
  imports Message_Receive Queue_System
begin

text \<open>
  What the acceptance of messages promises to the submitter: the archive of an accepted message is on the disk, a request that is repeated
  with its idempotency key is answered once and for all, whatever the service does in between, and the budgets hold.
\<close>

subsection \<open>SMTP\<close>

lemma Receive_cases:
  assumes "Receive U E ids w werr ls inspect c e st d = (r, st', d')"
  obtains x where "r = Inl x" "st' = st" "d' = d"
  | i header rest x where "sc_id c = Inr i" "readHeader (sc_failure c) (sc_body c) = Inr (header, rest)"
      "Save U w werr ls i (sc_received c) (sc_chunk c (header @ rest) (sc_failure c)) d = (Inl x, d')" "r = Inl x" "st' = st"
  | i header rest info a where "sc_id c = Inr i" "readHeader (sc_failure c) (sc_body c) = Inr (header, rest)"
      "Save U w werr ls i (sc_received c) (sc_chunk c (header @ rest) (sc_failure c)) d = (Inr a, d')"
      "case Enqueue E ids (smtp_submission i e info a (sc_received c) (sc_archived c)) st of Inl x \<Rightarrow> r = Inl x \<and> st' = st | Inr (_, st1) \<Rightarrow> r = Inr i \<and> st' = st1"
proof -
  let ?pre = "bind_res (case sc_acquire c of Some x \<Rightarrow> Inl x | None \<Rightarrow> Inr ()) (\<lambda>_.
           bind_res (guard_res (Allows (el_Account e) (el_From e) \<and> el_Recipients e \<noteq> []) ErrSenderDenied) (\<lambda>_.
           bind_res (sc_id c) (\<lambda>i.
           bind_res (readHeader (sc_failure c) (sc_body c)) (\<lambda>(header, rest).
           bind_res (inspect header (el_Account e)) (\<lambda>info. Inr (i, header @ rest, info))))))"
  show thesis
  proof (cases ?pre)
    case (Inl x)
    with assms have "r = Inl x" "st' = st" "d' = d" unfolding Receive_def by simp_all
    then show thesis by (rule that(1))
  next
    case (Inr y)
    then obtain i header rest info where y: "y = (i, header @ rest, info)" "sc_id c = Inr i" "readHeader (sc_failure c) (sc_body c) = Inr (header, rest)"
      unfolding bind_res_Inr_iff by (auto simp: bind_res_Inr_iff)
    obtain z d1 where sv: "Save U w werr ls i (sc_received c) (sc_chunk c (header @ rest) (sc_failure c)) d = (z, d1)" by fastforce
    show thesis
    proof (cases z)
      case (Inl x)
      with assms Inr y(1) sv have "r = Inl x" "st' = st" "d' = d1" unfolding Receive_def by simp_all
      with that(2) [OF y(2,3)] sv Inl show thesis by simp
    next
      case z: (Inr a)
      with assms Inr y(1) sv have d1: "d' = d1" and q: "case Enqueue E ids (smtp_submission i e info a (sc_received c) (sc_archived c)) st of
          Inl x \<Rightarrow> r = Inl x \<and> st' = st | Inr (_, st1) \<Rightarrow> r = Inr i \<and> st' = st1"
        unfolding Receive_def by (auto split: sum.split sum.split_asm)
      show thesis by (rule that(3) [OF y(2,3) _ q]) (simp add: sv z d1)
    qed
  qed
qed

lemma smtp_accepted:
  assumes d: "disk_ok d" and ids: "\<And>i. sc_id c = Inr i \<Longrightarrow> uuid_shape i"
    and run: "Receive U E ids w werr ls inspect c e st d = (r, st', d')"
  shows "disk_ok d' \<and> disk_le d d'" "r = Inl x \<Longrightarrow> st' = st"
    "r = Inr i \<Longrightarrow> faithful_reads (sc_chunk c) \<Longrightarrow> sc_failure c = None \<and> archived ls st' d' i (sc_body c)"
proof -
  have "(disk_ok d' \<and> disk_le d d') \<and> (r = Inl x \<longrightarrow> st' = st)
    \<and> (r = Inr i \<and> faithful_reads (sc_chunk c) \<longrightarrow> sc_failure c = None \<and> archived ls st' d' i (sc_body c))"
    using run
  proof (rule Receive_cases)
    fix j header rest info a
    assume j: "sc_id c = Inr j" and h: "readHeader (sc_failure c) (sc_body c) = Inr (header, rest)"
      and sv: "Save U w werr ls j (sc_received c) (sc_chunk c (header @ rest) (sc_failure c)) d = (Inr a, d')"
      and q: "case Enqueue E ids (smtp_submission j e info a (sc_received c) (sc_archived c)) st of Inl x \<Rightarrow> r = Inl x \<and> st' = st
          | Inr (_, st1) \<Rightarrow> r = Inr j \<and> st' = st1"
    note shape = ids [OF j] note safe = Save_safe(1,2) [OF d sv shape]
    have "sc_failure c = None \<and> archived ls st' d' i (sc_body c)" if r: "r = Inr i" and f: "faithful_reads (sc_chunk c)"
    proof -
      from Save_durable [OF d sv shape] obtain t where t: "delivered (sc_chunk c (header @ rest) (sc_failure c)) = Some t"
        "after_crash d' (archive_path ls j (sc_received c)) = Some t"
        "a = \<lparr>av_Path = path_text (rooted_text (ls_Root ls)) (archive_path ls j (sc_received c)), av_Size = int (length t), av_SHA256 = hex_encode (sha256 t)\<rparr>" by blast
      have tb: "t = sc_body c" "sc_failure c = None" using f t(1) readHeader_exact [OF h] unfolding faithful_reads_def by blast+
      let ?s = "smtp_submission j e info a (sc_received c) (sc_archived c)"
      have "enqueueTx E ids ?s ''smtp'' [] [] st = Inr st'" "i = j"
        using q r by (auto simp: Enqueue_def bind_res_Inr_iff split: sum.split_asm)
      from archivedI [OF enqueueTx_stored [OF this(1)]] t(2,3) tb this(2) show ?thesis by (simp add: smtp_submission_def)
    qed
    moreover have "st' = st" if "r = Inl x" using q that by (auto split: sum.split_asm)
    ultimately show ?thesis using safe by blast
  next
    fix j header rest y
    assume j: "sc_id c = Inr j" and sv: "Save U w werr ls j (sc_received c) (sc_chunk c (header @ rest) (sc_failure c)) d = (Inl y, d')" and "r = Inl y" "st' = st"
    with Save_safe(1,2) [OF d sv ids [OF j]] show ?thesis by simp
  qed (use d in auto)
  then show "disk_ok d' \<and> disk_le d d'" "r = Inl x \<Longrightarrow> st' = st"
    "r = Inr i \<Longrightarrow> faithful_reads (sc_chunk c) \<Longrightarrow> sc_failure c = None \<and> archived ls st' d' i (sc_body c)" by blast+
qed

subsection \<open>The ledger only grows\<close>

inductive astep :: "(string \<Rightarrow> string option) \<Rightarrow> store \<times> fs \<Rightarrow> store \<times> fs \<Rightarrow> bool" for U where
  api: "ReceiveReplacing U E ids w werr ls maxb inspect c q st0 st d = (r, st', d') \<Longrightarrow> astep U (st, d) (st', d')"
| smtp: "Receive U E ids w werr ls inspect c e st d = (r, st', d') \<Longrightarrow> astep U (st, d) (st', d')"
| queue: "qstep R (core st, js) (x, js') \<Longrightarrow> astep U (st, d) (st\<lparr>core := x\<rparr>, d)"

lemma enqueueIdempotent_ledger:
  assumes "enqueueIdempotent U E ids s apiKeyID key publish st f = (Inr (r, st'), f')" and "publish_ok publish"
  shows "prefix (ledger st) (ledger st')"
proof -
  from assms(1) have "st' = st \<or> (\<exists>l st1. insert_ledger l st = Inr st1 \<and> enqueue_new E ids s apiKeyID (hex_encode (sha256 key)) publish st1 f = (Inr (r, st'), f'))"
    unfolding enqueueIdempotent_def Let_def by (auto split: if_split_asm sum.split_asm option.split_asm)
  then show ?thesis using enqueue_new_ledger(1) [OF _ assms(2)] by (auto simp: insert_ledger_def split: if_split_asm)
qed

lemma astep_ledger: "astep U x y \<Longrightarrow> prefix (ledger (fst x)) (ledger (fst y))"
proof (induction rule: astep.induct)
  case (api E ids w werr ls maxb inspect c q st0 st d r st' d')
  then show ?case
  proof (rule ReceiveReplacing_cases)
    fix sub :: submission and body i x
    assume enq: "enqueueIdempotent U E ids (sub\<lparr>sm_ID := i, sm_ReceivedAt := ap_received c\<rparr>) (rq_identity q) (rq_key q) (publish_archive U w werr ls c body) st d = (x, d')"
      and x: "case x of Inl e \<Rightarrow> r = Inl e \<and> st' = st | Inr (a, st1) \<Rightarrow> r = Inr a \<and> st' = st1"
    show ?thesis
    proof (cases x)
      case (Inl e)
      with x show ?thesis by simp
    next
      case (Inr z)
      obtain a st1 where z: "z = (a, st1)" by fastforce
      show ?thesis using enqueueIdempotent_ledger [OF enq [unfolded Inr z] publish_archive_ok] x Inr z by simp
    qed
  qed simp
next
  case (smtp E ids w werr ls inspect c e st d r st' d')
  then show ?case
    by (rule Receive_cases) (auto simp: Enqueue_def bind_res_Inr_iff split: sum.split_asm dest!: enqueueTx_frame(1))
qed simp

lemma asteps_ledger: "(astep U)\<^sup>*\<^sup>* x y \<Longrightarrow> prefix (ledger (fst x)) (ledger (fst y))"
  by (induction rule: rtranclp_induct) (use astep_ledger prefix_order.trans in blast)+

lemma find_entry_prefix: "prefix (ledger st) (ledger st') \<Longrightarrow> find_entry k h st = Some l \<Longrightarrow> find_entry k h st' = Some l"
  by (simp add: find_entry_def find_prefix)

lemma fingerprint_stable: "RequestFingerprint U (s\<lparr>sm_ID := i, sm_ReceivedAt := t\<rparr>) = RequestFingerprint U s"
  by (simp add: RequestFingerprint_def request_json_def)

text \<open>An answer leaves the entry of the key in the ledger, with the fingerprint of the request and the identifier that was answered.\<close>

lemma answer_in_ledger:
  assumes run: "ReceiveReplacing U E ids w werr ls maxb inspect c q st0 st d = (Inr a, st', d')" and earlier: "prefix (ledger st0) (ledger st)"
    and prep: "prepare U maxb inspect c q = Inr (sub, body)"
  obtains l where "find_entry (rq_identity q) (hex_encode (sha256 (rq_key q))) st' = Some l" "RequestFingerprint U sub = Inr (l_request_sha256 l)"
    "l_message_id l = er_MessageID a"
proof (cases "find_entry (rq_identity q) (hex_encode (sha256 (rq_key q))) st0")
  case (Some l)
  with run prep have "RequestFingerprint U sub = Inr (l_request_sha256 l)" "l_message_id l = er_MessageID a" "st' = st"
    by (auto simp: ReceiveReplacing_def split: sum.split_asm if_split_asm)
  with that find_entry_prefix [OF earlier Some] show thesis by simp
next
  case None
  with run prep obtain i where
    "enqueueIdempotent U E ids (sub\<lparr>sm_ID := i, sm_ReceivedAt := ap_received c\<rparr>) (rq_identity q) (rq_key q) (publish_archive U w werr ls c body) st d = (Inr (a, st'), d')"
    by (auto simp: ReceiveReplacing_def split: sum.split_asm prod.split_asm)
  from enqueueIdempotent_entry [OF this publish_archive_ok] that show thesis unfolding fingerprint_stable by metis
qed

subsection \<open>Budgets\<close>

lemma units_since_snoc:
  assumes "usage st' = usage st @ [u]" "0 \<le> u_units u"
  shows "units_since t span sel st' \<le> units_since t span sel st + u_units u"
  using assms by (simp add: units_since_def sum_where_def)

lemma within_limits_snoc:
  assumes "usage st' = usage st @ [u]" "0 \<le> u_units u" "within_limits [a, b, c] (used_units t sel st) (u_units u)"
  shows "within_limits [a, b, c] (used_units t sel st') 0"
proof -
  have "units_since t span sel st' \<le> units_since t span sel st + u_units u" for span by (rule units_since_snoc [OF assms(1,2)])
  from this [of Minute] this [of Hour] this [of "24 * Hour"] show ?thesis using assms(3) by (auto simp: within_limits_def used_units_def)
qed

text \<open>The website and the stream of a reservation of that many recipients, with their limits.\<close>

definition admitted :: "env \<Rightarrow> string \<Rightarrow> int \<Rightarrow> store \<Rightarrow> store \<Rightarrow> bool" where
  "admitted E identity units st use \<longleftrightarrow> (\<exists>k \<in> set (api_keys st). k_id k = identity \<and> k_enabled k
     \<and> within_limits [k_minute_limit k, k_hour_limit k, k_day_limit k] (used_units (clk E 33) (\<lambda>u. u_api_key_id u = identity) use) units
     \<and> (\<exists>s \<in> set (message_streams (core st)). st_api_key_id s = identity \<and> st_enabled s
         \<and> within_limits [st_minute_limit s, st_hour_limit s, st_day_limit s] (used_units (clk E 34) (\<lambda>u. u_api_key_id u = identity \<and> u_stream u = st_name s) use) units))"

lemma reserve_admitted:
  assumes "reserveSubmission E identity mid units stream ex sc bytes st = Inr st'"
  shows "admitted E identity units st st" "admitted E identity 0 st st'"
proof -
  obtain name k sr where "CanonicalStream stream = Inr name" and k: "k \<in> set (api_keys st)" "k_id k = identity" "k_enabled k"
    and "IsZero ex \<or> clk E 30 < ex \<and> ex \<le> clk E 30 + 720 * Hour" "admitSchedule E identity sc ex bytes st = Inr ()"
    and kw: "within_limits [k_minute_limit k, k_hour_limit k, k_day_limit k] (used_units (clk E 33) (\<lambda>u. u_api_key_id u = identity) st) units"
    and s: "sr \<in> set (message_streams (core st))" "st_api_key_id sr = identity" "st_name sr = name" "st_enabled sr"
    and sw: "within_limits [st_minute_limit sr, st_hour_limit sr, st_day_limit sr] (used_units (clk E 34) (\<lambda>u. u_api_key_id u = identity \<and> u_stream u = name) st) units"
    and ins: "insert_usage \<lparr>u_message_id = mid, u_api_key_id = identity, u_reserved_at = clk E 35, u_units = units, u_stream = name\<rparr> st = Inr st'"
    by (rule reserveSubmission_Inr [OF assms])
  let ?u = "\<lparr>u_message_id = mid, u_api_key_id = identity, u_reserved_at = clk E 35, u_units = units, u_stream = name\<rparr>"
  show "admitted E identity units st st" using k kw s sw unfolding admitted_def by blast
  have u: "usage st' = usage st @ [?u]" "0 \<le> u_units ?u" using ins by (auto simp: insert_usage_Inr)
  have "within_limits [k_minute_limit k, k_hour_limit k, k_day_limit k] (used_units (clk E 33) (\<lambda>u. u_api_key_id u = identity) st') 0"
    "within_limits [st_minute_limit sr, st_hour_limit sr, st_day_limit sr] (used_units (clk E 34) (\<lambda>u. u_api_key_id u = identity \<and> u_stream u = name) st') 0"
    using within_limits_snoc [OF u] kw sw by simp_all
  with k s show "admitted E identity 0 st st'" unfolding admitted_def by blast
qed

lemma admitted_cong:
  assumes "api_keys st = api_keys st2" "message_streams (core st) = message_streams (core st2)" "usage use = usage use2"
  shows "admitted E identity units st use = admitted E identity units st2 use2"
  using assms by (simp add: admitted_def used_units_def units_since_def)

lemma replace_prior_frame:
  assumes "replace_prior E apiKeyID s st = Inr st'"
  shows "api_keys st' = api_keys st" "message_streams (core st') = message_streams (core st)" "usage st' = usage st"
proof -
  obtain d where d: "st' = st\<lparr>core := d\<rparr>" "sm_Replaces s = [] \<and> d = core st \<or> (\<exists>b. cancelPendingTx E apiKeyID (sm_Replaces s) (sm_ID s) (core st) = Inr (b, d))"
    by (rule replace_prior_Inr [OF assms])
  then show "api_keys st' = api_keys st" "usage st' = usage st" by simp_all
  show "message_streams (core st') = message_streams (core st)"
    using d by (auto simp: cancelPendingTx_def cancel_rows_def split: option.split_asm if_split_asm)
qed

lemma insert_ledger_frame:
  assumes "insert_ledger l st = Inr st'"
  shows "api_keys st' = api_keys st" "core st' = core st" "usage st' = usage st"
  using assms by (auto simp: insert_ledger_def split: if_split_asm)

text \<open>Whatever changes the files, or accepts a message, was admitted first.\<close>

lemma enqueue_new_admitted:
  assumes run: "enqueue_new E ids s apiKeyID keyHash publish st f = (x, f')" and changed: "f' \<noteq> f \<or> (\<exists>y. x = Inr y)"
  shows "admitted E apiKeyID (int (length (el_Recipients (sm_Envelope s)))) st st"
    and "publish_ok publish \<Longrightarrow> x = Inr (r, st') \<Longrightarrow> admitted E apiKeyID 0 st st'"
proof -
  obtain st1 st2 where p: "replace_prior E apiKeyID s st = Inr st1" and rs: "reserveSubmission E apiKeyID (sm_ID s) (int (length (el_Recipients (sm_Envelope s)))) (sm_Stream s)
      (gt_instant (sm_ExpiresAt s)) (gt_instant (sm_ScheduleAt s)) (av_Size (sm_Archive s)) st1 = Inr st2"
    using run changed unfolding enqueue_new_def by (cases "bind_res (replace_prior E apiKeyID s st)
         (reserveSubmission E apiKeyID (sm_ID s) (int (length (el_Recipients (sm_Envelope s)))) (sm_Stream s) (gt_instant (sm_ExpiresAt s))
            (gt_instant (sm_ScheduleAt s)) (av_Size (sm_Archive s)))") (auto simp: bind_res_Inr_iff)
  show "admitted E apiKeyID (int (length (el_Recipients (sm_Envelope s)))) st st"
    using reserve_admitted(1) [OF rs] admitted_cong [OF replace_prior_frame [OF p]] by blast
  assume pub: "publish_ok publish" and x: "x = Inr (r, st')"
  obtain st1' st2' s0 s' st3 where "publish s f = (Inr s0, f')" "sm_Archive s' = sm_Archive s0" and p': "replace_prior E apiKeyID s st = Inr st1'"
    and rs': "reserveSubmission E apiKeyID (sm_ID s) (int (length (el_Recipients (sm_Envelope s)))) (sm_Stream s) (gt_instant (sm_ExpiresAt s)) (gt_instant (sm_ScheduleAt s))
       (av_Size (sm_Archive s)) st1' = Inr st2'"
    and "sm_ID s' = sm_ID s" "sm_Replaces s' = sm_Replaces s" "el_Recipients (sm_Envelope s') = el_Recipients (sm_Envelope s)"
    and tx: "enqueueTx E ids s' ''api'' apiKeyID keyHash st2' = Inr st3"
    and fin: "sm_Replaces s = [] \<and> st' = st3 \<or> sm_Replaces s \<noteq> [] \<and> set_replaces apiKeyID (sm_ID s) (sm_Replaces s) st3 = Inr st'"
    and "deferred_ok st'" "r = \<lparr>er_MessageID = sm_ID s, er_Replayed = False\<rparr>"
    by (rule enqueue_new_Inr [OF run [unfolded x] pub])
  have "usage st' = usage st2'" using fin set_replaces_frame(2) enqueueTx_frame(2) [OF tx] by metis
  then show "admitted E apiKeyID 0 st st'"
    using reserve_admitted(2) [OF rs'] admitted_cong [OF replace_prior_frame(1,2) [OF p'], of st2' st'] by simp
qed

subsection \<open>A request to evaluate\<close>

definition sample_identity :: string where
  "sample_identity = ''01890000-0000-7000-8000-00000000000a''"

definition sample_store :: store where
  "sample_store = \<lparr>core = (empty_db (\<lambda>s. s))\<lparr>message_streams := [\<lparr>st_api_key_id = sample_identity, st_name = ''normal'', st_enabled = True, st_weight = 1,
       st_minute_limit = 0, st_hour_limit = 0, st_day_limit = 5\<rparr>]\<rparr>,
     api_keys = [\<lparr>k_id = sample_identity, k_enabled = True, k_environment = ''sandbox'', k_minute_limit = 2, k_hour_limit = 0, k_day_limit = 0\<rparr>],
     smtp_accounts = [], ledger = [], usage = [], meta = [], retired = [], notified = []\<rparr>"

definition sample_request :: api_request where
  "sample_request = \<lparr>rq_envelope = \<lparr>el_Account = \<lparr>ac_ID = [], ac_AllowedFrom = [''a@b.c'']\<rparr>, el_From = ''a@b.c'', el_Recipients = [''x@y.z'']\<rparr>,
     rq_identity = sample_identity, rq_key = ''order-7'', rq_stream = [], rq_expiresAt = zero_time, rq_scheduleAt = zero_time, rq_replaces = [], rq_business = []\<rparr>"

definition sample_body :: string where
  "sample_body = ''From: a@b.c'' @ CRLF @ CRLF @ ''Hi'' @ CRLF"

definition sample_chunk :: "string \<Rightarrow> err option \<Rightarrow> read list" where
  "sample_chunk s x = [\<lparr>rd_ctx = None, rd_bytes = s, rd_end = (case x of None \<Rightarrow> Eof | Some e \<Rightarrow> ReadErr e)\<rparr>]"

definition sample_call :: api_call where
  "sample_call = \<lparr>ap_acquire = None, ap_temp = None, ap_unlink = None, ap_reads = sample_chunk sample_body None, ap_werr = (\<lambda>_. None), ap_seek = (\<lambda>_. None),
     ap_conn = None, ap_lock = Inr True, ap_id = Inr sample_id, ap_received = 0, ap_archived = 1, ap_chunk = sample_chunk\<rparr>"

definition sample_inspect :: inspection where
  "sample_inspect header account = Inr ([], ''a@b.c'', [])"

definition sample_local :: local_store where
  "sample_local = \<lparr>ls_Root = ''data'', ls_MaxBytes = 1000\<rparr>"

definition sample_ids :: "nat \<Rightarrow> string" where
  "sample_ids n = show_nat n"

abbreviation sample_api :: "store \<Rightarrow> store \<Rightarrow> fs \<Rightarrow> (err + enqueue_result) \<times> store \<times> fs" where
  "sample_api \<equiv> ReceiveReplacing sample_uuid sample_env sample_ids sample_os (\<lambda>_. None) sample_local 1000 sample_inspect sample_call sample_request"

lemma digest_text_sha256: "digest_text (hex_encode (sha256 s))"
  by (simp add: digest_text_def hex_round_trip)

definition sample_sub :: submission where
  "sample_sub = api_submission sample_request ''normal'' \<lparr>bu_ClientReference = [], bu_Tags = []\<rparr> sample_body ([], ''a@b.c'', [])"

lemma sample_addresses: "CanonicalAddress ''a@b.c'' = Inr ''a@b.c''" "CanonicalAddress ''x@y.z'' = Inr ''x@y.z''"
    "Canonical \<lparr>bu_ClientReference = [], bu_Tags = []\<rparr> = Inr \<lparr>bu_ClientReference = [], bu_Tags = []\<rparr>"
    "CanonicalExpiry zero_time = Inr []" "CanonicalStream ''normal'' = Inr ''normal''" "CanonicalStream [] = Inr ''normal''"
  by code_simp+

lemma sample_fingerprint: "\<exists>f. RequestFingerprint sample_uuid sample_sub = Inr f"
  unfolding RequestFingerprint_def Let_def
  by (simp add: sample_sub_def api_submission_def sample_request_def sample_addresses digest_text_sha256 is_Inl_def sample_body_def CRLF_def)

lemma sample_header: "readHeader None sample_body = Inr (''From: a@b.c'' @ CRLF @ CRLF, ''Hi'' @ CRLF)"
proof -
  have "cut_on LF sample_body = (''From: a@b.c'' @ [CR], CRLF @ ''Hi'' @ CRLF, True)" "cut_on LF (CRLF @ ''Hi'' @ CRLF) = ([CR], ''Hi'' @ CRLF, True)" by code_simp+
  then show ?thesis by (simp add: readHeader_def header_loop_found) (simp add: CRLF_def)
qed

lemma sample_prepare: "prepare sample_uuid 1000 sample_inspect sample_call sample_request = Inr (sample_sub, sample_body)"
proof -
  have v: "request_valid sample_uuid 1000 sample_request = Inr (''normal'', \<lparr>bu_ClientReference = [], bu_Tags = []\<rparr>)" by code_simp
  have s: "snapshot 1000 sample_call = Inr sample_body" by code_simp
  show ?thesis using sample_fingerprint by (auto simp: prepare_def v s sample_header sample_inspect_def Let_def sample_sub_def [symmetric])
qed

lemma sample_save:
  "\<exists>d'. Save sample_uuid sample_os (\<lambda>_. None) sample_local sample_id 0 (sample_chunk sample_body None) sample_fs =
     (Inr \<lparr>av_Path = ''data/0001/01/01/'' @ sample_id @ ''.eml'', av_Size = 19, av_SHA256 = hex_encode (sha256 sample_body)\<rparr>, d')"
proof -
  have shape: "uuid_shape sample_id" by code_simp
  have dir: "date_components 0 @ Clean ''data'' = [''01'', ''01'', ''0001'', ''data'']" by code_simp
  have len: "length sample_body = 19" by code_simp
  have c: "copy_loop (\<lambda>_. None) 0 1001 (sample_chunk sample_body None) [] = (None, sample_body)" using len by (simp add: sample_chunk_def copy_loop_Cons)
  show ?thesis
    using shape c by (simp add: Save_def sample_local_def dir sample_uuid_def sample_fs_def save_in_def save_content_def publish_file_def fsync_file_def link_name_def
        remove_name_def syncDir_def flush_entries_def Mkdir_def sys_def is_dir_def exists_name_def eml_path_def sample_os_def temp_path_def Let_def len
        rooted_text_def path_text_def)
qed

lemma sample_saved:
  "\<exists>d'. publish_archive sample_uuid sample_os (\<lambda>_. None) sample_local sample_call sample_body (sample_sub\<lparr>sm_ID := sample_id, sm_ReceivedAt := 0\<rparr>) sample_fs =
     (Inr (sample_sub\<lparr>sm_ID := sample_id, sm_ReceivedAt := 0, sm_Archive := \<lparr>av_Path = ''data/0001/01/01/'' @ sample_id @ ''.eml'', av_Size = 19,
        av_SHA256 = hex_encode (sha256 sample_body)\<rparr>, sm_ArchivedAt := 1\<rparr>), d')"
  using sample_save by (auto simp: publish_archive_def sample_call_def)

lemma sample_reserved:
  assumes "ledger st = [l]" "l_api_key_id l = sample_identity" "l_message_id l = sample_id" "usage st = []" "api_keys st = api_keys sample_store" "core st = core sample_store"
  shows "reserveSubmission sample_env sample_identity sample_id 1 ''normal'' 0 0 19 st
    = Inr (st\<lparr>usage := [\<lparr>u_message_id = sample_id, u_api_key_id = sample_identity, u_reserved_at = 45, u_units = 1, u_stream = ''normal''\<rparr>]\<rparr>)"
  using assms by (simp add: reserveSubmission_def sample_addresses sample_store_def query_row_def admitSchedule_def batch_fits_def within_limits_def used_units_def
      units_since_def sum_where_def insert_usage_def sample_env_def)

lemma sample_enqueued:
  assumes "api_keys st = api_keys sample_store" "core st = core sample_store" "meta st = []" "retired st = []" "length keyHash = 64"
    and s: "s = sample_sub\<lparr>sm_ID := sample_id, sm_ReceivedAt := 0, sm_Archive := \<lparr>av_Path = ''data/0001/01/01/'' @ sample_id @ ''.eml'', av_Size = 19,
        av_SHA256 = hex_encode (sha256 sample_body)\<rparr>, sm_ArchivedAt := 1\<rparr>"
  shows "\<exists>st'. enqueueTx sample_env sample_ids s ''api'' sample_identity keyHash st = Inr st'"
proof -
  have f: "sm_Business s = \<lparr>bu_ClientReference = [], bu_Tags = []\<rparr>" "sm_ExpiresAt s = zero_time" "sm_ScheduleAt s = zero_time" "sm_Stream s = ''normal''"
    "sm_ID s = sample_id" "sm_Archive s = \<lparr>av_Path = ''data/0001/01/01/'' @ sample_id @ ''.eml'', av_Size = 19, av_SHA256 = hex_encode (sha256 sample_body)\<rparr>"
    "ac_ID (el_Account (sm_Envelope s)) = []" "el_Recipients (sm_Envelope s) = [''x@y.z'']"
    by (simp_all add: s sample_sub_def api_submission_def sample_request_def)
  have env: "enqueue_environment ''api'' sample_identity st = Inr ''sandbox''" using assms(1) by (simp add: enqueue_environment_def sample_store_def query_row_def)
  have hex: "set (hex_encode x) \<subseteq> set ''0123456789abcdef''" for x using hex_encode_digits by blast
  let ?m = "new_message sample_env s ''api'' sample_identity ''sandbox'' SANDBOX_STORED ''normal'' None None"
  let ?mm = "\<lparr>mm_id = sample_id, mm_message_id = sm_MessageID s, mm_subject = sm_Subject s, mm_queued_at = host sample_env, mm_idempotency_key = null_text keyHash,
         mm_business = \<lparr>bu_ClientReference = [], bu_Tags = []\<rparr>, mm_replaces = None\<rparr>"
  have idn: "null_text sample_identity = Some sample_identity" "sample_identity \<noteq> []" by code_simp+
  have acc: "message_accepted st ?m ?mm"
    unfolding message_accepted_def new_message_def using assms(1-4) hex [of "sha256 sample_body"]
    by (simp add: f idn sample_store_def empty_db_def business_constraint_def Present_def first_attempt_def whole_seconds_def null_text_def split: option.split)
  have mi: "m_id ?m = sample_id" by (simp add: new_message_def f)
  have ms: "messages (core st) = []" "recipients (core st) = []" by (simp_all add: assms(2) sample_store_def empty_db_def)
  show ?thesis
    by (simp add: enqueueTx_def f sample_addresses env enqueue_rows_def pg_deadline_def stored_status_def insert_message_def acc insert_recipient_def
        initialize_queue_owner_def ms mi enqueue_policy_def query_row_def)
qed

lemma sample_run:
  "\<exists>st' d'. sample_api sample_store sample_store sample_fs = (Inr \<lparr>er_MessageID = sample_id, er_Replayed = False\<rparr>, st', d')"
proof -
  let ?s = "sample_sub\<lparr>sm_ID := sample_id, sm_ReceivedAt := 0\<rparr>" let ?h = "hex_encode (sha256 ''order-7'')"
  let ?t = "?s\<lparr>sm_Archive := \<lparr>av_Path = ''data/0001/01/01/'' @ sample_id @ ''.eml'', av_Size = 19, av_SHA256 = hex_encode (sha256 sample_body)\<rparr>, sm_ArchivedAt := 1\<rparr>"
  obtain fp where fp: "RequestFingerprint sample_uuid sample_sub = Inr fp" using sample_fingerprint by blast
  let ?l = "\<lparr>l_api_key_id = sample_identity, l_key_sha256 = ?h, l_request_sha256 = fp, l_message_id = sample_id\<rparr>"
  let ?st1 = "sample_store\<lparr>ledger := [?l]\<rparr>"
  let ?st2 = "?st1\<lparr>usage := [\<lparr>u_message_id = sample_id, u_api_key_id = sample_identity, u_reserved_at = 45, u_units = 1, u_stream = ''normal''\<rparr>]\<rparr>"
  have ins: "insert_ledger ?l sample_store = Inr ?st1" by (simp add: insert_ledger_def sample_store_def)
  have sub: "sm_Replaces sample_sub = []" "el_Recipients (sm_Envelope sample_sub) = [''x@y.z'']" "sm_Stream sample_sub = ''normal''"
    "sm_ExpiresAt sample_sub = zero_time" "sm_ScheduleAt sample_sub = zero_time" "av_Size (sm_Archive sample_sub) = 19" "ac_ID (el_Account (sm_Envelope sample_sub)) = []"
    by (simp_all add: sample_sub_def api_submission_def sample_request_def sample_body_def CRLF_def)
  have res: "reserveSubmission sample_env sample_identity sample_id 1 ''normal'' 0 0 19 ?st1 = Inr ?st2"
    by (subst sample_reserved [where l = ?l]) (simp_all add: sample_store_def)
  obtain d' where pub: "publish_archive sample_uuid sample_os (\<lambda>_. None) sample_local sample_call sample_body ?s sample_fs = (Inr ?t, d')"
    using sample_saved by auto
  let ?u = "?t\<lparr>sm_Envelope := (sm_Envelope ?t)\<lparr>el_Account := (el_Account (sm_Envelope ?t))\<lparr>ac_ID := []\<rparr>\<rparr>\<rparr>"
  have clear: "?u = ?t" using sub(7) by simp
  obtain st3 where "enqueueTx sample_env sample_ids ?t ''api'' sample_identity ?h ?st2 = Inr st3"
    using sample_enqueued [of ?st2 ?h ?t] by (auto simp: sample_store_def)
  then have enq: "enqueueTx sample_env sample_ids ?u ''api'' sample_identity ?h ?st2 = Inr st3" by (simp only: clear)
  have "deferred_ok st3"
    using enqueueTx_frame(1,2) [OF enq] enqueueTx_stored [OF enq] by (auto simp: deferred_ok_def stored_def)
  then have "enqueue_new sample_env sample_ids ?s sample_identity ?h (publish_archive sample_uuid sample_os (\<lambda>_. None) sample_local sample_call sample_body) ?st1 sample_fs
      = (Inr (\<lparr>er_MessageID = sample_id, er_Replayed = False\<rparr>, st3), d')"
    using enq by (simp add: enqueue_new_def replace_prior_def sub res pub zero_time_def Let_def)
  moreover have "sample_uuid sample_identity = Some sample_identity" "sample_uuid sample_id = Some sample_id" "key_ok ''order-7''" by code_simp+
  moreover have "find_entry sample_identity ?h sample_store = None" by (simp add: find_entry_def sample_store_def)
  ultimately have "enqueueIdempotent sample_uuid sample_env sample_ids ?s sample_identity ''order-7''
      (publish_archive sample_uuid sample_os (\<lambda>_. None) sample_local sample_call sample_body) sample_store sample_fs
      = (Inr (\<lparr>er_MessageID = sample_id, er_Replayed = False\<rparr>, st3), d')"
    using ins fp by (simp add: enqueueIdempotent_def fingerprint_stable Let_def)
  moreover have "rq_identity sample_request = sample_identity" "rq_key sample_request = ''order-7''" by (simp_all add: sample_request_def)
  moreover have "ap_conn sample_call = None" "ap_lock sample_call = Inr True" "ap_seek sample_call 1 = None" "ap_id sample_call = Inr sample_id" "ap_received sample_call = 0"
    by (simp_all add: sample_call_def)
  ultimately show ?thesis using \<open>find_entry sample_identity ?h sample_store = None\<close> by (simp add: ReceiveReplacing_def sample_prepare check_def)
qed

lemma sample_facts:
  "disk_ok sample_fs" "\<And>i. ap_id sample_call = Inr i \<Longrightarrow> uuid_shape i" "faithful_reads (ap_chunk sample_call)" "faithful_reads sample_chunk"
proof -
  have "uuid_shape sample_id" by code_simp
  then show "\<And>i. ap_id sample_call = Inr i \<Longrightarrow> uuid_shape i" by (simp add: sample_call_def)
qed (simp_all add: disk_ok_def sample_fs_def sample_call_def faithful_reads_def sample_chunk_def split: option.split)

text \<open>The same body received over SMTP.\<close>

definition sample_envelope :: envelope where
  "sample_envelope = \<lparr>el_Account = \<lparr>ac_ID = ''A'', ac_AllowedFrom = [''a@b.c'']\<rparr>, el_From = ''a@b.c'', el_Recipients = [''x@y.z'']\<rparr>"

definition sample_smtp_store :: store where
  "sample_smtp_store = sample_store\<lparr>smtp_accounts := [\<lparr>sa_id = ''A'', sa_username = ''u'', sa_password_hash = [], sa_allowed_from = [''a@b.c''], sa_enabled = True\<rparr>]\<rparr>"

definition sample_smtp :: smtp_call where
  "sample_smtp = \<lparr>sc_acquire = None, sc_id = Inr sample_id, sc_body = sample_body, sc_failure = None, sc_received = 0, sc_archived = 1, sc_chunk = sample_chunk\<rparr>"

lemma sample_smtp_enqueued:
  fixes a :: archive
  defines "a \<equiv> \<lparr>av_Path = ''data/0001/01/01/'' @ sample_id @ ''.eml'', av_Size = 19, av_SHA256 = hex_encode (sha256 sample_body)\<rparr>"
  defines "s \<equiv> smtp_submission sample_id sample_envelope ([], ''a@b.c'', []) a 0 1"
  shows "\<exists>st'. Enqueue sample_env sample_ids s sample_smtp_store = Inr ((), st')"
proof -
  have f: "sm_Business s = \<lparr>bu_ClientReference = [], bu_Tags = []\<rparr>" "sm_ExpiresAt s = zero_time" "sm_ScheduleAt s = zero_time" "sm_Stream s = []"
    "sm_ID s = sample_id" "sm_Archive s = a" "ac_ID (el_Account (sm_Envelope s)) = ''A''" "el_Recipients (sm_Envelope s) = [''x@y.z'']"
    by (simp_all add: s_def smtp_submission_def sample_envelope_def)
  let ?m = "new_message sample_env s ''smtp'' [] ''production'' QUEUED ''normal'' None None"
  let ?mm = "\<lparr>mm_id = sample_id, mm_message_id = sm_MessageID s, mm_subject = sm_Subject s, mm_queued_at = host sample_env, mm_idempotency_key = None,
         mm_business = \<lparr>bu_ClientReference = [], bu_Tags = []\<rparr>, mm_replaces = None\<rparr>"
  have acc: "message_accepted sample_smtp_store ?m ?mm"
    unfolding message_accepted_def new_message_def using hex_encode_digits [of "sha256 sample_body"]
    by (simp add: f a_def sample_smtp_store_def sample_store_def empty_db_def business_constraint_def Present_def first_attempt_def whole_seconds_def null_text_def split: option.split)
  have mi: "m_id ?m = sample_id" by (simp add: new_message_def f)
  have ms: "messages (core sample_smtp_store) = []" "recipients (core sample_smtp_store) = []" by (simp_all add: sample_smtp_store_def sample_store_def empty_db_def)
  have found: "\<exists>x. query_row (\<lambda>m. m_id m = sample_id) (messages (enqueue_policy sample_env sample_id ''production'' d)) = Inr x" if "messages d = [?m]" for d
  proof -
    obtain b where "messages (enqueue_policy sample_env sample_id ''production'' d) = update_where (\<lambda>m. m_id m = sample_id) (policy_message sample_env ''production'' b) [?m]"
      using enqueue_policy_tables(1) [of sample_env sample_id "''production''" d] unfolding \<open>messages d = [?m]\<close> by blast
    then show ?thesis using mi by (simp add: query_row_def policy_message_def)
  qed
  show ?thesis
    using found by (auto simp: Enqueue_def enqueueTx_def f sample_addresses Present_def enqueue_environment_def enqueue_rows_def pg_deadline_def stored_status_def insert_message_def acc
        null_text_def insert_recipient_def initialize_queue_owner_def ms bind_res_Inr_iff)
qed

lemma sample_smtp_run:
  "\<exists>st' d'. Receive sample_uuid sample_env sample_ids sample_os (\<lambda>_. None) sample_local sample_inspect sample_smtp sample_envelope sample_smtp_store sample_fs
     = (Inr sample_id, st', d')"
proof -
  have "Allows (el_Account sample_envelope) (el_From sample_envelope)" by code_simp
  moreover have "''From: a@b.c'' @ CRLF @ CRLF @ ''Hi'' @ CRLF = sample_body" by (simp add: sample_body_def)
  ultimately show ?thesis using sample_save sample_smtp_enqueued
    by (auto simp: Receive_def sample_smtp_def sample_header sample_inspect_def) (simp add: sample_envelope_def)
qed

subsection \<open>Properties\<close>





text \<open>
  C32: A request is answered once and for all. After a request with an idempotency key was answered with a message, and after any number of other requests, received
  mails and steps of the delivery, a request of the same website with the same key is answered with the same message, without
  any change to the database or to the files, if its fingerprint is the same, and with a conflict otherwise.
\<close>

theorem request_answered_once:
  assumes "(astep U)\<^sup>*\<^sup>* (st0, d0) (st, d)"
    and "ReceiveReplacing U E ids w werr ls maxb inspect c q st0 st d = (Inr a, st1, d1)" and "prepare U maxb inspect c q = Inr (sub, body)"
    and "(astep U)\<^sup>*\<^sup>* (st1, d1) (st2, d2)"
    and "rq_identity q2 = rq_identity q" "rq_key q2 = rq_key q" "prepare U maxb2 inspect2 c2 q2 = Inr (sub2, body2)" "ap_conn c2 = None" "ap_lock c2 = Inr True"
  shows "ReceiveReplacing U E2 ids2 w2 werr2 ls2 maxb2 inspect2 c2 q2 st2 st3 d3 =
    (if RequestFingerprint U sub2 = RequestFingerprint U sub then Inr \<lparr>er_MessageID = er_MessageID a, er_Replayed = True\<rparr> else Inl ErrIdempotencyConflict, st3, d3)"
proof -
  have "prefix (ledger st0) (ledger st)" using asteps_ledger [OF assms(1)] by simp
  then obtain l where l: "find_entry (rq_identity q) (hex_encode (sha256 (rq_key q))) st1 = Some l" "RequestFingerprint U sub = Inr (l_request_sha256 l)"
    "l_message_id l = er_MessageID a" by (rule answer_in_ledger [OF assms(2) _ assms(3)])
  have "find_entry (rq_identity q2) (hex_encode (sha256 (rq_key q2))) st2 = Some l"
    using find_entry_prefix [OF _ l(1)] asteps_ledger [OF assms(4)] assms(5,6) by simp
  then show ?thesis using assms(7-9) l(2,3) by (auto simp: ReceiveReplacing_def check_def)
qed

theorem request_answered_once_witness:
  "case sample_api sample_store sample_store sample_fs of (r, st', d') \<Rightarrow>
     sample_api st' st' d' = (Inr \<lparr>er_MessageID = sample_id, er_Replayed = True\<rparr>, st', d')"
proof -
  obtain st' d' where run: "sample_api sample_store sample_store sample_fs = (Inr \<lparr>er_MessageID = sample_id, er_Replayed = False\<rparr>, st', d')" using sample_run by blast
  have "ap_conn sample_call = None" "ap_lock sample_call = Inr True" by (simp_all add: sample_call_def)
  with request_answered_once [OF _ run sample_prepare _ refl refl sample_prepare, of sample_fs st' d' sample_env sample_ids sample_os "\<lambda>_. None" sample_local st' d']
  show ?thesis by (simp add: run)
qed



end
