(* ===== verification/Queue_Worker.thy ===== *)
theory Queue_Worker
  imports Queue_Sample Smtp_Evidence Message_Fingerprint Storage
begin

text \<open>
  The delivery worker (internal/queue/worker.go): one turn recovers lost leases, schedules, claims a job, reads its archive into a private snapshot, hands it to the
  sender and records the outcome. The theory shows that the sender is only ever given the accepted message, and that a turn with the SMTP client of Smtp_Send as the
  sender is a sequence of the steps of Queue_System, whose invariants and properties therefore hold of the running worker.
\<close>

subsection \<open>Reading the archive\<close>

text \<open>
  What the operating system answers to readVerified: \<open>rg_open\<close> stands for the calls up to root.Open, given the storage root and the path of the job,
  \<open>rg_stat\<close> for Stat and whether the file is regular, \<open>rg_ctx\<close> for the two checks of the context, \<open>rg_reads\<close> for the calls of contextReader.Read,
  \<open>rg_werr\<close> for the writes to the snapshot.
\<close>

record reading =
  rg_open :: "string \<Rightarrow> string \<Rightarrow> err + unit"
  rg_stat :: "err + bool"
  rg_ctx :: "nat \<Rightarrow> err option"
  rg_create :: "err option"
  rg_unlink :: "err option"
  rg_reads :: "read list"
  rg_werr :: "nat \<Rightarrow> (nat \<times> err) option"
  rg_seek :: "err option"

definition check_none :: "err option \<Rightarrow> err + unit" where
  "check_none x = (case x of None \<Rightarrow> Inr () | Some e \<Rightarrow> Inl e)"

text \<open>
  io.CopyBuffer from the limited archive: the context is asked before every read, also before the one in which the limited reader reports its end
  without reading the file. The result is the copy and the reads that follow. A list that is used up is a read that makes no progress.
\<close>

fun copy_limited :: "(nat \<Rightarrow> (nat \<times> err) option) \<Rightarrow> nat \<Rightarrow> nat \<Rightarrow> read list \<Rightarrow> string \<Rightarrow> err + string \<times> read list" where
  "copy_limited werr n remaining [] out = Inl ErrNoProgress"
| "copy_limited werr n remaining (r # rs) out =
     (case rd_ctx r of
        Some e \<Rightarrow> Inl e
      | None \<Rightarrow>
          (if remaining = 0 then Inr (out, rs)
           else let bs = take remaining (rd_bytes r)
                in case (if bs = [] then None else werr n) of
                     Some (k, e) \<Rightarrow> Inl e
                   | None \<Rightarrow>
                       (case rd_end r of
                          Eof \<Rightarrow> Inr (out @ bs, rs)
                        | ReadErr e \<Rightarrow> Inl e
                        | More \<Rightarrow> copy_limited werr (Suc n) (remaining - length bs) rs (out @ bs))))"

text \<open>The read of one more byte has to report the end of the file.\<close>

definition at_end :: "read list \<Rightarrow> bool" where
  "at_end rs = (case rs of [] \<Rightarrow> False | r # _ \<Rightarrow> rd_ctx r = None \<and> rd_bytes r = [] \<and> rd_end r = Eof)"

record worker =
  w_Box :: "string \<Rightarrow> string \<Rightarrow> string \<Rightarrow> err + string"
  w_StorageRoot :: string
  w_MaxBytes :: int

definition readVerified :: "worker \<Rightarrow> reading \<Rightarrow> job \<Rightarrow> err + string" where
  "readVerified w g j =
     bind_res (guard_res (\<not> (j_Size j < 0 \<or> j_Size j > w_MaxBytes w)) (ErrNew ''invalid archive size'')) (\<lambda>_.
     bind_res (rg_open g (w_StorageRoot w) (j_Path j)) (\<lambda>_.
     bind_res (guard_res (rg_stat g = Inr True) (ErrNew ''archive must be a regular file'')) (\<lambda>_.
     bind_res (check_none (rg_ctx g 0)) (\<lambda>_.
     bind_res (check_none (rg_create g)) (\<lambda>_.
     bind_res (check_none (rg_unlink g)) (\<lambda>_.
     bind_res (copy_limited (rg_werr g) 0 (nat (j_Size j)) (rg_reads g) []) (\<lambda>(snapshot, rest).
     bind_res (guard_res (at_end rest) (ErrNew ''archive size mismatch'')) (\<lambda>_.
     bind_res (guard_res (\<not> (int (length snapshot) \<noteq> j_Size j \<or> hex_encode (sha256 snapshot) \<noteq> j_SHA256 j)) (ErrNew ''archive integrity mismatch'')) (\<lambda>_.
     bind_res (check_none (rg_ctx g 1)) (\<lambda>_.
     bind_res (check_none (rg_seek g)) (\<lambda>_.
     Inr snapshot)))))))))))"

subsection \<open>Delivering a job\<close>

definition failure :: "time \<Rightarrow> job \<Rightarrow> string \<Rightarrow> result" where
  "failure t j class = empty_result\<lparr>o_Status := TEMP_FAILED, o_ErrorClass := class, o_ErrorMessage := ''delivery preparation failed'', o_StartedAt := t, o_FinishedAt := t,
     o_Recipients := map (\<lambda>rc. \<lparr>rr_ID = rc_ID rc, rr_Status = TEMP_FAILED, rr_Stage = [], rr_Code = 0, rr_Enhanced = [], rr_Response = []\<rparr>) (j_Recipients j)\<rparr>"

text \<open>
  The interface Sender: the job, the password and the message, and the database its callbacks ArmData and Record work on. A call that panics has no result.
\<close>

type_synonym sender = "job \<Rightarrow> string \<Rightarrow> string \<Rightarrow> db \<Rightarrow> result option \<times> db"

definition deliver_attempt :: "worker \<Rightarrow> reading \<Rightarrow> time \<Rightarrow> sender \<Rightarrow> job \<Rightarrow> db \<Rightarrow> result option \<times> db" where
  "deliver_attempt w g t snd_mail j d =
     (case w_Box w (p_ID (j_Provider j)) (p_Ciphertext (j_Provider j)) (p_Nonce (j_Provider j)) of
        Inl _ \<Rightarrow> (Some (failure t j ''CREDENTIAL_DECRYPTION_ERROR''), d)
      | Inr password \<Rightarrow>
          (case readVerified w g j of
             Inl _ \<Rightarrow> (Some (failure t j ''LOCAL_STORAGE_ERROR''), d)
           | Inr raw \<Rightarrow> snd_mail j password raw d))"

definition deliver :: "repo \<Rightarrow> env \<Rightarrow> worker \<Rightarrow> reading \<Rightarrow> time \<Rightarrow> sender \<Rightarrow> job \<Rightarrow> db \<Rightarrow> err option \<times> db" where
  "deliver R E w g t snd_mail j d =
     (case deliver_attempt w g t snd_mail j d of
        (None, d) \<Rightarrow> (Some (ErrNew ''worker panic; lease retained for recovery''), d)
      | (Some out, d) \<Rightarrow> (case Finish R E j out d of Inl e \<Rightarrow> (Some e, d) | Inr (_, d) \<Rightarrow> (None, d)))"

text \<open>runOne: \<open>acquired\<close> is the error of the reservation of memory and disk, \<open>Es\<close> the environments of the transactions in their order.\<close>

definition runOne :: "repo \<Rightarrow> (nat \<Rightarrow> env) \<Rightarrow> err option \<Rightarrow> worker \<Rightarrow> reading \<Rightarrow> time \<Rightarrow> sender \<Rightarrow> db \<Rightarrow> (bool \<times> err option) \<times> db" where
  "runOne R Es acquired w g t snd_mail d =
     (case acquired of
        Some e \<Rightarrow> ((False, Some e), d)
      | None \<Rightarrow>
          (case Schedule R (Es 0) (Es 1) d of
             (Inl e, d) \<Rightarrow> ((False, Some e), d)
           | (Inr _, d) \<Rightarrow>
               (case Claim R (Es 2) (Es 3) (Es 4) d of
                  (Inl e, d) \<Rightarrow> (if e = ErrNoJob then ((False, None), d) else ((False, Some e), d))
                | (Inr j, d) \<Rightarrow> (case deliver R (Es 5) w g t snd_mail j d of (e, d) \<Rightarrow> ((True, e), d)))))"

text \<open>One turn of the loop of Run, with stopClaims at its two checks; the first component says whether the loop goes on at once, waits or ends.\<close>

datatype next_turn = At_once | After_pause | Ended

definition turn :: "repo \<Rightarrow> (nat \<Rightarrow> env) \<Rightarrow> bool \<times> bool \<Rightarrow> err option \<Rightarrow> worker \<Rightarrow> reading \<Rightarrow> time \<Rightarrow> sender \<Rightarrow> db \<Rightarrow> next_turn \<times> db" where
  "turn R Es stopped acquired w g t snd_mail d =
     (if fst stopped then (Ended, d)
      else let d = commit_tx (Recover (Es 6)) d in
        if snd stopped then (Ended, d)
        else (case runOne R Es acquired w g t snd_mail d of ((worked, e), d) \<Rightarrow> (if \<not> worked \<or> e \<noteq> None then After_pause else At_once, d)))"

subsection \<open>What is read\<close>

lemma check_none_Inr [simp]: "check_none x = Inr u \<longleftrightarrow> x = None"
  by (cases x) (simp_all add: check_none_def)

lemma readVerified_Inr:
  assumes "readVerified w g j = Inr raw"
  shows "int (length raw) = j_Size j \<and> hex_encode (sha256 raw) = j_SHA256 j \<and> j_Size j \<le> w_MaxBytes w"
  using assms by (auto simp: readVerified_def bind_res_Inr_iff)

text \<open>An archive that is in order: it gives the message in pieces and then its end, and nothing else fails.\<close>

fun intact_reads :: "string \<Rightarrow> read list \<Rightarrow> bool" where
  "intact_reads body [] = False"
| "intact_reads body (r # rs) =
     (rd_ctx r = None \<and> (if body = [] then at_end rs
        else rd_end r = More \<and> rd_bytes r \<noteq> [] \<and> prefix (rd_bytes r) body \<and> intact_reads (drop (length (rd_bytes r)) body) rs))"

definition intact :: "worker \<Rightarrow> reading \<Rightarrow> job \<Rightarrow> string \<Rightarrow> bool" where
  "intact w g j body \<longleftrightarrow> j_Size j \<le> w_MaxBytes w \<and> rg_open g (w_StorageRoot w) (j_Path j) = Inr () \<and> rg_stat g = Inr True \<and> rg_ctx g 0 = None \<and> rg_ctx g 1 = None
     \<and> rg_create g = None \<and> rg_unlink g = None \<and> rg_seek g = None \<and> rg_werr g = Map.empty \<and> intact_reads body (rg_reads g)"

lemma copy_intact:
  assumes "intact_reads body rs"
  shows "\<exists>rest. copy_limited Map.empty n (length body) rs out = Inr (out @ body, rest) \<and> at_end rest"
  using assms
proof (induction body rs arbitrary: n out rule: intact_reads.induct)
  case (2 body r rs)
  show ?case
  proof (cases "body = []")
    case True
    with "2.prems" show ?thesis by simp
  next
    case False
    with "2.prems" have r: "rd_ctx r = None" "rd_end r = More" "rd_bytes r \<noteq> []" "prefix (rd_bytes r) body" "intact_reads (drop (length (rd_bytes r)) body) rs"
      by simp_all
    then obtain rest where body: "body = rd_bytes r @ rest" by (auto simp: prefix_def)
    obtain q where "copy_limited Map.empty (Suc n) (length (drop (length (rd_bytes r)) body)) rs (out @ rd_bytes r) = Inr ((out @ rd_bytes r) @ drop (length (rd_bytes r)) body, q)"
      "at_end q" using "2.IH" [OF False r(5)] by blast
    then show ?thesis using r(1-3) by (simp add: body)
  qed
qed simp

lemma readVerified_intact:
  assumes "intact w g j body" "j_SHA256 j = hex_encode (sha256 body)" "j_Size j = int (length body)"
  shows "readVerified w g j = Inr body"
proof -
  from assms obtain rest where "copy_limited (rg_werr g) 0 (length body) (rg_reads g) [] = Inr (body, rest)" "at_end rest"
    using copy_intact [of body "rg_reads g" 0 "[]"] by (auto simp: intact_def)
  with assms show ?thesis by (simp add: readVerified_def intact_def check_none_def)
qed

subsection \<open>The result of the client\<close>

lemma retry_evidence:
  assumes "d_Action (Decide e b) = Retry"
  shows "\<not> remote_uncertain e \<and> \<not> final_accepted e \<and> (ev_Status e = TEMP_FAILED \<or> 400 \<le> ev_Code e \<and> ev_Code e < 500)"
proof -
  obtain d where d: "decide_switch e = Inr d" using Decide_retry_switch(1) [OF assms] by blast
  from decide_switch_retry(3) [OF d] have "ev_Status e = TEMP_FAILED \<or> 400 \<le> ev_Code e \<and> ev_Code e < 500"
    by (auto simp: decide_failure_def rcRejected_def Let_def split: if_split_asm)
  with decide_switch_retry(1,2) [OF d] show ?thesis by blast
qed

text \<open>The results of the SMTP client are those the steps of the queue allow.\<close>

lemma Send_sane:
  assumes "running k" "\<not> k_probe k"
  shows "sane_result (sd_out (Send k))"
proof -
  let ?out = "sd_out (Send k)"
  have "rr_Status rc = TEMP_FAILED" if rc: "rc \<in> set (o_Recipients ?out)" and retry: "d_Action (Decide (rcpt_evidence ?out rc) b) = Retry" for rc b
  proof -
    note e = retry_evidence [OF retry]
    have hard: "rr_Status rc = TEMP_FAILED" if "rr_Status rc \<in> {TEMP_FAILED, PERM_FAILED}" "hard rc"
      using e that by (auto simp: rcpt_evidence_def hard_def)
    have view: "v_recs (view (Send k)) = o_Recipients ?out" "v_code (view (Send k)) = o_Code ?out" "v_final (view (Send k)) = o_FinalResponseAt ?out" by (simp_all add: view_def)
    from Send_ends [OF assms(1)] show ?thesis
    proof
      assume "Stop k (view (Send k))"
      then show ?thesis using rc hard view by (auto simp: Stop_def)
    next
      assume "Done k (view (Send k))"
      then have "rejected rc \<or> concluded k (view (Send k)) rc" using rc view by (auto simp: Done_def)
      then show ?thesis using e hard view
        by (auto simp: rejected_def concluded_def rcpt_evidence_def remote_uncertain_def final_accepted_def)
    qed
  qed
  moreover have "o_Status ?out \<noteq> IN_PROGRESS" using assms(2) by (simp add: Send_def Let_def Aggregate_def)
  ultimately show ?thesis by (simp add: sane_result_def)
qed

lemma failure_sane: "sane_result (failure t j class)"
  by (simp add: sane_result_def failure_def)

subsection \<open>The worker as steps of the queue\<close>

text \<open>The callbacks of a delivery: ArmData and Record for its job, in any number and order.\<close>

inductive session :: "job \<Rightarrow> db \<Rightarrow> db \<Rightarrow> bool" for j where
  quiet: "session j d d"
| armed: "session j d d' \<Longrightarrow> session j d (commit_tx (ArmData E j) d')"
| recorded: "session j d d' \<Longrightarrow> session j d (commit_tx (Record E j e) d')"

text \<open>A call of the client for the job, whose payload is the given message as far as it can be read, and a sender that is this client or panics.\<close>

definition client_call :: "call \<Rightarrow> job \<Rightarrow> string \<Rightarrow> string \<Rightarrow> bool" where
  "client_call k j password raw \<longleftrightarrow> running k \<and> \<not> k_probe k \<and> k_p k = j_Provider j \<and> k_password k = password \<and> k_from k = j_From j \<and> k_recipients k = j_Recipients j
     \<and> (delivered (k_payload k) = None \<or> delivered (k_payload k) = Some raw)"

definition smtp_sender :: "sender \<Rightarrow> bool" where
  "smtp_sender snd_mail \<longleftrightarrow> (\<forall>j password raw d res d'. snd_mail j password raw d = (res, d') \<longrightarrow> session j d d'
     \<and> (\<forall>out. res = Some out \<longrightarrow> (\<exists>k. client_call k j password raw \<and> out = sd_out (Send k))))"

lemma session_steps:
  assumes "session j d d'" "j \<in> set js"
  shows "(qstep R)\<^sup>*\<^sup>* (d, js) (d', js)"
  using assms
proof (induction rule: session.induct)
  case (armed d d' E)
  then show ?case using qstep.arm rtranclp.rtrancl_into_rtrancl by metis
next
  case (recorded d d' E e)
  then show ?case using qstep.note_event rtranclp.rtrancl_into_rtrancl by metis
qed simp

lemma attempt_steps:
  assumes "smtp_sender snd_mail" "deliver_attempt w g t snd_mail j d = (res, d')"
  shows "session j d d' \<and> (\<forall>out. res = Some out \<longrightarrow> sane_result out)"
proof (cases "\<exists>password raw. snd_mail j password raw d = (res, d')")
  case True
  then obtain password raw where "snd_mail j password raw d = (res, d')" by blast
  with assms(1) show ?thesis unfolding smtp_sender_def client_call_def using Send_sane by blast
next
  case False
  then show ?thesis using assms(2) failure_sane by (auto simp: deliver_attempt_def session.quiet split: sum.split_asm)
qed

lemma deliver_steps:
  assumes "smtp_sender snd_mail" "deliver R E w g t snd_mail j d = (e, d')" "j \<in> set js"
  shows "(qstep R)\<^sup>*\<^sup>* (d, js) (d', js)"
proof -
  obtain res d1 where a: "deliver_attempt w g t snd_mail j d = (res, d1)" by fastforce
  note s = attempt_steps [OF assms(1) a]
  have first: "(qstep R)\<^sup>*\<^sup>* (d, js) (d1, js)" using session_steps s assms(3) by blast
  show ?thesis
  proof (cases res)
    case None
    then show ?thesis using assms(2) a first by (simp add: deliver_def)
  next
    case (Some out)
    have "d' = commit_tx (Finish R E j out) d1" using assms(2) a Some by (auto simp: deliver_def commit_tx_def split: sum.split_asm)
    then have "qstep R (d1, js) (d', js)" using qstep.finish [OF assms(3)] s Some by blast
    with first show ?thesis by (rule rtranclp.rtrancl_into_rtrancl)
  qed
qed

lemma runOne_steps:
  assumes "smtp_sender snd_mail" "runOne R Es acquired w g t snd_mail d = (r, d')"
  shows "\<exists>js'. (qstep R)\<^sup>*\<^sup>* (d, js) (d', js')"
proof (cases acquired)
  case (Some e)
  then show ?thesis using assms(2) by (auto simp: runOne_def)
next
  case None
  obtain res d1 where sched: "Schedule R (Es 0) (Es 1) d = (res, d1)" by fastforce
  have 1: "qstep R (d, js) (d1, js)" by (rule qstep.schedule [OF sched])
  obtain c d2 where cl: "Claim R (Es 2) (Es 3) (Es 4) d1 = (c, d2)" by fastforce
  show ?thesis
  proof (cases res)
    case (Inl e)
    then show ?thesis using assms(2) None sched 1 by (auto simp: runOne_def)
  next
    case (Inr u)
    show ?thesis
    proof (cases c)
      case (Inl e)
      then have "d' = d2" using assms(2) None sched cl \<open>res = Inr u\<close> by (auto simp: runOne_def split: if_split_asm)
      moreover have "qstep R (d1, js) (d2, js)" using qstep.idle cl Inl by blast
      ultimately show ?thesis using 1 by (meson converse_rtranclp_into_rtranclp r_into_rtranclp)
    next
      case (Inr j)
      obtain e where dl: "deliver R (Es 5) w g t snd_mail j d2 = (e, d')" using assms(2) None sched cl \<open>res = Inr u\<close> Inr by (auto simp: runOne_def split: prod.split_asm)
      have "qstep R (d1, js) (d2, j # js)" using qstep.claimed cl Inr by blast
      moreover have "(qstep R)\<^sup>*\<^sup>* (d2, j # js) (d', j # js)" by (rule deliver_steps [OF assms(1) dl]) simp
      ultimately show ?thesis using 1 by (meson converse_rtranclp_into_rtranclp)
    qed
  qed
qed

lemma turn_steps:
  assumes "smtp_sender snd_mail" "turn R Es stopped acquired w g t snd_mail d = (r, d')"
  shows "\<exists>js'. (qstep R)\<^sup>*\<^sup>* (d, js) (d', js')"
proof -
  let ?d = "commit_tx (Recover (Es 6)) d"
  have 1: "qstep R (d, js) (?d, js)" by (rule qstep.recover)
  obtain x d1 where run: "runOne R Es acquired w g t snd_mail ?d = (x, d1)" by fastforce
  have "d' = d \<or> d' = ?d \<or> d' = d1" using assms(2) run by (auto simp: turn_def Let_def split: if_split_asm prod.split_asm)
  then show ?thesis using 1 runOne_steps [OF assms(1) run, of js] by (meson converse_rtranclp_into_rtranclp r_into_rtranclp rtranclp.rtrancl_refl)
qed

subsection \<open>A turn\<close>

text \<open>A worker with a short message in its archive, and a sender that is the client with the network of the sample conversation.\<close>

definition sample_worker :: worker where
  "sample_worker = \<lparr>w_Box = (\<lambda>_ _ _. Inr ''pw''), w_StorageRoot = ''/data'', w_MaxBytes = 100\<rparr>"

definition sample_reading :: reading where
  "sample_reading = \<lparr>rg_open = (\<lambda>_ _. Inr ()), rg_stat = Inr True, rg_ctx = Map.empty, rg_create = None, rg_unlink = None,
     rg_reads = [\<lparr>rd_ctx = None, rd_bytes = ''hi'', rd_end = More\<rparr>, \<lparr>rd_ctx = None, rd_bytes = [], rd_end = Eof\<rparr>, \<lparr>rd_ctx = None, rd_bytes = [], rd_end = Eof\<rparr>],
     rg_werr = Map.empty, rg_seek = None\<rparr>"

definition sample_client :: sender where
  "sample_client j password raw d = (Some (sd_out (Send ((sample_call (Reply 250 []))\<lparr>k_p := j_Provider j, k_password := password, k_from := j_From j,
     k_recipients := j_Recipients j, k_payload := [\<lparr>rd_ctx = None, rd_bytes = raw, rd_end = Eof\<rparr>]\<rparr>))), d)"

lemma sample_client_ok: "smtp_sender sample_client"
proof -
  have "client_call ((sample_call (Reply 250 []))\<lparr>k_p := j_Provider j, k_password := password, k_from := j_From j,
     k_recipients := j_Recipients j, k_payload := [\<lparr>rd_ctx = None, rd_bytes = raw, rd_end = Eof\<rparr>]\<rparr>) j password raw" for j password raw
    by (simp add: client_call_def running_def sample_call_def)
  then show ?thesis unfolding smtp_sender_def sample_client_def using session.quiet by blast
qed

subsection \<open>Properties\<close>

text \<open>
  C39: Only the accepted message is sent. For a job with the size and the digest of a message, a delivery does exactly what it would do if the sender had been given that message,
  whatever the archive holds by now, unless another message of the same length has the same SHA-256; and an archive that is in order is read back as the message.
\<close>

theorem only_accepted_message_sent:
  assumes "j_SHA256 j = hex_encode (sha256 body)" "j_Size j = int (length body)"
  shows "(deliver R E w g t snd_mail j d = deliver R E w g t (\<lambda>j password _. snd_mail j password body) j d
      \<or> (\<exists>other. other \<noteq> body \<and> length other = length body \<and> sha256 other = sha256 body))
    \<and> (intact w g j body \<longrightarrow> readVerified w g j = Inr body)"
proof (intro conjI impI)
  show "deliver R E w g t snd_mail j d = deliver R E w g t (\<lambda>j password _. snd_mail j password body) j d
      \<or> (\<exists>other. other \<noteq> body \<and> length other = length body \<and> sha256 other = sha256 body)"
  proof (cases "readVerified w g j")
    case (Inl e)
    then have "deliver_attempt w g t snd_mail j d = deliver_attempt w g t (\<lambda>j password _. snd_mail j password body) j d"
      by (simp add: deliver_attempt_def split: sum.split)
    then show ?thesis by (simp add: deliver_def)
  next
    case (Inr raw)
    have same: "length raw = length body" "sha256 raw = sha256 body"
      using readVerified_Inr [OF Inr] assms hex_encode_inj by auto
    show ?thesis
    proof (cases "raw = body")
      case True
      then have "deliver_attempt w g t snd_mail j d = deliver_attempt w g t (\<lambda>j password _. snd_mail j password body) j d"
        using Inr by (simp add: deliver_attempt_def split: sum.split)
      then show ?thesis by (simp add: deliver_def)
    next
      case False
      with same show ?thesis by blast
    qed
  qed
qed (use readVerified_intact assms in blast)

theorem only_accepted_message_sent_witness:
  "readVerified sample_worker sample_reading (sample_job\<lparr>j_SHA256 := hex_encode (sha256 ''hi''), j_Size := 2\<rparr>) = Inr ''hi''"
proof -
  let ?j = "sample_job\<lparr>j_SHA256 := hex_encode (sha256 ''hi''), j_Size := 2\<rparr>"
  have "intact sample_worker sample_reading ?j ''hi''" by (simp add: intact_def sample_worker_def sample_reading_def at_end_def)
  then show ?thesis using only_accepted_message_sent [of ?j "''hi''" sample_repo sample_env sample_worker sample_reading 0 sample_client sample_db] by simp
qed

text \<open>
  C40: A turn of the worker, with the SMTP client as its sender, is a sequence of steps of the queue: recovery, scheduling, a claim, permissions, recorded events and an outcome
  whose statuses agree with the policy. So from a reachable state it leads to a reachable state, and everything shown of those holds of the worker.
\<close>

theorem worker_takes_queue_steps:
  assumes "smtp_sender snd_mail" "turn R Es stopped acquired w g t snd_mail d = (r, d')" "reachable R (d, js)"
  shows "\<exists>js'. (qstep R)\<^sup>*\<^sup>* (d, js) (d', js') \<and> reachable R (d', js')"
proof -
  obtain js' where steps: "(qstep R)\<^sup>*\<^sup>* (d, js) (d', js')" using turn_steps [OF assms(1,2)] by blast
  then have "reachable R (d', js')" using assms(3) by (induction rule: rtranclp_induct) (auto intro: reachable.step)
  with steps show ?thesis by blast
qed

theorem worker_takes_queue_steps_witness:
  "\<exists>js'. reachable sample_repo (snd (turn sample_repo (\<lambda>_. sample_env) (False, False) None sample_worker sample_reading 10 sample_client sample_db), js')"
proof -
  obtain r d' where turn: "turn sample_repo (\<lambda>_. sample_env) (False, False) None sample_worker sample_reading 10 sample_client sample_db = (r, d')" by fastforce
  from worker_takes_queue_steps [OF sample_client_ok turn sample_reachable] show ?thesis unfolding turn by auto
qed

end
