(* ===== verification/Webhook_Dial.thy ===== *)
theory Webhook_Dial
  imports Webhook_Sign
begin

unbundle bit_operations_syntax

text \<open>
  Where a notification may be sent (publicIP and safeDial of internal/webhook/http.go), with the addresses and prefixes of Go's package net/netip as words.
  The theory shows which addresses pass, as ranges, and that a connection is only ever opened to one of them.
\<close>

subsection \<open>Addresses (net/netip)\<close>

datatype addr = NoAddr | Addr4 "32 word" | Addr6 "128 word" string

definition Is4In6 :: "128 word \<Rightarrow> bool" where
  "Is4In6 a = (drop_bit 32 a = 0xFFFF)"

fun Unmap :: "addr \<Rightarrow> addr" where
  "Unmap (Addr6 a z) = (if Is4In6 a then Addr4 (ucast a) else Addr6 a z)"
| "Unmap ip = ip"

definition v4 :: "32 word \<Rightarrow> nat \<Rightarrow> nat" where
  "v4 a i = unat (drop_bit ((3 - i) * 8) a) mod 256"

definition v6 :: "128 word \<Rightarrow> nat \<Rightarrow> nat" where
  "v6 a i = unat (drop_bit ((15 - i) * 8) a) mod 256"

definition v6u16 :: "128 word \<Rightarrow> nat \<Rightarrow> nat" where
  "v6u16 a i = unat (drop_bit ((7 - i) * 16) a) mod 65536"

definition IsLoopback :: "addr \<Rightarrow> bool" where
  "IsLoopback ip = (case Unmap ip of NoAddr \<Rightarrow> False | Addr4 a \<Rightarrow> v4 a 0 = 127 | Addr6 a _ \<Rightarrow> a = 1)"

definition IsMulticast :: "addr \<Rightarrow> bool" where
  "IsMulticast ip = (case Unmap ip of NoAddr \<Rightarrow> False | Addr4 a \<Rightarrow> v4 a 0 AND 0xF0 = 0xE0 | Addr6 a _ \<Rightarrow> v6 a 0 = 0xFF)"

definition IsLinkLocalUnicast :: "addr \<Rightarrow> bool" where
  "IsLinkLocalUnicast ip = (case Unmap ip of NoAddr \<Rightarrow> False | Addr4 a \<Rightarrow> v4 a 0 = 169 \<and> v4 a 1 = 254 | Addr6 a _ \<Rightarrow> v6u16 a 0 AND 0xFFC0 = 0xFE80)"

definition IsPrivate :: "addr \<Rightarrow> bool" where
  "IsPrivate ip = (case Unmap ip of
     NoAddr \<Rightarrow> False
   | Addr4 a \<Rightarrow> v4 a 0 = 10 \<or> v4 a 0 = 172 \<and> v4 a 1 AND 0xF0 = 16 \<or> v4 a 0 = 192 \<and> v4 a 1 = 168
   | Addr6 a _ \<Rightarrow> v6 a 0 AND 0xFE = 0xFC)"

definition IsGlobalUnicast :: "addr \<Rightarrow> bool" where
  "IsGlobalUnicast ip = (case ip of
     NoAddr \<Rightarrow> False
   | Addr4 a \<Rightarrow> a \<noteq> 0 \<and> a \<noteq> 0xFFFFFFFF \<and> \<not> IsLoopback ip \<and> \<not> IsMulticast ip \<and> \<not> IsLinkLocalUnicast ip
   | Addr6 a z \<Rightarrow> \<not> (a = 0 \<and> z = []) \<and> \<not> IsLoopback ip \<and> \<not> IsMulticast ip \<and> \<not> IsLinkLocalUnicast ip)"

datatype prefix = NoPrefix | Prefix4 "32 word" nat | Prefix6 "128 word" nat

text \<open>Contains compares the leading bits; a prefix never contains an address of the other family or one with a zone.\<close>

fun Contains :: "prefix \<Rightarrow> addr \<Rightarrow> bool" where
  "Contains (Prefix4 p n) (Addr4 a) = (drop_bit (32 - n) (a XOR p) = 0)"
| "Contains (Prefix6 p n) (Addr6 a z) = (z = [] \<and> drop_bit (128 - n) (a XOR p) = 0)"
| "Contains _ _ = False"

text \<open>The constants of the source: a dotted quad, and the leading groups of an IPv6 address, followed by zeros.\<close>

definition quad :: "int \<Rightarrow> int \<Rightarrow> int \<Rightarrow> int \<Rightarrow> 32 word" where
  "quad a b c d = word_of_int (((a * 256 + b) * 256 + c) * 256 + d)"

definition hextets :: "int list \<Rightarrow> 128 word" where
  "hextets gs = word_of_int (fold (\<lambda>g n. 65536 * n + g) gs 0 * 65536 ^ (8 - length gs))"

subsection \<open>The destination of a notification (http.go)\<close>

definition denied :: "prefix list" where
  "denied = [Prefix4 (quad 0 0 0 0) 8, Prefix4 (quad 10 0 0 0) 8, Prefix4 (quad 100 64 0 0) 10, Prefix4 (quad 127 0 0 0) 8, Prefix4 (quad 169 254 0 0) 16,
     Prefix4 (quad 172 16 0 0) 12, Prefix4 (quad 192 0 0 0) 24, Prefix4 (quad 192 0 2 0) 24, Prefix4 (quad 192 168 0 0) 16, Prefix4 (quad 192 88 99 0) 24,
     Prefix4 (quad 198 18 0 0) 15, Prefix4 (quad 198 51 100 0) 24, Prefix4 (quad 203 0 113 0) 24, Prefix4 (quad 224 0 0 0) 4, Prefix4 (quad 240 0 0 0) 4,
     Prefix6 (hextets []) 96, Prefix6 (hextets [0, 0, 0, 0, 0, 0xffff]) 96, Prefix6 (hextets [0x64, 0xff9b]) 96, Prefix6 (hextets [0x64, 0xff9b, 1]) 48,
     Prefix6 (hextets [0x100]) 64, Prefix6 (hextets [0x2001]) 23, Prefix6 (hextets [0x2001, 0xdb8]) 32, Prefix6 (hextets [0x2002]) 16, Prefix6 (hextets [0x3fff]) 20,
     Prefix6 (hextets [0xfc00]) 7, Prefix6 (hextets [0xfe80]) 10, Prefix6 (hextets [0xff00]) 8]"

definition Zone :: "addr \<Rightarrow> string" where
  "Zone ip = (case ip of Addr6 a z \<Rightarrow> z | _ \<Rightarrow> [])"

definition publicIP :: "addr \<Rightarrow> bool" where
  "publicIP ip =
     (if ip = NoAddr \<or> Zone ip \<noteq> [] \<or> \<not> IsGlobalUnicast ip \<or> IsPrivate ip \<or> IsLoopback ip \<or> IsLinkLocalUnicast ip then False
      else if list_ex (\<lambda>p. Contains p ip) denied then False
      else (case ip of Addr4 _ \<Rightarrow> True | _ \<Rightarrow> Contains (Prefix6 (hextets [0x2000]) 3) ip))"

text \<open>net.SplitHostPort; every error is the same to the caller.\<close>

definition SplitHostPort :: "string \<Rightarrow> (string \<times> string) option" where
  "SplitHostPort s = (case last_index (CHR '':'') s of
     None \<Rightarrow> None
   | Some i \<Rightarrow>
       (if hd s = CHR ''['' then
          (case cut_on (CHR '']'') s of (before, after, found) \<Rightarrow>
             (if \<not> found \<or> length before + 1 \<noteq> i \<or> CHR ''['' \<in> set (drop 1 s) \<or> CHR '']'' \<in> set after then None
              else Some (drop 1 before, drop (Suc i) s)))
        else (let name = take i s in
          if CHR '':'' \<in> set name \<or> CHR ''['' \<in> set s \<or> CHR '']'' \<in> set s then None else Some (name, drop (Suc i) s))))"

text \<open>
  The resolver and the dialer are arguments; the dialer is given the address itself, where the code joins its text with the port.
\<close>

definition safeDial :: "string \<Rightarrow> string \<Rightarrow> (string \<Rightarrow> err + addr list) \<Rightarrow> (addr \<Rightarrow> string \<Rightarrow> err + 'c) \<Rightarrow> err + 'c" where
  "safeDial address expected lookup dial = (case SplitHostPort address of
     None \<Rightarrow> Inl (ErrNew ''invalid webhook destination'')
   | Some (name, port) \<Rightarrow>
       (if name \<noteq> expected \<or> port \<noteq> ''443'' then Inl (ErrNew ''invalid webhook destination'')
        else (case lookup name of
          Inl _ \<Rightarrow> Inl (ErrNew ''webhook DNS unavailable'')
        | Inr ips \<Rightarrow>
            (if ips = [] \<or> length ips > 16 then Inl (ErrNew ''webhook DNS unavailable'')
             else if list_ex (\<lambda>ip. \<not> publicIP ip) ips then Inl (ErrNew ''webhook address blocked'')
             else dial (hd ips) ''443''))))"

subsection \<open>The addresses that pass\<close>

text \<open>The special-use blocks of IPv4 and those inside the global unicast block of IPv6, as first and last address.\<close>

definition special4 :: "(32 word \<times> 32 word) list" where
  "special4 = [(0x00000000, 0x00FFFFFF), (0x0A000000, 0x0AFFFFFF), (0x64400000, 0x647FFFFF), (0x7F000000, 0x7FFFFFFF), (0xA9FE0000, 0xA9FEFFFF), (0xAC100000, 0xAC1FFFFF),
     (0xC0000000, 0xC00000FF), (0xC0000200, 0xC00002FF), (0xC0A80000, 0xC0A8FFFF), (0xC0586300, 0xC05863FF), (0xC6120000, 0xC613FFFF), (0xC6336400, 0xC63364FF),
     (0xCB007100, 0xCB0071FF), (0xE0000000, 0xEFFFFFFF), (0xF0000000, 0xFFFFFFFF)]"

definition special6 :: "(128 word \<times> 128 word) list" where
  "special6 = [(0x20010000000000000000000000000000, 0x200101FFFFFFFFFFFFFFFFFFFFFFFFFF), (0x20010DB8000000000000000000000000, 0x20010DB8FFFFFFFFFFFFFFFFFFFFFFFF),
     (0x20020000000000000000000000000000, 0x2002FFFFFFFFFFFFFFFFFFFFFFFFFFFF), (0x3FFF0000000000000000000000000000, 0x3FFF0FFFFFFFFFFFFFFFFFFFFFFFFFFF)]"

fun global_address :: "addr \<Rightarrow> bool" where
  "global_address NoAddr = False"
| "global_address (Addr4 a) = list_all (\<lambda>(lo, hi). a < lo \<or> hi < a) special4"
| "global_address (Addr6 a z) = (z = [] \<and> 0x20000000000000000000000000000000 \<le> a \<and> a \<le> 0x3FFFFFFFFFFFFFFFFFFFFFFFFFFFFFFF
     \<and> list_all (\<lambda>(lo, hi). a < lo \<or> hi < a) special6)"

text \<open>The leading bits agree exactly when the number is in the block.\<close>

lemma same_leading_bits:
  fixes a p :: "'a::len word"
  shows "drop_bit k (a XOR p) = 0 \<longleftrightarrow> unat a div 2 ^ k = unat p div 2 ^ k"
proof -
  have "x XOR y = 0 \<longleftrightarrow> x = y" for x y :: "'a word" by (metis xor.assoc xor.comm_neutral xor.left_neutral xor_self_eq)
  then have "drop_bit k (a XOR p) = 0 \<longleftrightarrow> drop_bit k a = drop_bit k p" by (simp add: drop_bit_xor)
  also have "\<dots> \<longleftrightarrow> unat (drop_bit k a) = unat (drop_bit k p)" by (simp add: word_unat_eq_iff)
  also have "\<dots> \<longleftrightarrow> unat a div 2 ^ k = unat p div 2 ^ k" unfolding unat_drop_bit_eq by (simp add: drop_bit_eq_div)
  finally show ?thesis .
qed

lemma div_block: "p mod m = 0 \<Longrightarrow> 0 < m \<Longrightarrow> (n :: nat) div m = p div m \<longleftrightarrow> p \<le> n \<and> n < p + m"
proof -
  assume "p mod m = 0" and m: "0 < m"
  then obtain c where p: "p = m * c" by auto
  show ?thesis
  proof
    assume "n div m = p div m"
    then have "n div m = c" using p m by simp
    then show "p \<le> n \<and> n < p + m" using p m mod_less_divisor [OF m, of n] div_mult_mod_eq [of n m] by (simp add: mult.commute)
  next
    assume "p \<le> n \<and> n < p + m"
    then have "n div m = c" using p by (intro div_nat_eqI) (simp_all add: mult.commute)
    then show "n div m = p div m" using p m by simp
  qed
qed

lemma contains4_div: "Contains (Prefix4 p n) (Addr4 a) \<longleftrightarrow> unat a div 2 ^ (32 - n) = unat p div 2 ^ (32 - n)"
  unfolding Contains.simps same_leading_bits ..

lemma contains4:
  "unat p mod 2 ^ (32 - n) = 0 \<Longrightarrow> Contains (Prefix4 p n) (Addr4 a) \<longleftrightarrow> unat p \<le> unat a \<and> unat a < unat p + 2 ^ (32 - n)"
  unfolding Contains.simps same_leading_bits by (rule div_block) simp_all

lemma contains6:
  "unat p mod 2 ^ (128 - n) = 0 \<Longrightarrow> Contains (Prefix6 p n) (Addr6 a z) \<longleftrightarrow> z = [] \<and> unat p \<le> unat a \<and> unat a < unat p + 2 ^ (128 - n)"
  unfolding Contains.simps same_leading_bits by (subst div_block) simp_all

lemma denied4: "list_ex (\<lambda>p. Contains p (Addr4 a)) denied \<longleftrightarrow> \<not> global_address (Addr4 a)"
  unfolding denied_def quad_def hextets_def
  by (simp add: contains4 special4_def word_less_nat_alt less_eq_Suc_le not_le del: Contains.simps(1))

lemma denied6:
  assumes "0x20000000000000000000000000000000 \<le> a" "a \<le> 0x3FFFFFFFFFFFFFFFFFFFFFFFFFFFFFFF"
  shows "list_ex (\<lambda>p. Contains p (Addr6 a [])) denied \<longleftrightarrow> \<not> global_address (Addr6 a [])"
proof -
  have n: "42535295865117307932921825928971026432 \<le> unat a" "unat a < 85070591730234615865843651857942052864"
    using assms by (simp_all add: word_le_nat_alt)
  show ?thesis using n
    unfolding denied_def quad_def hextets_def
    by (simp add: contains6 special6_def word_less_nat_alt word_le_nat_alt not_less not_le less_eq_Suc_le del: Contains.simps(2))
qed

text \<open>The tests of net/netip by bytes add nothing to the two lists.\<close>

lemma and_field: "x AND push_bit n (mask m) = push_bit n (take_bit m (drop_bit n x))" for x :: nat
  by (rule bit_eqI) (auto simp: bit_simps)

lemma and_high: "(x :: nat) AND 0xF0 = (x div 16 mod 16) * 16"
  using and_field [of x 4 4] by (simp add: mask_eq_exp_minus_1 push_bit_eq_mult take_bit_eq_mod drop_bit_eq_div)

lemma and_nat_le: "(x :: nat) AND y \<le> x"
proof -
  have "int (x AND y) \<le> int x" by (simp add: of_nat_and_eq AND_upper1)
  then show ?thesis by simp
qed

lemma v4_nat: "v4 a 0 = unat a div 2 ^ 24" "v4 a 1 = unat a div 2 ^ 16 mod 256" "unat a div 2 ^ 16 = 256 * v4 a 0 + v4 a 1"
proof -
  have n: "unat a < 2 ^ 32" using unsigned_less [of a, where ?'a = nat] by simp
  show v0: "v4 a 0 = unat a div 2 ^ 24" using n unfolding v4_def unat_drop_bit_eq by (simp add: drop_bit_eq_div)
  show v1: "v4 a 1 = unat a div 2 ^ 16 mod 256" unfolding v4_def unat_drop_bit_eq by (simp add: drop_bit_eq_div)
  have "unat a div 2 ^ 16 div 256 = unat a div 2 ^ 24" by (simp add: div_mult2_eq [symmetric])
  then show "unat a div 2 ^ 16 = 256 * v4 a 0 + v4 a 1" using v0 v1 div_mult_mod_eq [of "unat a div 2 ^ 16" 256] by simp
qed

lemma global4:
  assumes "global_address (Addr4 a)"
  shows "IsGlobalUnicast (Addr4 a)" "\<not> IsPrivate (Addr4 a)" "\<not> IsLoopback (Addr4 a)" "\<not> IsLinkLocalUnicast (Addr4 a)"
proof -
  let ?n = "unat a"
  have d: "?n div 2 ^ 24 \<noteq> 0" "?n div 2 ^ 24 \<noteq> 10" "?n div 2 ^ 24 \<noteq> 127" "?n div 2 ^ 16 \<noteq> 43518" "?n div 2 ^ 20 \<noteq> 2753" "?n div 2 ^ 16 \<noteq> 49320" "?n div 2 ^ 28 \<noteq> 14"
    "?n div 2 ^ 28 \<noteq> 15"
    using assms denied4 [of a] by (simp_all add: denied_def quad_def contains4_div del: Contains.simps(1) global_address.simps)
  have v: "v4 a 0 \<noteq> 0" "v4 a 0 \<noteq> 10" "v4 a 0 \<noteq> 127" "\<not> (v4 a 0 = 169 \<and> v4 a 1 = 254)" "\<not> (v4 a 0 = 192 \<and> v4 a 1 = 168)"
    using d(1-4,6) v4_nat [of a] by auto
  have p: "\<not> (v4 a 0 = 172 \<and> v4 a 1 AND 0xF0 = 16)"
  proof
    assume "v4 a 0 = 172 \<and> v4 a 1 AND 0xF0 = 16"
    then have "v4 a 0 = 172" "v4 a 1 div 16 mod 16 = 1" by (simp_all add: and_high)
    moreover have "v4 a 1 < 256" by (simp add: v4_def)
    ultimately have "?n div 2 ^ 16 div 16 = 2753" unfolding v4_nat(3) [of a] by (simp add: div_add1_eq)
    then show False using d(5) by (simp add: div_mult2_eq [symmetric])
  qed
  have "v4 a 0 div 16 \<noteq> 14" "v4 a 0 div 16 \<noteq> 15" using d(7,8) by (simp_all add: v4_nat(1) div_mult2_eq [symmetric])
  moreover have "v4 a 0 < 256" by (simp add: v4_def)
  ultimately have m: "v4 a 0 AND 0xF0 \<noteq> 0xE0" "v4 a 0 \<noteq> 255" by (auto simp: and_high)
  have "a \<noteq> 0" "a \<noteq> 0xFFFFFFFF" using v(1) m(2) by (auto simp: v4_nat(1))
  with v p m show "IsGlobalUnicast (Addr4 a)" "\<not> IsPrivate (Addr4 a)" "\<not> IsLoopback (Addr4 a)" "\<not> IsLinkLocalUnicast (Addr4 a)"
    by (simp_all add: IsGlobalUnicast_def IsPrivate_def IsLoopback_def IsLinkLocalUnicast_def IsMulticast_def)
qed

lemma global6:
  assumes "0x20000000000000000000000000000000 \<le> a" "a \<le> 0x3FFFFFFFFFFFFFFFFFFFFFFFFFFFFFFF"
  shows "IsGlobalUnicast (Addr6 a z)" "\<not> IsPrivate (Addr6 a z)" "\<not> IsLoopback (Addr6 a z)" "\<not> IsLinkLocalUnicast (Addr6 a z)"
proof -
  have n: "42535295865117307932921825928971026432 \<le> unat a" "unat a < 85070591730234615865843651857942052864"
    using assms by (simp_all add: word_le_nat_alt)
  have "unat (drop_bit 32 a) \<noteq> unat (0xFFFF :: 128 word)" using n unfolding unat_drop_bit_eq by (simp add: drop_bit_eq_div)
  then have "\<not> Is4In6 a" unfolding Is4In6_def by metis
  then have u: "Unmap (Addr6 a z) = Addr6 a z" by simp
  have v6: "v6 a 0 < 64" "v6u16 a 0 < 16384" using n unfolding v6_def v6u16_def unat_drop_bit_eq by (simp_all add: drop_bit_eq_div)
  have "v6 a 0 AND 0xFE \<noteq> 0xFC" "v6u16 a 0 AND 0xFFC0 \<noteq> 0xFE80" using v6 and_nat_le [where x = "v6 a 0" and y = "0xFE"] and_nat_le [where x = "v6u16 a 0" and y = "0xFFC0"] by linarith+
  moreover have "v6 a 0 \<noteq> 0xFF" using v6 by linarith
  moreover have "a \<noteq> 0" "a \<noteq> 1" using n by auto
  ultimately show "IsGlobalUnicast (Addr6 a z)" "\<not> IsPrivate (Addr6 a z)" "\<not> IsLoopback (Addr6 a z)" "\<not> IsLinkLocalUnicast (Addr6 a z)"
    by (simp_all add: IsGlobalUnicast_def IsPrivate_def IsLoopback_def IsLinkLocalUnicast_def IsMulticast_def u del: Unmap.simps)
qed

lemma publicIP_global: "publicIP ip \<longleftrightarrow> global_address ip"
proof (cases ip)
  case (Addr4 a)
  show ?thesis
  proof (cases "global_address (Addr4 a)")
    case True
    with global4 [OF True] denied4 [of a] show ?thesis unfolding Addr4 publicIP_def by (simp add: Zone_def del: global_address.simps)
  next
    case False
    with denied4 [of a] show ?thesis unfolding Addr4 publicIP_def by (simp del: global_address.simps)
  qed
next
  case (Addr6 a z)
  let ?in = "0x20000000000000000000000000000000 \<le> a \<and> a \<le> (0x3FFFFFFFFFFFFFFFFFFFFFFFFFFFFFFF :: 128 word)"
  have block: "Contains (Prefix6 (hextets [0x2000]) 3) (Addr6 a []) \<longleftrightarrow> ?in"
    by (simp add: contains6 hextets_def word_le_nat_alt less_eq_Suc_le del: Contains.simps(2))
  show ?thesis
  proof (cases "z = [] \<and> ?in")
    case False
    then have "\<not> global_address ip" unfolding Addr6 by auto
    moreover have "\<not> publicIP ip" using False block unfolding Addr6 publicIP_def by (auto simp: Zone_def simp del: Contains.simps)
    ultimately show ?thesis by simp
  next
    case True
    then have z: "z = []" and r: "0x20000000000000000000000000000000 \<le> a" "a \<le> 0x3FFFFFFFFFFFFFFFFFFFFFFFFFFFFFFF" by blast+
    show ?thesis using global6 [OF r, of "[]"] denied6 [OF r] block True unfolding Addr6 z publicIP_def
      by (simp add: Zone_def del: global_address.simps Contains.simps)
  qed
qed (simp add: publicIP_def)

subsection \<open>Properties\<close>

text \<open>
  C35: Which addresses pass publicIP: an IPv4 address exactly when it is in none of fifteen special-use blocks, an IPv6 address exactly when it has no zone,
  lies between 2000:: and 3fff:ffff:ffff:ffff:ffff:ffff:ffff:ffff and in none of the four blocks reserved there. Mapped, translated and tunnelled forms of an IPv4
  address never pass.
\<close>

theorem public_addresses: "publicIP ip \<longleftrightarrow> global_address ip"
  by (rule publicIP_global)

text \<open>
  C36: A notification only reaches the public network. When safeDial opens a connection, the destination is port 443 of the expected host, the host has between 1 and 16
  addresses, every one of them is outside the special-use blocks, and the connection is to the first; nothing is dialled otherwise.
\<close>

theorem dial_only_global:
  assumes "safeDial address expectedHost lookup dial = Inr c"
  shows "\<exists>ips. SplitHostPort address = Some (expectedHost, ''443'') \<and> lookup expectedHost = Inr ips \<and> ips \<noteq> [] \<and> length ips \<le> 16 \<and> list_all global_address ips
    \<and> dial (hd ips) ''443'' = Inr c"
proof -
  from assms obtain ips where "SplitHostPort address = Some (expectedHost, ''443'')" "lookup expectedHost = Inr ips" "ips \<noteq> []" "length ips \<le> 16"
    "list_all publicIP ips" "dial (hd ips) ''443'' = Inr c"
    unfolding safeDial_def by (auto simp: list_ex_iff list_all_iff split: option.split_asm sum.split_asm if_split_asm)
  moreover have "publicIP = global_address" by (rule ext) (rule publicIP_global)
  ultimately show ?thesis by auto
qed

theorem dial_only_global_witness:
  "safeDial ''example.org:443'' ''example.org'' (\<lambda>_. Inr [Addr4 (quad 93 184 216 34)]) (\<lambda>ip port. Inr ip) = Inr (Addr4 (quad 93 184 216 34))
    \<and> global_address (Addr4 (quad 93 184 216 34))"
proof -
  have "SplitHostPort ''example.org:443'' = Some (''example.org'', ''443'')" by code_simp
  moreover have "publicIP (Addr4 (quad 93 184 216 34))" by code_simp
  ultimately have dialled: "safeDial ''example.org:443'' ''example.org'' (\<lambda>_. Inr [Addr4 (quad 93 184 216 34)]) (\<lambda>ip port. Inr ip) = Inr (Addr4 (quad 93 184 216 34))"
    by (simp add: safeDial_def)
  from dial_only_global [OF dialled] dialled show ?thesis by auto
qed

end
