(* ===== verification/Webhook_Outbox.thy ===== *)
theory Webhook_Outbox
  imports Webhook_Sign
begin

text \<open>
  The delivery of notifications (internal/webhook/worker.go and manage.go) on the outbox of migrations/00014_webhooks.sql: claiming an entry under a lease,
  recording the outcome, retiring, replaying and pausing. The theory shows, for every interleaving of these transactions, that a generation of a notification is
  tried at most eight times, one after the other, and that a notification is acknowledged at most once and then never touched again.
\<close>

subsection \<open>Tables\<close>

datatype outbox_state = O_PENDING | O_IN_FLIGHT | O_DELIVERED | O_DEAD

record endpoint_row =
  en_id :: string
  en_api_key_id :: string
  en_config_hash :: string
  en_enabled :: bool

record outbox_row =
  ob_sequence :: int
  ob_endpoint_id :: string
  ob_event_id :: string
  ob_message_id :: string
  ob_payload :: string
  ob_state :: outbox_state
  ob_attempts :: int
  ob_generation :: int
  ob_deadline :: time
  ob_next_at :: time
  ob_lease_token :: "string option"
  ob_lease_until :: ts

record log_row =
  lo_sequence :: int
  lo_generation :: int
  lo_attempt :: int
  lo_outcome :: string
  lo_http_code :: "int option"
  lo_actor :: "string option"
  lo_reason :: "string option"

text \<open>The type of an event and the state of the archive of a message are what the retention trigger reads.\<close>

record hooks =
  hk_keys :: "api_key_row list"
  hk_endpoints :: "endpoint_row list"
  hk_outbox :: "outbox_row list"
  hk_log :: "log_row list"
  hk_audit :: "audit_row list"
  hk_kind :: "string \<rightharpoonup> string"
  hk_archive :: "string \<rightharpoonup> string"

text \<open>The check of the table and the trigger webhook_retention_gate on an update of the state.\<close>

definition row_check :: "outbox_row \<Rightarrow> bool" where
  "row_check r = (0 \<le> ob_attempts r \<and> 0 \<le> ob_generation r \<and> (ob_state r = O_IN_FLIGHT \<longleftrightarrow> ob_lease_token r \<noteq> None \<and> ob_lease_until r \<noteq> None))"

definition retention_gate :: "hooks \<Rightarrow> outbox_row \<Rightarrow> bool" where
  "retention_gate h r = (ob_state r = O_DELIVERED \<or> hk_kind h (ob_event_id r) = Some ''ARCHIVE_PURGED''
     \<or> (case hk_archive h (ob_message_id r) of None \<Rightarrow> True | Some s \<Rightarrow> s = ''AVAILABLE''))"

definition update_outbox :: "(outbox_row \<Rightarrow> bool) \<Rightarrow> (outbox_row \<Rightarrow> outbox_row) \<Rightarrow> hooks \<Rightarrow> err + hooks" where
  "update_outbox p f h =
     (if list_all (\<lambda>r. p r \<longrightarrow> row_check (f r) \<and> retention_gate h (f r)) (hk_outbox h) then Inr (h\<lparr>hk_outbox := update_where p f (hk_outbox h)\<rparr>)
      else Inl ErrConstraint)"

definition insert_log :: "log_row \<Rightarrow> hooks \<Rightarrow> hooks" where
  "insert_log l h = h\<lparr>hk_log := hk_log h @ [l]\<rparr>"

subsection \<open>Claiming (worker.go)\<close>

record hook_claim =
  cl_Sequence :: int
  cl_Payload :: string
  cl_Token :: string
  cl_Attempt :: int
  cl_Generation :: int

definition eligible_endpoint :: "Endpoint \<Rightarrow> hooks \<Rightarrow> bool option" where
  "eligible_endpoint e h = (case find (\<lambda>r. en_id r = we_ID e) (hk_endpoints h) of
     None \<Rightarrow> None
   | Some r \<Rightarrow> (case find (\<lambda>k. k_id k = en_api_key_id r) (hk_keys h) of
       None \<Rightarrow> None
     | Some k \<Rightarrow> Some (en_enabled r \<and> k_enabled k \<and> en_config_hash r = Hash e)))"

definition abandoned :: "time \<Rightarrow> outbox_row \<Rightarrow> bool" where
  "abandoned t r = (ob_state r = O_IN_FLIGHT \<and> null_le (ob_lease_until r) t)"

definition expired_row :: "outbox_row \<Rightarrow> outbox_row" where
  "expired_row r = r\<lparr>ob_state := O_DEAD, ob_lease_token := None, ob_lease_until := None\<rparr>"

definition log_entry :: "outbox_row \<Rightarrow> int \<Rightarrow> string \<Rightarrow> log_row" where
  "log_entry r attempt outcome = \<lparr>lo_sequence = ob_sequence r, lo_generation = ob_generation r, lo_attempt = attempt, lo_outcome = outcome, lo_http_code = None,
     lo_actor = None, lo_reason = None\<rparr>"

definition retire_expired :: "env \<Rightarrow> (int \<Rightarrow> bool) \<Rightarrow> string \<Rightarrow> hooks \<Rightarrow> err + hooks" where
  "retire_expired E locked eid h =
     (let t = clk E 50;
          rows = order_limit ob_sequence 100 (\<lambda>r. ob_endpoint_id r = eid \<and> (ob_state r = O_PENDING \<or> abandoned t r) \<and> (ob_deadline r \<le> t \<or> ob_attempts r \<ge> 8)
            \<and> \<not> locked (ob_sequence r)) (hk_outbox h)
      in bind_res (update_outbox (\<lambda>r. ob_sequence r \<in> set (map ob_sequence rows)) expired_row h) (\<lambda>h.
         Inr (h\<lparr>hk_log := hk_log h @ map (\<lambda>r. log_entry r (ob_attempts r) ''EXHAUSTED'') rows\<rparr>)))"

definition claimed_row :: "env \<Rightarrow> string \<Rightarrow> outbox_row \<Rightarrow> outbox_row" where
  "claimed_row E token r = r\<lparr>ob_state := O_IN_FLIGHT, ob_attempts := ob_attempts r + 1, ob_lease_token := Some token, ob_lease_until := Some (clk E 52 + 60 * Second)\<rparr>"

definition claim_candidate :: "env \<Rightarrow> (int \<Rightarrow> bool) \<Rightarrow> string \<Rightarrow> hooks \<Rightarrow> outbox_row list" where
  "claim_candidate E locked eid h =
     (let t = clk E 51
      in order_limit (\<lambda>r. (ob_next_at r, ob_sequence r)) 1 (\<lambda>r. ob_endpoint_id r = eid \<and> ob_attempts r < 8 \<and> ob_deadline r > t
           \<and> (ob_state r = O_PENDING \<and> ob_next_at r \<le> t \<or> abandoned t r) \<and> \<not> locked (ob_sequence r)) (hk_outbox h))"

definition claim :: "env \<Rightarrow> (int \<Rightarrow> bool) \<Rightarrow> Endpoint \<Rightarrow> (hooks, hook_claim option) body" where
  "claim E locked e h =
     (if eligible_endpoint e h \<noteq> Some True then Inr (None, h)
      else bind_res (retire_expired E locked (we_ID e) h) (\<lambda>h.
        case claim_candidate E locked (we_ID e) h of
          [] \<Rightarrow> Inr (None, h)
        | r # _ \<Rightarrow>
            bind_res (update_outbox (\<lambda>x. ob_sequence x = ob_sequence r) (claimed_row E (fresh_token E)) h) (\<lambda>h.
              Inr (Some \<lparr>cl_Sequence = ob_sequence r, cl_Payload = ob_payload r, cl_Token = fresh_token E, cl_Attempt = ob_attempts r + 1, cl_Generation = ob_generation r\<rparr>,
                   insert_log (log_entry r (ob_attempts r + 1) ''STARTED'') h))))"

subsection \<open>Recording the outcome (worker.go)\<close>

definition outcome :: "hook_claim \<Rightarrow> int \<Rightarrow> bool \<Rightarrow> outbox_state \<times> string" where
  "outcome c code failed =
     (if \<not> failed \<and> code \<ge> 200 \<and> code < 300 then (O_DELIVERED, ''ACKNOWLEDGED'')
      else if cl_Attempt c \<ge> 8 then (O_DEAD, ''EXHAUSTED'') else (O_PENDING, ''RETRY''))"

text \<open>The delay in whole seconds; \<open>jitter\<close> is the result of rand.IntN(16).\<close>

definition retry_delay :: "int \<Rightarrow> int \<Rightarrow> int" where
  "retry_delay attempt jitter = 60 * 2 ^ nat (min (attempt - 1) 6) + jitter"

definition finished_row :: "env \<Rightarrow> outbox_state \<Rightarrow> int \<Rightarrow> outbox_row \<Rightarrow> outbox_row" where
  "finished_row E state delay r = r\<lparr>ob_state := state, ob_lease_token := None, ob_lease_until := None, ob_next_at := clk E 53 + delay * Second\<rparr>"

definition owned :: "env \<Rightarrow> hook_claim \<Rightarrow> outbox_row \<Rightarrow> bool" where
  "owned E c r = (ob_sequence r = cl_Sequence c \<and> ob_lease_token r = Some (cl_Token c) \<and> ob_state r = O_IN_FLIGHT \<and> null_gt (ob_lease_until r) (clk E 53))"

definition finish :: "env \<Rightarrow> int \<Rightarrow> hook_claim \<Rightarrow> int \<Rightarrow> bool \<Rightarrow> (hooks, unit) body" where
  "finish E jitter c code failed h =
     (case outcome c code failed of (state, label) \<Rightarrow>
        bind_res (update_outbox (owned E c) (finished_row E state (retry_delay (cl_Attempt c) jitter)) h) (\<lambda>h'.
        bind_res (guard_res (count_where (owned E c) (hk_outbox h) = 1) (ErrNew ''webhook claim no longer owned'')) (\<lambda>_.
        let code = (if code < 100 \<or> code > 599 then 0 else code)
        in Inr ((), insert_log \<lparr>lo_sequence = cl_Sequence c, lo_generation = cl_Generation c, lo_attempt = cl_Attempt c, lo_outcome = label,
             lo_http_code = (if code = 0 then None else Some code), lo_actor = None, lo_reason = None\<rparr> h'))))"

text \<open>
  RunOne: the claim, the second look at the configuration, the request and the record of its outcome. The sender is an argument: its status code and whether it failed.
\<close>

definition RunOne :: "env \<Rightarrow> env \<Rightarrow> (int \<Rightarrow> bool) \<Rightarrow> int \<Rightarrow> (string \<Rightarrow> int \<times> bool) \<Rightarrow> Endpoint \<Rightarrow> hooks \<Rightarrow> (bool \<times> err option) \<times> hooks" where
  "RunOne E1 E2 locked jitter send e h =
     (case claim E1 locked e h of
        Inl x \<Rightarrow> ((False, Some x), h)
      | Inr (None, h) \<Rightarrow> ((False, None), h)
      | Inr (Some c, h) \<Rightarrow>
          (let (code, failed) = (if eligible_endpoint e h = Some True then send (cl_Payload c) else (0, True))
           in case finish E2 jitter c code failed h of
                Inl x \<Rightarrow> ((True, Some x), h)
              | Inr (_, h) \<Rightarrow> ((True, None), h)))"

subsection \<open>Administration (manage.go)\<close>

definition blank :: "string \<Rightarrow> bool" where
  "blank s = (trim_space s = [])"

definition replayed_row :: "env \<Rightarrow> outbox_row \<Rightarrow> outbox_row" where
  "replayed_row E r = r\<lparr>ob_state := O_PENDING, ob_attempts := 0, ob_generation := ob_generation r + 1, ob_next_at := clk E 54, ob_deadline := clk E 54 + 24 * Hour\<rparr>"

definition Replay :: "env \<Rightarrow> int \<Rightarrow> int \<Rightarrow> string \<Rightarrow> string \<Rightarrow> (hooks, unit) body" where
  "Replay E sequence generation actor reason h =
     bind_res (guard_res (\<not> (sequence < 1 \<or> generation < 0 \<or> blank actor \<or> length actor > 128 \<or> blank reason \<or> length reason > 1000))
        (ErrNew ''invalid webhook replay arguments'')) (\<lambda>_.
     let p = (\<lambda>r. ob_sequence r = sequence \<and> ob_generation r = generation \<and> ob_state r = O_DEAD)
     in bind_res (update_outbox p (replayed_row E) h) (\<lambda>h'.
        bind_res (guard_res (count_where p (hk_outbox h) = 1) (ErrNew ''webhook is not dead or replay generation changed'')) (\<lambda>_.
        Inr ((), insert_log \<lparr>lo_sequence = sequence, lo_generation = generation + 1, lo_attempt = 0, lo_outcome = ''REPLAY_REQUESTED'', lo_http_code = None,
             lo_actor = Some actor, lo_reason = Some reason\<rparr> h'))))"

definition Pause :: "(string \<Rightarrow> string option) \<Rightarrow> string \<Rightarrow> string \<Rightarrow> string \<Rightarrow> (hooks, unit) body" where
  "Pause U i actor reason h =
     bind_res (guard_res (\<not> (\<not> canonicalID U i \<or> blank actor \<or> length actor > 128 \<or> blank reason \<or> length reason > 1000)) (ErrNew ''invalid webhook pause arguments'')) (\<lambda>_.
     bind_res (guard_res (count_where (\<lambda>r. en_id r = i) (hk_endpoints h) = 1) (ErrNew ''webhook endpoint not found'')) (\<lambda>_.
     Inr ((), h\<lparr>hk_endpoints := update_where (\<lambda>r. en_id r = i) (\<lambda>r. r\<lparr>en_enabled := False\<rparr>) (hk_endpoints h),
              hk_audit := hk_audit h @ [\<lparr>au_action = ''WEBHOOK_PAUSED'', au_actor = actor, au_data = JObj [(''endpoint_id'', JStr i), (''reason'', JStr reason)]\<rparr>]\<rparr>)))"

subsection \<open>The transactions together\<close>

text \<open>
  The state is the tables and the claims handed out so far. A new entry is written by the trigger capture_webhook_event with the next number of its sequence;
  keys, endpoints, event types and archive states may change in any way.
\<close>

inductive hstep :: "(string \<Rightarrow> string option) \<Rightarrow> hooks \<times> hook_claim list \<Rightarrow> hooks \<times> hook_claim list \<Rightarrow> bool" for U where
  notify: "\<forall>x \<in> set (hk_outbox h). ob_sequence x \<noteq> ob_sequence r \<Longrightarrow> ob_state r = O_PENDING \<Longrightarrow> ob_attempts r = 0 \<Longrightarrow> ob_generation r = 0
    \<Longrightarrow> ob_lease_token r = None \<Longrightarrow> ob_lease_until r = None \<Longrightarrow> hstep U (h, cs) (h\<lparr>hk_outbox := hk_outbox h @ [r]\<rparr>, cs)"
| claimed: "claim E locked e h = Inr (Some c, h') \<Longrightarrow> hstep U (h, cs) (h', c # cs)"
| idle: "claim E locked e h = Inr (None, h') \<Longrightarrow> hstep U (h, cs) (h', cs)"
| finished: "c \<in> set cs \<Longrightarrow> hstep U (h, cs) (commit_tx (finish E jitter c code failed) h, cs)"
| replayed: "hstep U (h, cs) (commit_tx (Replay E sequence generation actor reason) h, cs)"
| paused: "hstep U (h, cs) (commit_tx (Pause U i actor reason) h, cs)"
| other: "hk_outbox h' = hk_outbox h \<Longrightarrow> hk_log h' = hk_log h \<Longrightarrow> hstep U (h, cs) (h', cs)"

inductive hreach :: "(string \<Rightarrow> string option) \<Rightarrow> hooks \<times> hook_claim list \<Rightarrow> bool" for U where
  start: "hk_outbox h = [] \<Longrightarrow> hk_log h = [] \<Longrightarrow> hreach U (h, [])"
| step: "hreach U x \<Longrightarrow> hstep U x y \<Longrightarrow> hreach U y"

definition started :: "log_row list \<Rightarrow> int \<Rightarrow> int \<Rightarrow> int list" where
  "started log s g = map lo_attempt (filter (\<lambda>l. lo_sequence l = s \<and> lo_generation l = g \<and> lo_outcome l = ''STARTED'') log)"

definition acks :: "log_row list \<Rightarrow> int \<Rightarrow> int" where
  "acks log s = count_where (\<lambda>l. lo_sequence l = s \<and> lo_outcome l = ''ACKNOWLEDGED'') log"

definition row_ok :: "log_row list \<Rightarrow> outbox_row \<Rightarrow> bool" where
  "row_ok log r \<longleftrightarrow> row_check r \<and> ob_attempts r \<le> 8 \<and> started log (ob_sequence r) (ob_generation r) = [1..ob_attempts r]
     \<and> (\<forall>g. \<exists>n. n \<le> 8 \<and> started log (ob_sequence r) g = [1..n]) \<and> (\<forall>g > ob_generation r. started log (ob_sequence r) g = [])
     \<and> acks log (ob_sequence r) = (if ob_state r = O_DELIVERED then 1 else 0)"

definition hook_inv :: "hooks \<Rightarrow> bool" where
  "hook_inv h \<longleftrightarrow> distinct (map ob_sequence (hk_outbox h)) \<and> (\<forall>r \<in> set (hk_outbox h). row_ok (hk_log h) r)
     \<and> (\<forall>l \<in> set (hk_log h). lo_sequence l \<in> ob_sequence ` set (hk_outbox h))"

text \<open>An entry of the log that neither starts nor acknowledges a delivery does not matter to any row; one that does only to its row.\<close>

lemma log_append:
  "started (log @ [l]) s g = started log s g @ (if lo_sequence l = s \<and> lo_generation l = g \<and> lo_outcome l = ''STARTED'' then [lo_attempt l] else [])"
  "acks (log @ [l]) s = acks log s + (if lo_sequence l = s \<and> lo_outcome l = ''ACKNOWLEDGED'' then 1 else 0)"
  by (simp_all add: started_def acks_def)

lemma log_neutral:
  assumes "\<forall>l \<in> set ls. lo_outcome l \<noteq> ''STARTED'' \<and> lo_outcome l \<noteq> ''ACKNOWLEDGED''"
  shows "started (log @ ls) s g = started log s g" "acks (log @ ls) s = acks log s"
  using assms by (auto simp: started_def acks_def count_where_def filter_empty_conv)

lemma log_other:
  assumes "lo_sequence l \<noteq> s"
  shows "started (log @ [l]) s g = started log s g" "acks (log @ [l]) s = acks log s"
  using assms by (simp_all add: log_append)

lemma row_ok_cong:
  assumes "\<And>g. started log' (ob_sequence r) g = started log (ob_sequence r) g" "acks log' (ob_sequence r) = acks log (ob_sequence r)"
  shows "row_ok log' r = row_ok log r"
  using assms by (simp add: row_ok_def)

lemma rows_updated:
  assumes "hook_inv h" and same: "\<And>r. ob_sequence (f r) = ob_sequence r"
    and rows: "\<And>r. r \<in> set (hk_outbox h) \<Longrightarrow> row_ok (hk_log h) r \<Longrightarrow> row_ok (hk_log h') (if p r then f r else r)"
    and h': "hk_outbox h' = update_where p f (hk_outbox h)"
    and log: "\<And>l. l \<in> set (hk_log h') \<Longrightarrow> l \<in> set (hk_log h) \<or> lo_sequence l \<in> ob_sequence ` set (hk_outbox h)"
  shows "hook_inv h'"
proof -
  have keys: "map ob_sequence (hk_outbox h') = map ob_sequence (hk_outbox h)" unfolding h' by (rule map_update_where) (rule same)
  then have "ob_sequence ` set (hk_outbox h') = ob_sequence ` set (hk_outbox h)" by (metis list.set_map)
  moreover have "row_ok (hk_log h') r" if "r \<in> set (hk_outbox h')" for r
  proof -
    from that obtain x where x: "x \<in> set (hk_outbox h)" "r = (if p x then f x else x)" unfolding h' set_update_where by blast
    then show ?thesis using rows [OF x(1)] assms(1) unfolding hook_inv_def by blast
  qed
  moreover have "lo_sequence l \<in> ob_sequence ` set (hk_outbox h)" if "l \<in> set (hk_log h')" for l
    using log [OF that] assms(1) unfolding hook_inv_def by blast
  ultimately show ?thesis using assms(1) unfolding hook_inv_def keys by simp
qed

lemma update_outbox_Inr [simp]:
  "update_outbox p f h = Inr h' \<longleftrightarrow> list_all (\<lambda>r. p r \<longrightarrow> row_check (f r) \<and> retention_gate h (f r)) (hk_outbox h) \<and> h' = h\<lparr>hk_outbox := update_where p f (hk_outbox h)\<rparr>"
  unfolding update_outbox_def by auto

lemma updated_row_check:
  "list_all (\<lambda>r. p r \<longrightarrow> row_check (f r) \<and> retention_gate h (f r)) (hk_outbox h) \<Longrightarrow> r \<in> set (hk_outbox h) \<Longrightarrow> p r \<Longrightarrow> row_check (f r)"
  by (simp add: list_all_iff)

lemma same_row: "hook_inv h \<Longrightarrow> r \<in> set (hk_outbox h) \<Longrightarrow> x \<in> set (hk_outbox h) \<Longrightarrow> ob_sequence x = ob_sequence r \<Longrightarrow> x = r"
  unfolding hook_inv_def by (metis distinct_map inj_onD)

lemma retire_keeps:
  assumes "hook_inv h" "retire_expired E locked eid h = Inr h'"
  shows "hook_inv h'"
proof -
  define t where "t = clk E 50"
  define rows where "rows = order_limit ob_sequence 100 (\<lambda>r. ob_endpoint_id r = eid \<and> (ob_state r = O_PENDING \<or> abandoned t r)
    \<and> (ob_deadline r \<le> t \<or> ob_attempts r \<ge> 8) \<and> \<not> locked (ob_sequence r)) (hk_outbox h)"
  let ?p = "\<lambda>r. ob_sequence r \<in> set (map ob_sequence rows)"
  define new where "new = map (\<lambda>r. log_entry r (ob_attempts r) ''EXHAUSTED'') rows"
  have h': "h' = h\<lparr>hk_outbox := update_where ?p expired_row (hk_outbox h), hk_log := hk_log h @ new\<rparr>"
    using assms(2) by (auto simp: retire_expired_def Let_def bind_res_Inr_iff rows_def t_def new_def)
  have mem: "r \<in> set (hk_outbox h) \<and> ob_state r \<noteq> O_DELIVERED" if "r \<in> set rows" for r
    using order_limit_mem [OF that [unfolded rows_def]] by (auto simp: abandoned_def)
  have quiet: "\<forall>l \<in> set new. lo_outcome l \<noteq> ''STARTED'' \<and> lo_outcome l \<noteq> ''ACKNOWLEDGED''" by (auto simp: new_def log_entry_def)
  show ?thesis
  proof (rule rows_updated [OF assms(1), of expired_row])
    fix r assume r: "r \<in> set (hk_outbox h)" "row_ok (hk_log h) r"
    have "row_ok (hk_log h) (if ?p r then expired_row r else r)"
    proof (cases "?p r")
      case True
      then obtain x where "x \<in> set rows" "ob_sequence r = ob_sequence x" by auto
      then have "ob_state r \<noteq> O_DELIVERED" using same_row [OF assms(1), of x r] mem r by metis
      then show ?thesis using True r(2) by (simp add: row_ok_def expired_row_def row_check_def)
    qed (use r in simp)
    then show "row_ok (hk_log h') (if ?p r then expired_row r else r)"
      unfolding h' by (simp add: row_ok_cong [of "hk_log h @ new" _ "hk_log h"] log_neutral [OF quiet])
  next
    fix l assume "l \<in> set (hk_log h')"
    then show "l \<in> set (hk_log h) \<or> lo_sequence l \<in> ob_sequence ` set (hk_outbox h)" using mem unfolding h' by (auto simp: new_def log_entry_def)
  qed (simp_all add: expired_row_def h')
qed

lemma started_next:
  assumes "row_ok log r" "ob_attempts r < 8" "ob_state r \<noteq> O_DELIVERED" "row_check (claimed_row E token r)"
  shows "row_ok (log @ [log_entry r (ob_attempts r + 1) ''STARTED'']) (claimed_row E token r)"
proof -
  let ?log = "log @ [log_entry r (ob_attempts r + 1) ''STARTED'']"
  have "0 \<le> ob_attempts r" using assms(1) by (simp add: row_ok_def row_check_def)
  then have more: "[1..ob_attempts r] @ [ob_attempts r + 1] = [1..ob_attempts r + 1]" using upto_rec2 [of 1 "ob_attempts r + 1"] by simp
  have now_started: "started ?log (ob_sequence r) (ob_generation r) = [1..ob_attempts r + 1]"
    using assms(1) more by (simp add: log_append log_entry_def row_ok_def)
  have others: "started ?log (ob_sequence r) g = started log (ob_sequence r) g" if "g \<noteq> ob_generation r" for g
    using that by (simp add: log_append log_entry_def)
  have "\<exists>n \<le> 8. started ?log (ob_sequence r) g = [1..n]" for g
    using assms(1,2) now_started others [of g] by (cases "g = ob_generation r") (auto simp: row_ok_def intro!: exI [of _ "ob_attempts r + 1"])
  then show ?thesis using assms now_started others
    by (auto simp: row_ok_def claimed_row_def log_append(2) log_entry_def)
qed

lemma claim_keeps:
  assumes "hook_inv h" "claim E locked e h = Inr (c, h')"
  shows "hook_inv h'"
proof (cases "eligible_endpoint e h = Some True")
  case False
  then show ?thesis using assms by (simp add: claim_def)
next
  case True
  then obtain h1 where retired: "retire_expired E locked (we_ID e) h = Inr h1"
    and rest: "(case claim_candidate E locked (we_ID e) h1 of
          [] \<Rightarrow> Inr (None, h1)
        | r # _ \<Rightarrow>
            bind_res (update_outbox (\<lambda>x. ob_sequence x = ob_sequence r) (claimed_row E (fresh_token E)) h1) (\<lambda>h.
              Inr (Some \<lparr>cl_Sequence = ob_sequence r, cl_Payload = ob_payload r, cl_Token = fresh_token E, cl_Attempt = ob_attempts r + 1, cl_Generation = ob_generation r\<rparr>,
                   insert_log (log_entry r (ob_attempts r + 1) ''STARTED'') h))) = Inr (c, h')"
    using assms(2) by (auto simp: claim_def bind_res_Inr_iff)
  have inv: "hook_inv h1" by (rule retire_keeps [OF assms(1) retired])
  show ?thesis
  proof (cases "claim_candidate E locked (we_ID e) h1")
    case Nil
    then show ?thesis using rest inv by simp
  next
    case (Cons r rs)
    have "r \<in> set (claim_candidate E locked (we_ID e) h1)" by (simp add: Cons)
    then have r: "r \<in> set (hk_outbox h1)" "ob_attempts r < 8" "ob_state r \<noteq> O_DELIVERED"
      unfolding claim_candidate_def Let_def by (auto dest!: order_limit_mem simp: abandoned_def)
    let ?p = "\<lambda>x. ob_sequence x = ob_sequence r" and ?l = "log_entry r (ob_attempts r + 1) ''STARTED''"
    from rest have checked: "list_all (\<lambda>x. ?p x \<longrightarrow> row_check (claimed_row E (fresh_token E) x) \<and> retention_gate h1 (claimed_row E (fresh_token E) x)) (hk_outbox h1)"
      and h': "hk_outbox h' = update_where ?p (claimed_row E (fresh_token E)) (hk_outbox h1)" "hk_log h' = hk_log h1 @ [?l]"
      by (auto simp: Cons bind_res_Inr_iff insert_log_def)
    show ?thesis
    proof (rule rows_updated [OF inv, of "claimed_row E (fresh_token E)", OF _ _ h'(1)])
      fix x assume x: "x \<in> set (hk_outbox h1)" "row_ok (hk_log h1) x"
      show "row_ok (hk_log h') (if ?p x then claimed_row E (fresh_token E) x else x)"
      proof (cases "?p x")
        case True
        then have same: "x = r" by (rule same_row [OF inv r(1) x(1)])
        show ?thesis using started_next [OF x(2) [unfolded same] r(2,3) updated_row_check [OF checked r(1)]] unfolding same h'(2) by simp
      next
        case False
        then have "row_ok (hk_log h') x = row_ok (hk_log h1) x" unfolding h'(2) by (intro row_ok_cong) (simp_all add: log_other log_entry_def)
        then show ?thesis using x(2) False by simp
      qed
    qed (use r in \<open>auto simp: claimed_row_def h'(2) log_entry_def\<close>)
  qed
qed

lemma finish_keeps:
  assumes "hook_inv h" "finish E jitter c code failed h = Inr (u, h')"
  shows "hook_inv h'"
proof -
  obtain state label where out: "outcome c code failed = (state, label)" by fastforce
  let ?f = "finished_row E state (retry_delay (cl_Attempt c) jitter)"
  have label: "label \<noteq> ''STARTED''" "label = ''ACKNOWLEDGED'' \<longleftrightarrow> state = O_DELIVERED" "state \<noteq> O_IN_FLIGHT"
    using out by (auto simp: outcome_def split: if_split_asm)
  from assms(2) out obtain l where one: "count_where (owned E c) (hk_outbox h) = 1"
    and checked: "list_all (\<lambda>r. owned E c r \<longrightarrow> row_check (?f r) \<and> retention_gate h (?f r)) (hk_outbox h)"
    and h': "hk_outbox h' = update_where (owned E c) ?f (hk_outbox h)" "hk_log h' = hk_log h @ [l]"
    and l: "lo_sequence l = cl_Sequence c" "lo_outcome l = label"
    by (auto simp: finish_def bind_res_Inr_iff insert_log_def Let_def)
  obtain r where r: "r \<in> set (hk_outbox h)" "owned E c r" using one count_where_0_iff [of "owned E c" "hk_outbox h"] by force
  have key: "ob_sequence r = cl_Sequence c" using r(2) by (simp add: owned_def)
  show ?thesis
  proof (rule rows_updated [OF assms(1), of ?f, OF _ _ h'(1)])
    fix x assume x: "x \<in> set (hk_outbox h)" "row_ok (hk_log h) x"
    show "row_ok (hk_log h') (if owned E c x then ?f x else x)"
    proof (cases "owned E c x")
      case True
      then have "ob_state x = O_IN_FLIGHT" "ob_sequence x = cl_Sequence c" by (simp_all add: owned_def)
      then have "row_ok (hk_log h') (?f x)" using x(2) updated_row_check [OF checked x(1) True] label l
        unfolding h'(2) by (simp add: row_ok_def log_append finished_row_def)
      then show ?thesis using True by simp
    next
      case False
      then have "ob_sequence x \<noteq> cl_Sequence c" using same_row [OF assms(1) r(1) x(1)] r(2) key by metis
      then have "row_ok (hk_log h') x = row_ok (hk_log h) x" unfolding h'(2) by (intro row_ok_cong) (simp_all add: log_other l)
      then show ?thesis using x(2) False by simp
    qed
  qed (use imageI [OF r(1), of ob_sequence] key in \<open>auto simp: finished_row_def h'(2) l\<close>)
qed

lemma Replay_keeps:
  assumes "hook_inv h" "Replay E sequence generation actor reason h = Inr (u, h')"
  shows "hook_inv h'"
proof -
  let ?p = "\<lambda>r. ob_sequence r = sequence \<and> ob_generation r = generation \<and> ob_state r = O_DEAD"
  from assms(2) obtain l where one: "count_where ?p (hk_outbox h) = 1"
    and checked: "list_all (\<lambda>r. ?p r \<longrightarrow> row_check (replayed_row E r) \<and> retention_gate h (replayed_row E r)) (hk_outbox h)"
    and h': "hk_outbox h' = update_where ?p (replayed_row E) (hk_outbox h)" "hk_log h' = hk_log h @ [l]"
    and l: "lo_sequence l = sequence" "lo_outcome l = ''REPLAY_REQUESTED''"
    by (auto simp: Replay_def bind_res_Inr_iff insert_log_def Let_def)
  obtain r where r: "r \<in> set (hk_outbox h)" "ob_sequence r = sequence" using one count_where_0_iff [of ?p "hk_outbox h"] by force
  have quiet: "\<forall>x \<in> set [l]. lo_outcome x \<noteq> ''STARTED'' \<and> lo_outcome x \<noteq> ''ACKNOWLEDGED''" by (simp add: l)
  show ?thesis
  proof (rule rows_updated [OF assms(1), of "replayed_row E", OF _ _ h'(1)])
    fix x assume x: "x \<in> set (hk_outbox h)" "row_ok (hk_log h) x"
    have "row_ok (hk_log h) (if ?p x then replayed_row E x else x)"
      using x(2) updated_row_check [OF checked x(1)] by (auto simp: row_ok_def replayed_row_def)
    then show "row_ok (hk_log h') (if ?p x then replayed_row E x else x)"
      unfolding h'(2) by (subst row_ok_cong [of _ _ "hk_log h"]) (simp_all add: log_neutral [OF quiet])
  qed (use imageI [OF r(1), of ob_sequence] r(2) in \<open>auto simp: replayed_row_def h'(2) l\<close>)
qed

lemma notify_keeps:
  assumes "hook_inv h" "\<forall>x \<in> set (hk_outbox h). ob_sequence x \<noteq> ob_sequence r" "ob_state r = O_PENDING" "ob_attempts r = 0" "ob_generation r = 0" "ob_lease_token r = None"
  shows "hook_inv (h\<lparr>hk_outbox := hk_outbox h @ [r]\<rparr>)"
proof -
  have "lo_sequence l \<noteq> ob_sequence r" if "l \<in> set (hk_log h)" for l using that assms(1,2) unfolding hook_inv_def by fastforce
  then have "started (hk_log h) (ob_sequence r) g = []" "acks (hk_log h) (ob_sequence r) = 0" for g
    by (auto simp: started_def acks_def count_where_0_iff filter_empty_conv)
  then have "row_ok (hk_log h) r" using assms by (auto simp: row_ok_def row_check_def intro!: exI [of _ 0])
  then show ?thesis using assms(1,2) by (auto simp: hook_inv_def)
qed

lemma hstep_keeps:
  assumes "hstep U x y" "hook_inv (fst x)"
  shows "hook_inv (fst y)"
  using assms
proof (induction rule: hstep.induct)
  case (notify h r cs)
  then show ?case using notify_keeps [of h r] by simp
next
  case (claimed E locked e h c h' cs)
  then show ?case using claim_keeps by (metis fst_conv)
next
  case (idle E locked e h h' cs)
  then show ?case using claim_keeps by (metis fst_conv)
next
  case (finished c cs h E jitter code failed)
  then have inv: "hook_inv h" by simp
  show ?case unfolding fst_conv by (rule commit_tx_invariant [where P = hook_inv, OF inv finish_keeps [OF inv]])
next
  case (replayed h cs E sequence generation actor reason)
  then have inv: "hook_inv h" by simp
  show ?case unfolding fst_conv by (rule commit_tx_invariant [where P = hook_inv, OF inv Replay_keeps [OF inv]])
next
  case (paused h cs i actor reason)
  then show ?case unfolding fst_conv by (intro commit_tx_invariant [where P = hook_inv]) (auto simp: Pause_def bind_res_Inr_iff hook_inv_def)
next
  case (other h' h cs)
  then show ?case by (simp add: hook_inv_def)
qed

lemma hreach_inv: "hreach U x \<Longrightarrow> hook_inv (fst x)"
  by (induction rule: hreach.induct) (simp add: hook_inv_def, rule hstep_keeps)

text \<open>What is fixed about a notification, whatever happens to it.\<close>

definition follows :: "outbox_row \<Rightarrow> outbox_row \<Rightarrow> bool" where
  "follows r r' \<longleftrightarrow> ob_sequence r' = ob_sequence r \<and> ob_endpoint_id r' = ob_endpoint_id r \<and> ob_event_id r' = ob_event_id r \<and> ob_message_id r' = ob_message_id r
     \<and> ob_payload r' = ob_payload r \<and> ob_generation r \<le> ob_generation r' \<and> (ob_state r = O_DELIVERED \<longrightarrow> r' = r)"

definition rows_follow :: "hooks \<Rightarrow> hooks \<Rightarrow> bool" where
  "rows_follow h h' \<longleftrightarrow> (\<forall>r \<in> set (hk_outbox h). \<exists>r' \<in> set (hk_outbox h'). follows r r')"

lemma follows_refl [simp]: "follows r r"
  by (simp add: follows_def)

lemma rows_follow_mono: "set (hk_outbox h) \<subseteq> set (hk_outbox h') \<Longrightarrow> rows_follow h h'"
  unfolding rows_follow_def by (meson follows_refl subsetD)

lemma follows_trans: "follows r r' \<Longrightarrow> follows r' r'' \<Longrightarrow> follows r r''"
  by (auto simp: follows_def)

lemma rows_follow_trans: "rows_follow h h' \<Longrightarrow> rows_follow h' h'' \<Longrightarrow> rows_follow h h''"
  unfolding rows_follow_def by (meson follows_trans)

lemma rows_follow_update:
  assumes "hk_outbox h' = update_where p f (hk_outbox h)" "\<And>r. r \<in> set (hk_outbox h) \<Longrightarrow> p r \<Longrightarrow> follows r (f r)"
  shows "rows_follow h h'"
  unfolding rows_follow_def
proof
  fix r assume r: "r \<in> set (hk_outbox h)"
  have "follows r (if p r then f r else r)" using assms(2) [OF r] by simp
  then show "\<exists>r' \<in> set (hk_outbox h'). follows r r'" using update_where_memI [OF r] unfolding assms(1) by blast
qed

lemma retire_follows:
  assumes "hook_inv h" "retire_expired E locked eid h = Inr h'"
  shows "rows_follow h h'"
proof -
  define rows where "rows = order_limit ob_sequence 100 (\<lambda>r. ob_endpoint_id r = eid \<and> (ob_state r = O_PENDING \<or> abandoned (clk E 50) r)
    \<and> (ob_deadline r \<le> clk E 50 \<or> ob_attempts r \<ge> 8) \<and> \<not> locked (ob_sequence r)) (hk_outbox h)"
  have "hk_outbox h' = update_where (\<lambda>r. ob_sequence r \<in> set (map ob_sequence rows)) expired_row (hk_outbox h)"
    using assms(2) by (auto simp: retire_expired_def Let_def bind_res_Inr_iff rows_def)
  then show ?thesis
  proof (rule rows_follow_update)
    fix r assume r: "r \<in> set (hk_outbox h)" "ob_sequence r \<in> set (map ob_sequence rows)"
    then obtain x where x: "x \<in> set rows" "ob_sequence r = ob_sequence x" by auto
    have "x \<in> set (hk_outbox h) \<and> ob_state x \<noteq> O_DELIVERED" using order_limit_mem [OF x(1) [unfolded rows_def]] by (auto simp: abandoned_def)
    then have "ob_state r \<noteq> O_DELIVERED" using same_row [OF assms(1), of x r] r(1) x(2) by metis
    then show "follows r (expired_row r)" by (simp add: follows_def expired_row_def)
  qed
qed

lemma claim_follows:
  assumes "hook_inv h" "claim E locked e h = Inr (c, h')"
  shows "rows_follow h h'"
proof (cases "eligible_endpoint e h = Some True")
  case False
  then show ?thesis using assms by (simp add: claim_def rows_follow_mono)
next
  case True
  then obtain h1 where retired: "retire_expired E locked (we_ID e) h = Inr h1"
    using assms(2) by (auto simp: claim_def bind_res_Inr_iff)
  note first = retire_follows [OF assms(1) retired]
  show ?thesis
  proof (cases "claim_candidate E locked (we_ID e) h1")
    case Nil
    then show ?thesis using assms(2) True retired first by (simp add: claim_def)
  next
    case (Cons r rs)
    have "r \<in> set (claim_candidate E locked (we_ID e) h1)" by (simp add: Cons)
    then have r: "r \<in> set (hk_outbox h1)" "ob_state r \<noteq> O_DELIVERED"
      unfolding claim_candidate_def Let_def by (auto dest!: order_limit_mem simp: abandoned_def)
    have "hk_outbox h' = update_where (\<lambda>x. ob_sequence x = ob_sequence r) (claimed_row E (fresh_token E)) (hk_outbox h1)"
      using assms(2) True retired by (auto simp: claim_def Cons bind_res_Inr_iff insert_log_def)
    then have "rows_follow h1 h'"
    proof (rule rows_follow_update)
      fix x assume "x \<in> set (hk_outbox h1)" "ob_sequence x = ob_sequence r"
      then have "x = r" by (rule same_row [OF retire_keeps [OF assms(1) retired] r(1)])
      then show "follows x (claimed_row E (fresh_token E) x)" using r(2) by (simp add: follows_def claimed_row_def)
    qed
    with first show ?thesis by (rule rows_follow_trans)
  qed
qed

lemma finish_follows:
  assumes "finish E jitter c code failed h = Inr (u, h')"
  shows "rows_follow h h'"
proof -
  have "hk_outbox h' = update_where (owned E c) (finished_row E (fst (outcome c code failed)) (retry_delay (cl_Attempt c) jitter)) (hk_outbox h)"
    using assms by (auto simp: finish_def bind_res_Inr_iff insert_log_def Let_def split: prod.split_asm)
  then show ?thesis by (rule rows_follow_update) (simp add: follows_def owned_def finished_row_def)
qed

lemma Replay_follows:
  assumes "Replay E sequence generation actor reason h = Inr (u, h')"
  shows "rows_follow h h'"
proof -
  have "hk_outbox h' = update_where (\<lambda>r. ob_sequence r = sequence \<and> ob_generation r = generation \<and> ob_state r = O_DEAD) (replayed_row E) (hk_outbox h)"
    using assms by (auto simp: Replay_def bind_res_Inr_iff insert_log_def Let_def)
  then show ?thesis by (rule rows_follow_update) (simp add: follows_def replayed_row_def)
qed

lemma hstep_follows:
  assumes "hstep U x y" "hook_inv (fst x)"
  shows "rows_follow (fst x) (fst y)"
  using assms
proof (induction rule: hstep.induct)
  case (claimed E locked e h c h' cs)
  then show ?case using claim_follows by (metis fst_conv)
next
  case (idle E locked e h h' cs)
  then show ?case using claim_follows by (metis fst_conv)
next
  case (finished c cs h E jitter code failed)
  show ?case unfolding fst_conv by (rule commit_tx_invariant [where P = "rows_follow h", OF _ finish_follows]) (simp add: rows_follow_mono)
next
  case (replayed h cs E sequence generation actor reason)
  show ?case unfolding fst_conv by (rule commit_tx_invariant [where P = "rows_follow h", OF _ Replay_follows]) (simp add: rows_follow_mono)
next
  case (paused h cs i actor reason)
  show ?case unfolding fst_conv by (rule commit_tx_invariant [where P = "rows_follow h"]) (auto simp: Pause_def bind_res_Inr_iff intro: rows_follow_mono)
qed (auto intro: rows_follow_mono)

lemma hreach_follows:
  assumes "(hstep U)\<^sup>*\<^sup>* x y" "hreach U x"
  shows "hreach U y \<and> rows_follow (fst x) (fst y)"
  using assms
proof (induction rule: rtranclp_induct)
  case base
  then show ?case by (simp add: rows_follow_mono)
next
  case (step y z)
  then have "hreach U y" "rows_follow (fst x) (fst y)" by simp_all
  moreover have "rows_follow (fst y) (fst z)" using hstep_follows [OF step.hyps(2) hreach_inv] \<open>hreach U y\<close> by simp
  ultimately show ?case using hreach.step [OF _ step.hyps(2)] rows_follow_trans by blast
qed

subsection \<open>A run\<close>

text \<open>An endpoint is told of one event: the first request is answered with 503, the second, after the delay, with 200.\<close>

definition sample_hook_env :: "time \<Rightarrow> env" where
  "sample_hook_env t = \<lparr>now = t, clk = (\<lambda>_. t), host = t, locked_messages = (\<lambda>_. False), locked_providers = (\<lambda>_. False), locked_owners = (\<lambda>_. False),
     fresh_token = ''lease'', fresh_id = ''id'', uuid_valid = (\<lambda>_. True)\<rparr>"

definition sample_endpoint :: Endpoint where
  "sample_endpoint = \<lparr>we_SchemaVersion = 1, we_ID = ''e'', we_APIKeyID = ''k'', we_URL = ''https://example.org/hook'', we_Keys = sample_keys\<rparr>"

definition sample_row :: "outbox_state \<Rightarrow> int \<Rightarrow> time \<Rightarrow> string option \<Rightarrow> ts \<Rightarrow> outbox_row" where
  "sample_row state n next token until = \<lparr>ob_sequence = 1, ob_endpoint_id = ''e'', ob_event_id = ''v'', ob_message_id = ''m'', ob_payload = ''{}'', ob_state = state,
     ob_attempts = n, ob_generation = 0, ob_deadline = 24 * Hour, ob_next_at = next, ob_lease_token = token, ob_lease_until = until\<rparr>"

definition sample_log :: "int \<Rightarrow> string \<Rightarrow> int option \<Rightarrow> log_row" where
  "sample_log attempt label code = \<lparr>lo_sequence = 1, lo_generation = 0, lo_attempt = attempt, lo_outcome = label, lo_http_code = code, lo_actor = None, lo_reason = None\<rparr>"

definition sample_hooks :: "outbox_row list \<Rightarrow> log_row list \<Rightarrow> hooks" where
  "sample_hooks rows log = \<lparr>hk_keys = [\<lparr>k_id = ''k'', k_enabled = True, k_environment = ''live'', k_minute_limit = 0, k_hour_limit = 0, k_day_limit = 0\<rparr>],
     hk_endpoints = [\<lparr>en_id = ''e'', en_api_key_id = ''k'', en_config_hash = Hash sample_endpoint, en_enabled = True\<rparr>], hk_outbox = rows, hk_log = log, hk_audit = [],
     hk_kind = Map.empty, hk_archive = Map.empty\<rparr>"

definition sample_claim :: "int \<Rightarrow> hook_claim" where
  "sample_claim n = \<lparr>cl_Sequence = 1, cl_Payload = ''{}'', cl_Token = ''lease'', cl_Attempt = n, cl_Generation = 0\<rparr>"

definition sample_sent :: "hooks \<times> hook_claim list" where
  "sample_sent = (sample_hooks [sample_row O_DELIVERED 2 (300 * Second) None None]
     [sample_log 1 ''STARTED'' None, sample_log 1 ''RETRY'' (Some 503), sample_log 2 ''STARTED'' None, sample_log 2 ''ACKNOWLEDGED'' (Some 200)], [sample_claim 2, sample_claim 1])"

lemmas sample_hook_defs = sample_hook_env_def sample_endpoint_def sample_row_def sample_log_def sample_hooks_def sample_claim_def

lemma sample_claimed:
  assumes "clk E 50 = t" "clk E 51 = t" "clk E 52 = t" "fresh_token E = ''lease''" "0 \<le> n" "n < 8" "next \<le> t" "t < 24 * Hour"
  shows "claim E (\<lambda>_. False) sample_endpoint (sample_hooks [sample_row O_PENDING n next None None] log)
    = Inr (Some (sample_claim (n + 1)), sample_hooks [sample_row O_IN_FLIGHT (n + 1) next (Some ''lease'') (Some (t + 60 * Second))] (log @ [sample_log (n + 1) ''STARTED'' None]))"
  using assms by (simp add: claim_def eligible_endpoint_def retire_expired_def claim_candidate_def claimed_row_def update_outbox_def row_check_def retention_gate_def
      order_limit_def log_entry_def insert_log_def sample_hook_defs update_where_def)

lemma sample_finished:
  assumes "clk E 53 = t" "t < until" "1 \<le> n" "n < 8"
  shows "commit_tx (finish E 0 (sample_claim n) 200 False) (sample_hooks [sample_row O_IN_FLIGHT n next (Some ''lease'') (Some until)] log)
      = sample_hooks [sample_row O_DELIVERED n (t + retry_delay n 0 * Second) None None] (log @ [sample_log n ''ACKNOWLEDGED'' (Some 200)])"
    "commit_tx (finish E 0 (sample_claim n) 503 False) (sample_hooks [sample_row O_IN_FLIGHT n next (Some ''lease'') (Some until)] log)
      = sample_hooks [sample_row O_PENDING n (t + retry_delay n 0 * Second) None None] (log @ [sample_log n ''RETRY'' (Some 503)])"
  using assms by (simp_all add: finish_def commit_tx_def outcome_def finished_row_def owned_def update_outbox_def row_check_def retention_gate_def insert_log_def sample_hook_defs
      update_where_def count_where_def null_gt_def)

lemma sample_sent_reached:
  obtains x where "hreach U x" "fst x = sample_hooks [sample_row O_IN_FLIGHT 2 (60 * Second) (Some ''lease'') (Some (240 * Second))]
      [sample_log 1 ''STARTED'' None, sample_log 1 ''RETRY'' (Some 503), sample_log 2 ''STARTED'' None]" "hreach U sample_sent" "hstep U x sample_sent"
proof -
  let ?E = sample_hook_env and ?r = sample_row and ?S = "''STARTED''" and ?R = "sample_log 1 ''RETRY'' (Some 503)"
  let ?l = "Some ''lease''"
  have "hreach U (sample_hooks [] [], [])" by (rule hreach.start) (simp_all add: sample_hooks_def)
  moreover have "hstep U (sample_hooks [] [], []) (sample_hooks [?r O_PENDING 0 0 None None] [], [])"
    using hstep.notify [of "sample_hooks [] []" "?r O_PENDING 0 0 None None" U "[]"] by (simp add: sample_hooks_def sample_row_def)
  ultimately have 0: "hreach U (sample_hooks [?r O_PENDING 0 0 None None] [], [])" by (rule hreach.step)
  have "hstep U (sample_hooks [?r O_PENDING 0 0 None None] [], []) (sample_hooks [?r O_IN_FLIGHT 1 0 ?l (Some (60 * Second))] [sample_log 1 ?S None], [sample_claim 1])"
    using hstep.claimed [OF sample_claimed [of "?E 0" 0 0 0 "[]"]] by (simp add: sample_hook_env_def duration_defs)
  with 0 have 1: "hreach U (sample_hooks [?r O_IN_FLIGHT 1 0 ?l (Some (60 * Second))] [sample_log 1 ?S None], [sample_claim 1])" by (rule hreach.step)
  have "hstep U (sample_hooks [?r O_IN_FLIGHT 1 0 ?l (Some (60 * Second))] [sample_log 1 ?S None], [sample_claim 1])
      (sample_hooks [?r O_PENDING 1 (60 * Second) None None] [sample_log 1 ?S None, ?R], [sample_claim 1])"
    using hstep.finished [of "sample_claim 1" "[sample_claim 1]" U "sample_hooks [?r O_IN_FLIGHT 1 0 ?l (Some (60 * Second))] [sample_log 1 ?S None]" "?E 0" 0 503 False]
      sample_finished(2) [of "?E 0" 0 "60 * Second" 1 0 "[sample_log 1 ?S None]"] by (simp add: sample_hook_env_def duration_defs retry_delay_def)
  with 1 have 2: "hreach U (sample_hooks [?r O_PENDING 1 (60 * Second) None None] [sample_log 1 ?S None, ?R], [sample_claim 1])" by (rule hreach.step)
  let ?x = "(sample_hooks [?r O_IN_FLIGHT 2 (60 * Second) ?l (Some (240 * Second))] [sample_log 1 ?S None, ?R, sample_log 2 ?S None], [sample_claim 2, sample_claim 1])"
  have "hstep U (sample_hooks [?r O_PENDING 1 (60 * Second) None None] [sample_log 1 ?S None, ?R], [sample_claim 1]) ?x"
    using hstep.claimed [OF sample_claimed [of "?E (180 * Second)" "180 * Second" 1 "60 * Second" "[sample_log 1 ?S None, ?R]"]] by (simp add: sample_hook_env_def duration_defs)
  with 2 have 3: "hreach U ?x" by (rule hreach.step)
  have step: "hstep U ?x sample_sent"
    using hstep.finished [of "sample_claim 2" "[sample_claim 2, sample_claim 1]" U "fst ?x" "?E (180 * Second)" 0 200 False]
      sample_finished(1) [of "?E (180 * Second)" "180 * Second" "240 * Second" 2 "60 * Second" "[sample_log 1 ?S None, ?R, sample_log 2 ?S None]"]
    unfolding sample_sent_def by (simp add: sample_hook_env_def duration_defs retry_delay_def)
  show ?thesis using that [of ?x] 3 step hreach.step [OF 3 step] by simp
qed

subsection \<open>Properties\<close>

text \<open>
  C37: However the workers, the administrator and the triggers interleave, the requests recorded for one generation of a notification are numbered 1, 2, 3 and so on without gap
  or repetition, at most eight of them, the stored counter is the number of the last; and the log acknowledges the notification exactly once if it is DELIVERED and never otherwise.
\<close>

theorem notification_attempts:
  assumes "hreach U (h, cs)" "r \<in> set (hk_outbox h)"
  shows "started (hk_log h) (ob_sequence r) (ob_generation r) = [1..ob_attempts r] \<and> ob_attempts r \<le> 8
    \<and> (\<forall>g. \<exists>n \<le> 8. started (hk_log h) (ob_sequence r) g = [1..n])
    \<and> acks (hk_log h) (ob_sequence r) = (if ob_state r = O_DELIVERED then 1 else 0)"
  using hreach_inv [OF assms(1)] assms(2) unfolding hook_inv_def row_ok_def by simp

theorem notification_attempts_witness:
  "hreach (\<lambda>_. None) sample_sent \<and> started (hk_log (fst sample_sent)) 1 0 = [1..2] \<and> acks (hk_log (fst sample_sent)) 1 = 1"
proof -
  obtain x where reached: "hreach (\<lambda>_. None) sample_sent" by (rule sample_sent_reached)
  then have "hreach (\<lambda>_. None) (fst sample_sent, snd sample_sent)" by simp
  from notification_attempts [OF this, of "sample_row O_DELIVERED 2 (300 * Second) None None"] reached
  show ?thesis by (simp add: sample_sent_def sample_hooks_def sample_row_def)
qed

text \<open>
  C38: A notification is immutable and a delivered one is final: after any further sequence of steps it is still in the outbox with the same number, endpoint, event, message and payload and
  a generation that has not gone back, and if it was DELIVERED its row is the same in every column, so it is never claimed, expired or replayed again.
\<close>

theorem delivered_final:
  assumes "hreach U x" "(hstep U)\<^sup>*\<^sup>* x y" "r \<in> set (hk_outbox (fst x))"
  shows "\<exists>r' \<in> set (hk_outbox (fst y)). ob_sequence r' = ob_sequence r \<and> ob_endpoint_id r' = ob_endpoint_id r \<and> ob_event_id r' = ob_event_id r
    \<and> ob_message_id r' = ob_message_id r \<and> ob_payload r' = ob_payload r \<and> ob_generation r \<le> ob_generation r' \<and> (ob_state r = O_DELIVERED \<longrightarrow> r' = r)"
  using hreach_follows [OF assms(2,1)] assms(3) unfolding rows_follow_def follows_def by blast

theorem delivered_final_witness:
  "\<exists>x. hreach (\<lambda>_. None) x \<and> hstep (\<lambda>_. None) x sample_sent
     \<and> (\<exists>r \<in> set (hk_outbox (fst x)). \<exists>r' \<in> set (hk_outbox (fst sample_sent)). ob_state r = O_IN_FLIGHT \<and> ob_state r' = O_DELIVERED \<and> ob_payload r' = ob_payload r)"
proof -
  obtain x where x: "hreach (\<lambda>_. None) x" "hstep (\<lambda>_. None) x sample_sent"
    and rows: "fst x = sample_hooks [sample_row O_IN_FLIGHT 2 (60 * Second) (Some ''lease'') (Some (240 * Second))]
      [sample_log 1 ''STARTED'' None, sample_log 1 ''RETRY'' (Some 503), sample_log 2 ''STARTED'' None]" by (rule sample_sent_reached)
  let ?r = "sample_row O_IN_FLIGHT 2 (60 * Second) (Some ''lease'') (Some (240 * Second))"
  have r: "?r \<in> set (hk_outbox (fst x))" by (simp add: rows sample_hooks_def)
  obtain r' where r': "r' \<in> set (hk_outbox (fst sample_sent))" "ob_payload r' = ob_payload ?r"
    using delivered_final [OF x(1) r_into_rtranclp [of "hstep (\<lambda>_. None)", OF x(2)] r] by blast
  have "ob_state ?r = O_IN_FLIGHT" by (simp add: sample_row_def)
  moreover have "ob_state r' = O_DELIVERED" using r'(1) by (simp add: sample_sent_def sample_hooks_def sample_row_def)
  ultimately show ?thesis using x r r' by blast
qed

end
