(* ===== verification/Spec2Isabelle.thy ===== *)
theory Spec2Isabelle
  imports Smtp_Evidence Resource Admission Suppression Queue_Ledger Queue_Limits Queue_Outcome Message_Accepted Queue_Worker Webhook_Dial Webhook_Outbox
begin

text \<open>
  A verification library for relaytale, a store-and-forward mail relay written in Go with PostgreSQL as its memory.

  \<^bold>\<open>The program.\<close> A website or an SMTP client hands in a message (internal/message, behind internal/api and internal/smtpserver). Its bytes are archived on disk
  (internal/storage), its rows are inserted in one transaction. Workers (internal/queue) claim messages under leases, read the archive back, talk to a provider
  (internal/smtpclient), and record for every recipient an outcome the policy (internal/delivery) decides on: accepted, retried, failed, or unknown, which only an operator
  resolves. Blocked addresses (internal/suppression), quotas, budgets and limits (internal/resource, admission.go) bound all this, and websites are told of events by signed
  requests (internal/webhook).

  \<^bold>\<open>Conventions.\<close> A Go string is a sequence of bytes and a HOL string; a struct is a record, an error a value of the type err (Prelude). A time is the number of nanoseconds
  since the zero time of Go; a nullable column is an option. A transaction is a function from the tables to an error, which changes nothing, or to a result and new tables;
  the environment (record env of Database) supplies the clock, the generated identifiers and the rows that FOR UPDATE SKIP LOCKED passes over because another transaction holds
  them. Concurrency is a step relation whose steps are whole transactions, or critical sections of a mutex, in any order. The network and the system are
  inputs: what each call answers is a field of a record.

  \<^bold>\<open>Foundations.\<close>
  \<^item> Prelude: errors, results, transactions, Hoare triples for results, time, SQL on tables as lists, JSON documents.
  \<^item> Go_Strings, Go_Net, Go_Json, Sha256: the functions of Go's library the code uses (strings, base64, integers as text; addresses; json.Marshal, with its injectivity; SHA-256).
  \<^item> Database: the tables of migrations/ with the constraints a statement can violate.

  \<^bold>\<open>Sending.\<close>
  \<^item> Delivery (internal/delivery): Decide and ProviderOutcome. An uncertain outcome is never retried, retries stay within the budget of attempts and time, another provider is only
    tried before the body was sent, and the decision agrees with the evidence.
  \<^item> Smtp_Stream (stream.go): the check for CRLF lines decides exactly that, and a receiver that undoes dot stuffing gets the message back.
  \<^item> Smtp_Client, Smtp_Send (client.go, capabilities.go, result.go): the conversation phase by phase; Smtp_Evidence: its result is evidence, the body is only sent after permission and
    nothing but the greeting before TLS, a probe sends no message.
  \<^item> Resource (limiter.go): the budgets are never exceeded and requests are granted in their order.
  \<^item> Queue_Worker (internal/queue/worker.go): only the accepted message is sent, and a turn of the worker is a sequence of steps of the queue.

  \<^bold>\<open>The queue\<close> (internal/queue, internal/suppression).
  \<^item> Suppression: Add, Release, Apply of service.go, with the round trip of adding and releasing.
  \<^item> Queue_Base, Queue_Claim, Queue_Finish, Queue_Recover: the operations of repository.go, decisions.go, controls.go, failover.go, fairness.go, expiry.go, suppression.go, manual.go.
  \<^item> Queue_Tables, Queue_Invariant, Queue_Unlocked, Queue_Leased, Queue_Closing, Queue_Finishing, Queue_Finished, Queue_Claiming, Queue_Arrival: what each operation does to each table, the
    invariant, and that every operation keeps it. The locale event_frame says that writing events changes no table, row_relation lifts a relation between rows to a table.
  \<^item> Queue_System: the step relation qstep and its reachable states; Queue_Sample: a small queue to evaluate.
  \<^item> Queue_Properties: the invariant of reachable states, no second transmission without an operator's decision, exclusive leases, permission for DATA; Queue_Ledger: the queue refines
    an abstract ledger of recipients (locale simulation, interpreted on qstep); Queue_Limits: quotas, connections and fairness; Queue_Outcome: recovery, resolutions, the scheduler.

  \<^bold>\<open>Accepting messages\<close> (internal/message, internal/storage, internal/auth, admission.go).
  \<^item> Admission: the limits on SMTP clients and the rate of a token bucket. Auth: addresses, password hashes, concurrent checks.
  \<^item> Message_Base: business references, streams, deadlines in their canonical form. Message_Enqueue: the transaction that accepts a message, the idempotency ledger, budgets, schedules, cancelling.
  \<^item> Message_Fingerprint: the fingerprint identifies the request. Storage: Save on a file system with crashes; a reported archive survives them.
  \<^item> Message_Receive: Receive and ReceiveReplacing; Message_Ledger, Message_Accepted: an accepted message is archived, a repeated request is answered once, the budgets hold.

  \<^bold>\<open>Notifications\<close> (internal/webhook).
  \<^item> Webhook_Sign: keys, Sign and Verify, with HMAC; every signature made is accepted. Webhook_Dial: publicIP is the complement of the special-use ranges, safeDial connects to nothing else.
  \<^item> Webhook_Outbox: claim, finish, Replay, Pause on the outbox; at most eight numbered attempts in a generation, one acknowledgement, a delivered notification is final.

  \<^bold>\<open>Bounds and termination.\<close> Every definition is a total function; loops over rows, reads or tokens recurse on the list they consume. The loop of the SMTP authentication has the ten
  turns of the code. Waiting loops (the limiter, the worker) are modelled by single turns of a step relation, so no fuel is needed. A list of reads that is used up counts as a
  read without progress. Token buckets use rationals where the code has float64; identifiers of PostgreSQL are compared as texts.

  \<^bold>\<open>Arguments for code outside the repository.\<close> google/uuid is a function that gives the canonical text of an identifier, argon2 a function of password and salt, the SASL mechanisms and
  net/mail's inspection of header fields are inputs; the theorems that need more than that name it as a hypothesis, and their witnesses instantiate it.

  \<^bold>\<open>Not modelled.\<close> The HTTP handlers and the console (internal/api) and the SMTP sessions (server.go), which rest on net/http, go-smtp and go-sasl; the decoding of
  configuration (internal/config, Parse, ValidateURL and Sync of internal/webhook); AES-GCM (internal/encryption), which the worker takes as an argument; the pool, migrations and privileges of the database
  (internal/database); provider administration (internal/provider), whose rows are arbitrary in the model; retention, inventories, backups and metrics (internal/operations, internal/recovery,
  internal/metrics); the parsing of delivery reports (internal/feedback, internal/feedbackimap, internal/mimeinspect); the commands and examples. Timings of an attempt, log lines and
  the text of the payload the database builds for a notification are left out as well.
\<close>

end
